(* ===== verification/Prelude.thy ===== *)
theory Prelude
  imports Main "HOL-Library.Word" "HOL-Library.Sublist"
begin

text \<open>
  What the components share: the model of the C++ standard library calls that the sources use
  (\<open>std::string\<close> searching and slicing, \<open>std::getline\<close>, stream extraction, \<open>std::to_string\<close>,
  \<open>std::stoi\<close>, the C-locale character classes), and the lemma collections for them.
  A \<open>std::string\<close> is a \<^typ>\<open>string\<close>: a list of \<^typ>\<open>char\<close>, which are bytes. \<open>npos\<close> is \<open>None\<close>.
\<close>

named_theorems cxx_simps \<open>characteristic equations of the C++ library model\<close>

section \<open>Characters\<close>

abbreviation CR :: char where "CR \<equiv> CHR 0x0D"
abbreviation LF :: char where "LF \<equiv> CHR 0x0A"
abbreviation TAB :: char where "TAB \<equiv> CHR 0x09"
abbreviation crlf :: string where "crlf \<equiv> [CR, LF]"

definition byte_of :: "char \<Rightarrow> nat" where
  "byte_of c = of_char c"

definition to_byte :: "nat \<Rightarrow> char" where
  "to_byte n = char_of n"

lemma byte_of_less [simp]: "byte_of c < 256"
  by (simp add: byte_of_def)

lemma to_byte_byte_of [simp]: "to_byte (byte_of c) = c"
  by (simp add: to_byte_def byte_of_def)

lemma byte_of_to_byte [simp]: "byte_of (to_byte n) = n mod 256"
  by (simp add: to_byte_def byte_of_def)

lemma byte_of_inject [simp]: "byte_of c = byte_of d \<longleftrightarrow> c = d"
  by (simp add: byte_of_def)

lemma all_bytesI: "(\<And>n. n < 256 \<Longrightarrow> P (to_byte n)) \<Longrightarrow> P c"
  by (metis byte_of_less to_byte_byte_of)

definition isspace :: "char \<Rightarrow> bool" where
  "isspace c \<longleftrightarrow> (9 \<le> byte_of c \<and> byte_of c \<le> 13) \<or> byte_of c = 32"

definition isdigit :: "char \<Rightarrow> bool" where
  "isdigit c \<longleftrightarrow> 48 \<le> byte_of c \<and> byte_of c \<le> 57"

definition isupper :: "char \<Rightarrow> bool" where
  "isupper c \<longleftrightarrow> 65 \<le> byte_of c \<and> byte_of c \<le> 90"

definition islower :: "char \<Rightarrow> bool" where
  "islower c \<longleftrightarrow> 97 \<le> byte_of c \<and> byte_of c \<le> 122"

definition isalnum :: "char \<Rightarrow> bool" where
  "isalnum c \<longleftrightarrow> isdigit c \<or> isupper c \<or> islower c"

definition tolower :: "char \<Rightarrow> char" where
  "tolower c = (if isupper c then to_byte (byte_of c + 32) else c)"

lemma tolower_idem [simp]: "tolower (tolower c) = tolower c"
  by (auto simp: tolower_def isupper_def)

section \<open>Searching and slicing strings\<close>

text \<open>\<open>s.find(p)\<close>: the least position at which \<open>p\<close> occurs in \<open>s\<close>.\<close>

fun str_find :: "string \<Rightarrow> string \<Rightarrow> nat option" where
  "str_find [] p = (if p = [] then Some 0 else None)"
| "str_find (x # xs) p = (if prefix p (x # xs) then Some 0 else map_option Suc (str_find xs p))"

text \<open>\<open>s.find(p, pos)\<close>, \<open>s.rfind(c)\<close>, \<open>s.find(p) != npos\<close>.\<close>

definition str_find_from :: "string \<Rightarrow> string \<Rightarrow> nat \<Rightarrow> nat option" where
  "str_find_from s p i = (if i \<le> length s then map_option ((+) i) (str_find (drop i s) p) else None)"

definition str_rfind_char :: "string \<Rightarrow> char \<Rightarrow> nat option" where
  "str_rfind_char s c = map_option (\<lambda>i. length s - 1 - i) (str_find (rev s) [c])"

definition str_contains :: "string \<Rightarrow> string \<Rightarrow> bool" where
  "str_contains s p \<longleftrightarrow> str_find s p \<noteq> None"

definition starts_with :: "string \<Rightarrow> string \<Rightarrow> bool" where
  "starts_with s p \<longleftrightarrow> prefix p s"

definition ends_with :: "string \<Rightarrow> string \<Rightarrow> bool" where
  "ends_with s p \<longleftrightarrow> suffix p s"

definition substr :: "string \<Rightarrow> nat \<Rightarrow> nat \<Rightarrow> string" where
  "substr s i n = take n (drop i s)"

definition str_erase :: "string \<Rightarrow> nat \<Rightarrow> nat \<Rightarrow> string" where
  "str_erase s i n = take i s @ drop (i + n) s"

definition str_insert :: "string \<Rightarrow> nat \<Rightarrow> string \<Rightarrow> string" where
  "str_insert s i t = take i s @ t @ drop i s"

lemma str_find_Some_prefix: "str_find s p = Some i \<Longrightarrow> prefix p (drop i s) \<and> i + length p \<le> length s"
  by (induction s p arbitrary: i rule: str_find.induct)
    (auto split: if_splits dest: prefix_length_le)

lemma str_find_None_iff [cxx_simps]: "str_find s p = None \<longleftrightarrow> \<not> sublist p s"
  by (induction s p rule: str_find.induct) (auto simp: sublist_Cons_right)

lemma str_contains_iff [cxx_simps]: "str_contains s p \<longleftrightarrow> sublist p s"
  by (simp add: str_contains_def str_find_None_iff)

lemma str_find_Some_split:
  assumes "str_find s p = Some i"
  shows "s = take i s @ p @ drop (i + length p) s"
proof -
  from str_find_Some_prefix [OF assms] obtain r where r: "drop i s = p @ r"
    by (auto elim: prefixE)
  then have "r = drop (i + length p) s"
    by (metis append_eq_conv_conj drop_drop add.commute)
  with r show ?thesis by (metis append_take_drop_id)
qed

lemma str_find_char_None: "str_find s [c] = None \<longleftrightarrow> c \<notin> set s"
  by (induction s) auto

lemma str_find_char_first:
  "c \<notin> set xs \<Longrightarrow> str_find (xs @ c # ys) [c] = Some (length xs)"
  by (induction xs) auto

lemma str_find_char_Some:
  "str_find s [c] = Some i \<longleftrightarrow> i < length s \<and> s ! i = c \<and> c \<notin> set (take i s)"
proof (induction s arbitrary: i)
  case (Cons a s)
  show ?case by (cases i) (auto simp: Cons.IH)
qed simp

section \<open>Lines and words\<close>

text \<open>The lines that successive calls of \<open>std::getline\<close> read from a stream over \<open>s\<close>.\<close>

fun getlines :: "string \<Rightarrow> string list" where
  "getlines [] = []"
| "getlines (c # cs) =
     (if c = LF then [] # getlines cs
      else (case getlines cs of
              [] \<Rightarrow> [[c]]
            | l # ls \<Rightarrow> (c # l) # ls))"

text \<open>The words that successive extractions \<open>>>\<close> into a \<open>std::string\<close> read.\<close>

function words_of :: "string \<Rightarrow> string list" where
  "words_of s =
     (let t = dropWhile isspace s
      in if t = [] then []
         else takeWhile (\<lambda>c. \<not> isspace c) t # words_of (dropWhile (\<lambda>c. \<not> isspace c) t))"
  by pat_completeness auto

termination
proof (relation "measure length", simp)
  fix s t :: string
  assume t: "t = dropWhile isspace s" and ne: "t \<noteq> []"
  then have "\<not> isspace (hd t)" by (simp add: hd_dropWhile)
  with ne have "length (dropWhile (\<lambda>c. \<not> isspace c) t) < length t"
    by (cases t) (auto simp: length_dropWhile_le le_imp_less_Suc)
  also have "length t \<le> length s" by (simp add: t length_dropWhile_le)
  finally show "(dropWhile (\<lambda>c. \<not> isspace c) t, s) \<in> measure length" by simp
qed

declare words_of.simps [simp del]

lemma getlines_line: "LF \<notin> set l \<Longrightarrow> getlines (l @ LF # s) = l # getlines s"
  by (induction l) auto

lemma getlines_last: "LF \<notin> set l \<Longrightarrow> getlines l = (if l = [] then [] else [l])"
  by (induction l) auto

lemma getlines_no_LF: "l \<in> set (getlines s) \<Longrightarrow> LF \<notin> set l"
  by (induction s arbitrary: l) (auto split: if_splits list.splits)

lemma words_of_skip: "list_all isspace w \<Longrightarrow> words_of (w @ s) = words_of s"
  by (subst (1 2) words_of.simps) (simp add: dropWhile_append list_all_iff)

lemma words_of_Nil [simp]: "words_of [] = []"
  by (subst words_of.simps) simp

lemma words_of_word:
  assumes "w \<noteq> []" "\<forall>c \<in> set w. \<not> isspace c" "s = [] \<or> isspace (hd s)"
  shows "words_of (w @ s) = w # words_of s"
proof -
  from assms(1,2) have d: "dropWhile isspace (w @ s) = w @ s"
    by (cases w) auto
  from assms(2,3) have t: "takeWhile (\<lambda>c. \<not> isspace c) (w @ s) = w"
    by (cases s) (auto simp: takeWhile_append)
  from assms(2,3) have r: "dropWhile (\<lambda>c. \<not> isspace c) (w @ s) = s"
    by (cases s) (auto simp: dropWhile_append)
  from assms(1) show ?thesis
    by (subst words_of.simps) (simp add: d t r)
qed

section \<open>Numbers\<close>

text \<open>\<open>std::to_string\<close> on unsigned and signed values.\<close>

fun nat_to_string :: "nat \<Rightarrow> string" where
  "nat_to_string n =
     (if n < 10 then [to_byte (48 + n)] else nat_to_string (n div 10) @ [to_byte (48 + n mod 10)])"

declare nat_to_string.simps [simp del]

definition int_to_string :: "int \<Rightarrow> string" where
  "int_to_string i = (if i < 0 then CHR ''-'' # nat_to_string (nat (- i)) else nat_to_string (nat i))"

definition dec_value :: "string \<Rightarrow> nat" where
  "dec_value ds = foldl (\<lambda>a c. 10 * a + (byte_of c - 48)) 0 ds"

text \<open>
  \<open>std::stoi\<close>: leading white space, an optional sign, then at least one digit; what follows the
  digits is ignored. It throws \<open>invalid_argument\<close> without a digit and \<open>out_of_range\<close> when the
  value does not fit an \<open>int\<close>.
\<close>

datatype cxx_exception = Invalid_argument | Out_of_range

definition stoi :: "string \<Rightarrow> cxx_exception + int" where
  "stoi s =
     (let t = dropWhile isspace s;
          neg = (t \<noteq> [] \<and> hd t = CHR ''-'');
          u = (if t \<noteq> [] \<and> (hd t = CHR ''-'' \<or> hd t = CHR ''+'') then tl t else t);
          ds = takeWhile isdigit u;
          v = (if neg then - int (dec_value ds) else int (dec_value ds))
      in if ds = [] then Inl Invalid_argument
         else if v < - (2 ^ 31) \<or> 2 ^ 31 \<le> v then Inl Out_of_range
         else Inr v)"

lemma nat_to_string_ne [simp]: "nat_to_string n \<noteq> []"
  by (subst nat_to_string.simps) simp

lemma nat_to_string_digits: "\<forall>c \<in> set (nat_to_string n). isdigit c"
proof (induction n rule: nat_to_string.induct)
  case (1 n)
  have "n mod 10 < 10" by simp
  then have "48 + n mod 10 < 256" by linarith
  with 1 show ?case
    by (subst nat_to_string.simps) (auto simp: isdigit_def)
qed

lemma dec_value_snoc: "dec_value (ds @ [c]) = 10 * dec_value ds + (byte_of c - 48)"
  by (simp add: dec_value_def)

lemma dec_value_to_string: "dec_value (nat_to_string n) = n"
proof (induction n rule: nat_to_string.induct)
  case (1 n)
  show ?case
  proof (cases "n < 10")
    case True
    then show ?thesis by (subst nat_to_string.simps) (simp add: dec_value_def)
  next
    case False
    have "n mod 10 < 10" by simp
    then have "(48 + n mod 10) mod 256 = 48 + n mod 10" by simp
    with 1 False show ?thesis
      by (subst nat_to_string.simps) (simp add: dec_value_snoc)
  qed
qed

lemma stoi_to_string [cxx_simps]:
  assumes "n < 2 ^ 31"
  shows "stoi (nat_to_string n) = Inr (int n)"
proof -
  from nat_to_string_ne [of n] obtain c cs where s: "nat_to_string n = c # cs"
    by (cases "nat_to_string n") auto
  with nat_to_string_digits [of n] have c: "isdigit c" by simp
  then have "\<not> isspace c" "c \<noteq> CHR ''-''" "c \<noteq> CHR ''+''"
    by (auto simp: isdigit_def isspace_def byte_of_def)
  moreover have "takeWhile isdigit (nat_to_string n) = nat_to_string n"
    by (simp add: takeWhile_eq_all_conv nat_to_string_digits)
  ultimately show ?thesis
    using assms dec_value_to_string [of n] s by (simp add: stoi_def Let_def)
qed

end
