(* ===== verification/Encoding.thy ===== *)
theory Encoding
  imports Prelude
begin

text \<open>
  The text transformations of \<open>src/src/util/Encoding.cpp\<close>: Base64 with its 32-bit accumulator,
  percent encoding and hexadecimal, each as the loop of the source. Each encoder is shown to be
  inverted by its decoder; Base64 is moreover shown equal to a block-wise reference encoder.
\<close>

unbundle bit_operations_syntax

section \<open>Base64\<close>

definition kB64Chars :: string where
  "kB64Chars = ''ABCDEFGHIJKLMNOPQRSTUVWXYZabcdefghijklmnopqrstuvwxyz0123456789+/''"

text \<open>The inner loop \<open>while (bits >= 0)\<close>, and the outer loop over the input.\<close>

function b64_flush :: "32 word \<Rightarrow> int \<Rightarrow> string \<Rightarrow> int \<times> string" where
  "b64_flush val bits out =
     (if bits \<ge> 0
      then b64_flush val (bits - 6) (out @ [kB64Chars ! unat (drop_bit (nat bits) val AND 0x3F)])
      else (bits, out))"
  by pat_completeness auto

termination
  by (relation "measure (\<lambda>(val, bits, out). nat (bits + 1))") auto

declare b64_flush.simps [simp del]

fun b64_loop :: "32 word \<Rightarrow> int \<Rightarrow> string \<Rightarrow> string \<Rightarrow> 32 word \<times> int \<times> string" where
  "b64_loop val bits out [] = (val, bits, out)"
| "b64_loop val bits out (c # cs) =
     (let val' = push_bit 8 val + word_of_nat (byte_of c);
          (bits', out') = b64_flush val' (bits + 8) out
      in b64_loop val' bits' out' cs)"

text \<open>\<open>while (out.size() % 4) out += '='\<close>.\<close>

function b64_pad :: "string \<Rightarrow> string" where
  "b64_pad out = (if length out mod 4 \<noteq> 0 then b64_pad (out @ ''='') else out)"
  by pat_completeness auto

termination
proof (relation "measure (\<lambda>out. (4 - length out mod 4) mod 4)", simp)
  fix out :: string
  assume "length out mod 4 \<noteq> 0"
  then show "(out @ ''='', out) \<in> measure (\<lambda>out. (4 - length out mod 4) mod 4)"
    by (simp add: mod_Suc) presburger
qed

declare b64_pad.simps [simp del]

definition base64Encode :: "string \<Rightarrow> string" where
  "base64Encode input =
     (let (val, bits, out) = b64_loop 0 (-6) [] input;
          out' = (if bits > -6
                  then out @ [kB64Chars ! unat (drop_bit (nat (bits + 8)) (push_bit 8 val) AND 0x3F)]
                  else out)
      in b64_pad out')"

text \<open>The decoding table: -1 everywhere, then the index of each alphabet character.\<close>

definition b64_table :: "char \<Rightarrow> int" where
  "b64_table = fold (\<lambda>i T. T(kB64Chars ! i := int i)) [0..<64] (\<lambda>_. -1)"

fun b64d_loop :: "32 word \<Rightarrow> int \<Rightarrow> string \<Rightarrow> string \<Rightarrow> string" where
  "b64d_loop val bits out [] = out"
| "b64d_loop val bits out (c # cs) =
     (if b64_table c = -1 then out
      else let val' = push_bit 6 val + word_of_int (b64_table c); bits' = bits + 6
           in if bits' \<ge> 0
              then b64d_loop val' (bits' - 8)
                     (out @ [to_byte (unat (drop_bit (nat bits') val' AND 0xFF))]) cs
              else b64d_loop val' bits' out cs)"

definition base64Decode :: "string \<Rightarrow> string" where
  "base64Decode input = b64d_loop 0 (-8) [] input"

section \<open>Percent encoding and hexadecimal\<close>

text \<open>\<open>snprintf\<close> with \<open>%02X\<close> and \<open>%02x\<close> of a byte.\<close>

definition hex_digits_upper :: string where
  "hex_digits_upper = ''0123456789ABCDEF''"

definition hex_digits_lower :: string where
  "hex_digits_lower = ''0123456789abcdef''"

definition hex2 :: "string \<Rightarrow> char \<Rightarrow> string" where
  "hex2 ds c = [ds ! (byte_of c div 16), ds ! (byte_of c mod 16)]"

definition url_unreserved :: string where
  "url_unreserved = ''ABCDEFGHIJKLMNOPQRSTUVWXYZabcdefghijklmnopqrstuvwxyz0123456789-_.~''"

fun urlEncode :: "string \<Rightarrow> string" where
  "urlEncode [] = []"
| "urlEncode (c # cs) =
     (if c \<in> set url_unreserved then c # urlEncode cs
      else CHR ''%'' # hex2 hex_digits_upper c @ urlEncode cs)"

text \<open>
  \<open>strtol(s, nullptr, 16)\<close>: white space, a sign, an optional \<open>0x\<close> before a hexadecimal digit,
  then as many hexadecimal digits as there are. The sources call it on two characters, far
  below the range of \<open>long\<close>.
\<close>

definition hex_digit_value :: "char \<Rightarrow> nat option" where
  "hex_digit_value c =
     (if isdigit c then Some (byte_of c - 48)
      else if 65 \<le> byte_of c \<and> byte_of c \<le> 70 then Some (byte_of c - 55)
      else if 97 \<le> byte_of c \<and> byte_of c \<le> 102 then Some (byte_of c - 87)
      else None)"

fun hex_value :: "nat \<Rightarrow> string \<Rightarrow> nat" where
  "hex_value acc [] = acc"
| "hex_value acc (c # cs) =
     (case hex_digit_value c of None \<Rightarrow> acc | Some d \<Rightarrow> hex_value (16 * acc + d) cs)"

definition strtol16 :: "string \<Rightarrow> int" where
  "strtol16 s =
     (let t = dropWhile isspace s;
          neg = (t \<noteq> [] \<and> hd t = CHR ''-'');
          u = (if t \<noteq> [] \<and> (hd t = CHR ''-'' \<or> hd t = CHR ''+'') then tl t else t);
          w = (if 2 < length u \<and> hd u = CHR ''0'' \<and> (u ! 1 = CHR ''x'' \<or> u ! 1 = CHR ''X'')
                  \<and> hex_digit_value (u ! 2) \<noteq> None
               then drop 2 u else u);
          v = int (hex_value 0 w)
      in if neg then - v else v)"

definition hex_pair :: "char \<Rightarrow> char \<Rightarrow> char" where
  "hex_pair a b = to_byte (nat (strtol16 (takeWhile (\<lambda>c. byte_of c \<noteq> 0) [a, b]) mod 256))"

fun urlDecode :: "string \<Rightarrow> string" where
  "urlDecode [] = []"
| "urlDecode (c # cs) =
     (if c = CHR ''%''
      then (case cs of
              a # b # r \<Rightarrow> hex_pair a b # urlDecode r
            | _ \<Rightarrow> c # urlDecode cs)
      else if c = CHR ''+'' then CHR '' '' # urlDecode cs
      else c # urlDecode cs)"

fun hexEncode :: "string \<Rightarrow> string" where
  "hexEncode [] = []"
| "hexEncode (c # cs) = hex2 hex_digits_lower c @ hexEncode cs"

fun hexDecode :: "string \<Rightarrow> string" where
  "hexDecode (a # b # cs) = hex_pair a b # hexDecode cs"
| "hexDecode _ = []"

section \<open>A reference encoder\<close>

text \<open>RFC 4648 Base64, three bytes at a time, with the alphabet of the source.\<close>

fun b64_reference :: "string \<Rightarrow> string" where
  "b64_reference [] = []"
| "b64_reference [a] =
     [kB64Chars ! (byte_of a div 4), kB64Chars ! (byte_of a mod 4 * 16), CHR ''='', CHR ''='']"
| "b64_reference [a, b] =
     [kB64Chars ! (byte_of a div 4), kB64Chars ! (byte_of a mod 4 * 16 + byte_of b div 16),
      kB64Chars ! (byte_of b mod 16 * 4), CHR ''='']"
| "b64_reference (a # b # c # cs) =
     [kB64Chars ! (byte_of a div 4), kB64Chars ! (byte_of a mod 4 * 16 + byte_of b div 16),
      kB64Chars ! (byte_of b mod 16 * 4 + byte_of c div 64), kB64Chars ! (byte_of c mod 64)]
     @ b64_reference cs"

section \<open>Words as bit strings\<close>

lemma unat_low_bits: "unat (take_bit m (drop_bit k (v::32 word))) = unat v div 2 ^ k mod 2 ^ m"
  by (simp only: unat_drop_bit_eq unsigned_take_bit_eq) (simp only: drop_bit_eq_div take_bit_eq_mod)
lemma and_sextet: "(w::32 word) AND 0x3F = take_bit 6 w"
  by (simp add: take_bit_eq_mask mask_eq_exp_minus_1)
lemma and_octet: "(w::32 word) AND 0xFF = take_bit 8 w"
  by (simp add: take_bit_eq_mask mask_eq_exp_minus_1)
lemma unat_shift_in: "unat (push_bit k (v::32 word) + word_of_nat n) = (unat v * 2 ^ k + n) mod 2 ^ 32"
proof -
  have "unat (2 ^ k :: 32 word) = 2 ^ k mod 2 ^ 32"
    using unat_of_nat [of "2 ^ k", where 'a = 32] by simp
  then show ?thesis by (simp add: push_bit_eq_mult unat_word_ariths unat_of_nat mod_simps)
qed
lemma mod32_bits:
  assumes "k + m \<le> 32"
  shows "(n::nat) mod 2 ^ 32 div 2 ^ k mod 2 ^ m = n div 2 ^ k mod 2 ^ m"
proof -
  from assms have "(2::nat) ^ (k + m) dvd 2 ^ 32" by (rule le_imp_power_dvd)
  then show ?thesis by (simp only: div_exp_mod_exp_eq mod_mod_cancel)
qed
lemma b64_table_index: "i < 64 \<Longrightarrow> b64_table (kB64Chars ! i) = int i"
proof -
  have "\<forall>i \<in> set [0..<64]. b64_table (kB64Chars ! i) = int i" by code_simp
  then show "i < 64 \<Longrightarrow> ?thesis" by simp
qed
lemma b64_table_pad: "b64_table CHR ''='' = -1" by code_simp

section \<open>Base64: the encoder against the reference\<close>

text \<open>
  The sextet that the encoder reads at bit position \<open>k\<close>. The accumulator overflows after four
  bytes; the lemmas show that no sextet sees the bits that are lost.
\<close>

definition b64_sextet :: "32 word \<Rightarrow> nat \<Rightarrow> nat" where
  "b64_sextet v k = unat v div 2 ^ k mod 64"

lemma b64_emit: "kB64Chars ! unat (drop_bit k v AND 0x3F) = kB64Chars ! b64_sextet v k"
  by (simp add: and_sextet unat_low_bits b64_sextet_def)

lemma b64_flush_step:
  "0 \<le> bits \<Longrightarrow> bits < 6 \<Longrightarrow> b64_flush v bits out = (bits - 6, out @ [kB64Chars ! b64_sextet v (nat bits)])"
  "6 \<le> bits \<Longrightarrow> bits < 12 \<Longrightarrow> b64_flush v bits out =
     (bits - 12, out @ [kB64Chars ! b64_sextet v (nat bits), kB64Chars ! b64_sextet v (nat (bits - 6))])"
  by (simp_all add: b64_flush.simps [of v bits] b64_flush.simps [of v "bits - 6"]
       b64_flush.simps [of v "bits - 12"] b64_emit)



lemma sextet_shift_in:
  assumes "k \<le> 26" "j < 32"
  shows "b64_sextet (push_bit j v + word_of_nat n) k = (unat v * 2 ^ j + n) div 2 ^ k mod 64"
  using mod32_bits [of k 6 "unat v * 2 ^ j + n"] assms
  by (simp add: b64_sextet_def unat_shift_in)


lemma bit_window: "(x + v * 2 ^ (k + m)) div 2 ^ k mod 2 ^ m = (x::nat) div 2 ^ k mod 2 ^ m"
  by (simp only: div_exp_mod_exp_eq) simp


lemma join_mod: "s < c \<Longrightarrow> (r * c + s) mod (c * d) = r mod d * c + (s::nat)"
  by (cases "c = 0") (simp_all add: mod_mult2_eq mult.commute)

lemma split_div: "0 < c \<Longrightarrow> (r * (c * d) + s) div c = r * d + (s::nat) div c"
  using div_mult_self1 [of c s "r * d"] by (simp add: ac_simps)

abbreviation b64_in :: "32 word \<Rightarrow> nat \<Rightarrow> 32 word" where
  "b64_in v n \<equiv> push_bit 8 v + word_of_nat n"

lemma unat_b64_in: "unat (b64_in v n) = (unat v * 256 + n) mod 2 ^ 32"
  using unat_shift_in [of 8 v n] by simp

lemma b64_in_low: "unat (b64_in v n) mod 4 = n mod 4" "unat (b64_in v n) mod 16 = n mod 16"
proof -
  have "unat (b64_in v n) mod 4 = (unat v * 256 + n) mod 4"
    unfolding unat_b64_in by (rule mod_mod_cancel) simp
  also have "\<dots> = n mod 4" using mod_mult_self1 [of n "unat v * 64" 4] by (simp add: ac_simps)
  finally show "unat (b64_in v n) mod 4 = n mod 4" .
  have "unat (b64_in v n) mod 16 = (unat v * 256 + n) mod 16"
    unfolding unat_b64_in by (rule mod_mod_cancel) simp
  also have "\<dots> = n mod 16" using mod_mult_self1 [of n "unat v * 16" 16] by (simp add: ac_simps)
  finally show "unat (b64_in v n) mod 16 = n mod 16" .
qed

lemma b64_sextet_in: "k \<le> 26 \<Longrightarrow> b64_sextet (b64_in v n) k = (unat v * 256 + n) div 2 ^ k mod 64"
  using mod32_bits [of k 6 "unat v * 256 + n"] by (simp only: b64_sextet_def unat_b64_in) simp

lemma b64_sextets:
  assumes "n < 256"
  shows "b64_sextet (b64_in v n) 2 = n div 4"
    "b64_sextet (b64_in v n) 4 = unat v mod 4 * 16 + n div 16"
    "b64_sextet (b64_in v n) 6 = unat v mod 16 * 4 + n div 64"
    "b64_sextet (b64_in v n) 0 = n mod 64"
proof -
  have 2: "(unat v * 256 + n) div 4 mod 64 = n div 4 mod 64"
    using bit_window [of n "unat v" 2 6] by (simp add: add.commute)
  have 0: "(unat v * 256 + n) mod 64 = n mod 64"
    using bit_window [of n "unat v * 4" 0 6] by (simp add: add.commute mult.commute)
  show "b64_sextet (b64_in v n) 2 = n div 4" "b64_sextet (b64_in v n) 0 = n mod 64"
    using assms 2 0 by (simp_all add: b64_sextet_in)
  show "b64_sextet (b64_in v n) 4 = unat v mod 4 * 16 + n div 16"
    using assms split_div [of 16 "unat v" 16 n] join_mod [of "n div 16" 16 "unat v" 4]
    by (simp add: b64_sextet_in)
  show "b64_sextet (b64_in v n) 6 = unat v mod 16 * 4 + n div 64"
    using assms split_div [of 64 "unat v" 4 n] join_mod [of "n div 64" 4 "unat v" 16]
    by (simp add: b64_sextet_in)
qed



lemma b64_loop_group:
  "b64_loop v (-6) out (a # b # c # cs) =
     b64_loop (b64_in (b64_in (b64_in v (byte_of a)) (byte_of b)) (byte_of c)) (-6)
       (out @ b64_reference [a, b, c]) cs"
  by (simp add: Let_def b64_flush_step b64_sextets b64_in_low)

lemma b64_pad_done: "length out mod 4 = 0 \<Longrightarrow> b64_pad out = out"
  by (simp add: b64_pad.simps [of out])

lemma b64_pad_rest:
  assumes "length out mod 4 = 0"
  shows "b64_pad (out @ [w, x]) = out @ [w, x, CHR ''='', CHR ''='']"
    "b64_pad (out @ [w, x, y]) = out @ [w, x, y, CHR ''='']"
  using assms by (simp_all add: b64_pad.simps [of "out @ [w, x]"]
      b64_pad.simps [of "out @ [w, x, y]" for y] b64_pad_done mod_Suc)

lemma base64_loop_reference:
  "length out mod 4 = 0 \<Longrightarrow>
   (case b64_loop v (-6) out s of (val, bits, out') \<Rightarrow>
      b64_pad (if bits > -6
        then out' @ [kB64Chars ! unat (drop_bit (nat (bits + 8)) (push_bit 8 val) AND 0x3F)]
        else out')) = out @ b64_reference s"
proof (induction s arbitrary: v out rule: b64_reference.induct)
  case 1
  then show ?case by (simp add: b64_pad_done)
next
  case (2 a)
  then show ?case
    using b64_sextets(2) [of 0 "b64_in v (byte_of a)"]
    by (simp add: Let_def b64_flush_step b64_sextets b64_in_low b64_emit b64_pad_rest)
next
  case (3 a b)
  then show ?case
    using b64_sextets(3) [of 0 "b64_in (b64_in v (byte_of a)) (byte_of b)"]
    by (simp add: Let_def b64_flush_step b64_sextets b64_in_low b64_emit b64_pad_rest)
next
  case (4 a b c cs)
  then show ?case
    by (simp del: b64_loop.simps add: b64_loop_group)
qed

lemma base64Encode_reference: "base64Encode s = b64_reference s"
  using base64_loop_reference [of "[]" 0 s] by (simp add: base64Encode_def split: prod.splits)

section \<open>Base64: the decoder inverts the encoder\<close>

abbreviation b64_in6 :: "32 word \<Rightarrow> nat \<Rightarrow> 32 word" where
  "b64_in6 v n \<equiv> push_bit 6 v + word_of_nat n"

lemma unat_b64_in6: "unat (b64_in6 v n) = (unat v * 64 + n) mod 2 ^ 32"
  using unat_shift_in [of 6 v n] by simp

lemma b64_in6_low:
  "unat (b64_in6 v n) mod 64 = n mod 64" "unat (b64_in6 v n) mod 16 = n mod 16"
  "unat (b64_in6 v n) mod 4 = n mod 4"
proof -
  have *: "unat (b64_in6 v n) mod m = n mod m" if "m dvd 64" for m
  proof -
    from that have "m dvd (2::nat) ^ 32" using dvd_trans [of m 64 "2 ^ 32"] by simp
    then have "unat (b64_in6 v n) mod m = (unat v * 64 + n) mod m"
      unfolding unat_b64_in6 by (rule mod_mod_cancel)
    also have "\<dots> = n mod m" using that by (simp add: mod_add_left_eq dvd_mult mod_add_eq [symmetric])
    finally show ?thesis .
  qed
  show "unat (b64_in6 v n) mod 64 = n mod 64" "unat (b64_in6 v n) mod 16 = n mod 16"
    "unat (b64_in6 v n) mod 4 = n mod 4" by (simp_all add: *)
qed

definition b64_octet :: "32 word \<Rightarrow> nat \<Rightarrow> nat" where
  "b64_octet v k = unat v div 2 ^ k mod 256"

lemma b64_octet_char: "to_byte (unat (drop_bit k v AND 0xFF)) = to_byte (b64_octet v k)"
  by (simp add: and_octet unat_low_bits b64_octet_def)

lemma b64_octet_in6: "k \<le> 24 \<Longrightarrow> b64_octet (b64_in6 v n) k = (unat v * 64 + n) div 2 ^ k mod 256"
  using mod32_bits [of k 8 "unat v * 64 + n"] by (simp only: b64_octet_def unat_b64_in6) simp

lemma b64_octets:
  assumes "n < 64"
  shows "b64_octet (b64_in6 v n) 4 = unat v mod 64 * 4 + n div 16"
    "b64_octet (b64_in6 v n) 2 = unat v mod 16 * 16 + n div 4"
    "b64_octet (b64_in6 v n) 0 = unat v mod 4 * 64 + n"
  using assms split_div [of 16 "unat v" 4 n] join_mod [of "n div 16" 4 "unat v" 64]
    split_div [of 4 "unat v" 16 n] join_mod [of "n div 4" 16 "unat v" 16]
    join_mod [of n 64 "unat v" 4]
  by (simp_all add: b64_octet_in6)

lemma b64d_step:
  "i < 64 \<Longrightarrow> b64d_loop v bits out (kB64Chars ! i # cs) =
     (if bits + 6 \<ge> 0
      then b64d_loop (b64_in6 v i) (bits - 2) (out @ [to_byte (b64_octet (b64_in6 v i) (nat (bits + 6)))]) cs
      else b64d_loop (b64_in6 v i) (bits + 6) out cs)"
  by (simp add: b64_table_index Let_def b64_octet_char)

lemma b64_group_arith:
  assumes "a < 256" "b < 256" "c < (256::nat)"
  shows "a div 4 < 64" "a mod 4 * 16 + b div 16 < 64" "b mod 16 * 4 + c div 64 < 64"
    "(a mod 4 * 16 + b div 16) div 16 = a mod 4" "(a mod 4 * 16 + b div 16) mod 16 = b div 16"
    "(b mod 16 * 4 + c div 64) div 4 = b mod 16" "(b mod 16 * 4 + c div 64) mod 4 = c div 64"
proof -
  have "a mod 4 < 4" "b mod 16 < 16" "b div 16 < 16" "c div 64 < 4" using assms by auto
  then show "a div 4 < 64" "a mod 4 * 16 + b div 16 < 64" "b mod 16 * 4 + c div 64 < 64"
    "(a mod 4 * 16 + b div 16) div 16 = a mod 4" "(a mod 4 * 16 + b div 16) mod 16 = b div 16"
    "(b mod 16 * 4 + c div 64) div 4 = b mod 16" "(b mod 16 * 4 + c div 64) mod 4 = c div 64"
    using assms by auto
qed

lemma byte_of_nibbles: "byte_of c div 16 < 16" "byte_of c mod 16 < 16"
  by (simp_all add: less_mult_imp_div_less)

lemma b64d_reference: "b64d_loop v (-8) out (b64_reference s) = out @ s"
proof (induction s arbitrary: v out rule: b64_reference.induct)
  case 1
  then show ?case by simp
next
  case (2 a)
  show ?case
    using b64_group_arith [of "byte_of a" 0 0]
    by (simp del: b64d_loop.simps(2) of_nat_mult of_nat_add add: b64d_step b64_octets b64_in6_low b64d_loop.simps(2) [of _ _ _ "CHR ''=''"] b64_table_pad)
next
  case (3 a b)
  show ?case
    using b64_group_arith [of "byte_of a" "byte_of b" 0]
    by (simp del: b64d_loop.simps(2) of_nat_mult of_nat_add add: b64d_step b64_octets b64_in6_low b64d_loop.simps(2) [of _ _ _ "CHR ''=''"] b64_table_pad)
next
  case (4 a b c cs)
  then show ?case
    using b64_group_arith [of "byte_of a" "byte_of b" "byte_of c"] mod_less [OF byte_of_nibbles(1) [of b]]
      div_less [OF byte_of_nibbles(1) [of b]]
    by (simp del: b64d_loop.simps of_nat_mult of_nat_add add: b64d_step b64_octets b64_in6_low)
qed

lemma base64_decode_encode: "base64Decode (base64Encode s) = s"
  by (simp add: base64Decode_def base64Encode_reference b64d_reference)

section \<open>Percent encoding and hexadecimal are inverted\<close>

lemma hex_digit_value_upper: "n < 16 \<Longrightarrow> hex_digit_value (hex_digits_upper ! n) = Some n"
proof -
  have "\<forall>n \<in> set [0..<16]. hex_digit_value (hex_digits_upper ! n) = Some n" by code_simp
  then show "n < 16 \<Longrightarrow> ?thesis" by simp
qed
lemma hex_digit_value_lower: "n < 16 \<Longrightarrow> hex_digit_value (hex_digits_lower ! n) = Some n"
proof -
  have "\<forall>n \<in> set [0..<16]. hex_digit_value (hex_digits_lower ! n) = Some n" by code_simp
  then show "n < 16 \<Longrightarrow> ?thesis" by simp
qed

lemma hex_digit_plain:
  assumes "hex_digit_value c = Some n"
  shows "\<not> isspace c" "c \<noteq> CHR ''-''" "c \<noteq> CHR ''+''" "byte_of c \<noteq> 0" "n < 16"
  using assms by (auto simp: hex_digit_value_def isspace_def isdigit_def byte_of_def split: if_splits)

lemma hex_pair_digits:
  assumes "hex_digit_value a = Some m" "hex_digit_value b = Some n"
  shows "hex_pair a b = to_byte (16 * m + n)"
proof -
  note a = hex_digit_plain [OF assms(1)] and b = hex_digit_plain [OF assms(2)]
  have v: "strtol16 [a, b] = int (16 * m + n)"
    using assms a b by (simp add: strtol16_def Let_def)
  have "16 * m + n < 256" using a(5) b(5) by simp
  then have "nat (int (16 * m + n) mod 256) = 16 * m + n" by (simp add: nat_mod_distrib)
  then show ?thesis using a(4) b(4) unfolding hex_pair_def v [symmetric] by simp
qed

lemma hex2_pair:
  "hex_pair (hex2 hex_digits_upper c ! 0) (hex2 hex_digits_upper c ! 1) = c"
  "hex_pair (hex2 hex_digits_lower c ! 0) (hex2 hex_digits_lower c ! 1) = c"
proof -
  note d = byte_of_nibbles [of c]
  have j: "16 * (byte_of c div 16) + byte_of c mod 16 = byte_of c" by simp
  show "hex_pair (hex2 hex_digits_upper c ! 0) (hex2 hex_digits_upper c ! 1) = c"
    using hex_pair_digits [OF hex_digit_value_upper [OF d(1)] hex_digit_value_upper [OF d(2)]]
    unfolding j by (simp add: hex2_def)
  show "hex_pair (hex2 hex_digits_lower c ! 0) (hex2 hex_digits_lower c ! 1) = c"
    using hex_pair_digits [OF hex_digit_value_lower [OF d(1)] hex_digit_value_lower [OF d(2)]]
    unfolding j by (simp add: hex2_def)
qed

lemma url_unreserved_plain: "c \<in> set url_unreserved \<Longrightarrow> c \<noteq> CHR ''%'' \<and> c \<noteq> CHR ''+''"
  by (auto simp: url_unreserved_def)

lemma url_decode_encode: "urlDecode (urlEncode s) = s"
proof (induction s)
  case (Cons c cs)
  then show ?case
    using hex2_pair [of c] by (auto simp: hex2_def dest: url_unreserved_plain)
qed simp

lemma hex_decode_encode: "hexDecode (hexEncode s) = s"
proof (induction s)
  case (Cons c cs)
  then show ?case using hex2_pair [of c] by (simp add: hex2_def)
qed simp

lemma length_base64: "length (base64Encode s) = (length s + 2) div 3 * 4"
proof -
  have "length (b64_reference s) = (length s + 2) div 3 * 4"
    by (induction s rule: b64_reference.induct) (simp_all add: le_div_geq)
  then show ?thesis by (simp add: base64Encode_reference)
qed

lemma urlEncode_alphabet: "set (urlEncode s) \<subseteq> set url_unreserved \<union> {CHR ''%''}"
proof -
  have *: "set hex_digits_upper \<subseteq> set url_unreserved" by (simp add: hex_digits_upper_def url_unreserved_def)
  have "set (hex2 hex_digits_upper c) \<subseteq> set url_unreserved" for c
  proof -
    note byte_of_nibbles [of c]
    moreover have "length hex_digits_upper = 16" by (simp add: hex_digits_upper_def)
    ultimately show ?thesis using * by (auto simp: hex2_def)
  qed
  then show ?thesis by (induction s) auto
qed

lemma length_hexEncode: "length (hexEncode s) = 2 * length s"
  by (induction s) (simp_all add: hex2_def)

section \<open>The codec interface\<close>

text \<open>
  What the decoder tab relies on: a transformation and its inverse. Any such encoder is injective,
  so two inputs that encode alike are the same, and encoding twice is undone by decoding twice.
\<close>

locale codec =
  fixes encode decode :: "string \<Rightarrow> string"
  assumes decode_encode: "decode (encode s) = s"
begin

lemma encode_inject: "encode s = encode t \<longleftrightarrow> s = t"
  by (metis decode_encode)

lemma decode_encode_power: "(decode ^^ n) ((encode ^^ n) s) = s"
proof (induction n arbitrary: s)
  case (Suc n)
  have "(decode ^^ Suc n) ((encode ^^ Suc n) s) = (decode ^^ n) (decode (encode ((encode ^^ n) s)))"
    by (simp add: funpow_swap1)
  then show ?case by (simp only: decode_encode Suc.IH)
qed simp

end

interpretation b64: codec base64Encode base64Decode
  by unfold_locales (rule base64_decode_encode)

interpretation url: codec urlEncode urlDecode
  by unfold_locales (rule url_decode_encode)

interpretation hex: codec hexEncode hexDecode
  by unfold_locales (rule hex_decode_encode)

section \<open>Properties\<close>

text \<open>
  C30: The streaming Base64 encoder, with its 32-bit accumulator that overflows and its pending-bit
  counter, computes on every byte string exactly the RFC 4648 encoding, padding included, and
  its output has four characters per started group of three bytes.
\<close>
theorem base64_encode_is_reference:
  "base64Encode s = b64_reference s \<and> length (base64Encode s) = (length s + 2) div 3 * 4"
  using base64Encode_reference length_base64 by simp

text \<open>
  Base64 round trip: decoding the encoding of any byte string gives it back, although both
  directions run on accumulators that wrap around, and no two inputs share an encoding.
\<close>
theorem base64_round_trip:
  "base64Decode (base64Encode s) = s \<and> (base64Encode s = base64Encode t \<longleftrightarrow> s = t)"
  using b64.decode_encode b64.encode_inject by simp

text \<open>
  Percent encoding round trip: every byte string is recovered, and the encoded form uses
  unreserved characters and the percent sign only.
\<close>
theorem url_round_trip:
  "urlDecode (urlEncode s) = s \<and> set (urlEncode s) \<subseteq> set url_unreserved \<union> {CHR ''%''}"
  using url.decode_encode urlEncode_alphabet by simp

text \<open>
  Hexadecimal round trip: every byte string is recovered from its encoding, which has two
  characters per byte.
\<close>
theorem hex_round_trip: "hexDecode (hexEncode s) = s \<and> length (hexEncode s) = 2 * length s"
  using hex.decode_encode length_hexEncode by simp

end
