(* ===== verification/HttpMessage.thy ===== *)
theory HttpMessage
  imports Prelude
begin

text \<open>
  The HTTP message model of \<open>src/src/http/HttpRequest.cpp\<close>, \<open>HttpResponse.cpp\<close> and
  \<open>HttpTransaction.hpp\<close>: requests, responses and transactions as records, header lookup,
  serialisation, and \<open>ParseRawHttpRequest\<close>, which reads back the text a user edited.
\<close>

section \<open>Data\<close>

type_synonym header_list = "(string \<times> string) list"

record http_request =
  rq_method :: string
  rq_url :: string
  rq_version :: string
  rq_headers :: header_list
  rq_body :: string
  rq_rawOverride :: string

definition HttpRequest :: http_request where
  "HttpRequest = \<lparr>rq_method = [], rq_url = [], rq_version = ''HTTP/1.1'', rq_headers = [],
     rq_body = [], rq_rawOverride = []\<rparr>"

record http_response =
  rs_version :: string
  rs_statusCode :: int
  rs_statusText :: string
  rs_headers :: header_list
  rs_body :: string

definition HttpResponse :: http_response where
  "HttpResponse = \<lparr>rs_version = [], rs_statusCode = 0, rs_statusText = [], rs_headers = [],
     rs_body = []\<rparr>"

record http_transaction =
  tx_id :: int
  tx_host :: string
  tx_port :: int
  tx_is_https :: bool
  tx_request :: "http_request option"
  tx_response :: "http_response option"

definition HttpTransaction :: http_transaction where
  "HttpTransaction = \<lparr>tx_id = 0, tx_host = [], tx_port = 0, tx_is_https = False,
     tx_request = None, tx_response = None\<rparr>"

section \<open>Header lookup and serialisation\<close>

text \<open>The first header whose name matches exactly, or the empty string.\<close>

fun header_value :: "header_list \<Rightarrow> string \<Rightarrow> string" where
  "header_value [] name = []"
| "header_value ((k, v) # hs) name = (if k = name then v else header_value hs name)"

definition request_header :: "http_request \<Rightarrow> string \<Rightarrow> string" where
  "request_header r name = header_value (rq_headers r) name"

definition response_header :: "http_response \<Rightarrow> string \<Rightarrow> string" where
  "response_header r name = header_value (rs_headers r) name"

fun header_lines :: "header_list \<Rightarrow> string" where
  "header_lines [] = []"
| "header_lines ((k, v) # hs) = k @ '': '' @ v @ crlf @ header_lines hs"

definition serialize_request :: "http_request \<Rightarrow> string" where
  "serialize_request r =
     (if rq_rawOverride r \<noteq> [] then rq_rawOverride r
      else rq_method r @ '' '' @ rq_url r @ '' '' @ rq_version r @ crlf
        @ header_lines (rq_headers r) @ crlf @ rq_body r)"

definition serialize_response :: "http_response \<Rightarrow> string" where
  "serialize_response r =
     rs_version r @ '' '' @ int_to_string (rs_statusCode r) @ '' '' @ rs_statusText r @ crlf
     @ header_lines (rs_headers r) @ crlf @ rs_body r"

section \<open>Reading back edited text\<close>

text \<open>The three clean-up passes, which the repeater shares.\<close>

definition erase_note :: "string \<Rightarrow> string \<Rightarrow> string" where
  "erase_note note s = (case str_find s note of None \<Rightarrow> s | Some p \<Rightarrow> str_erase s p (length note))"

definition erase_scheme_notes :: "string \<Rightarrow> string" where
  "erase_scheme_notes s = erase_note '' (HTTP)'' (erase_note '' (HTTPS)'' s)"

fun normalize_crlf :: "string \<Rightarrow> string" where
  "normalize_crlf [] = []"
| "normalize_crlf (c # cs) =
     (if c = CR then normalize_crlf cs
      else if c = LF then crlf @ normalize_crlf cs
      else c # normalize_crlf cs)"

definition ensure_header_end :: "string \<Rightarrow> string" where
  "ensure_header_end s =
     (if str_contains s (crlf @ crlf) then s
      else if ends_with s crlf then s @ crlf
      else s @ crlf @ crlf)"

text \<open>The request line: three words, with defaults for those that are missing.\<close>

definition strip_cr :: "string \<Rightarrow> string" where
  "strip_cr l = (if l \<noteq> [] \<and> last l = CR then butlast l else l)"

definition parse_request_line :: "string \<Rightarrow> http_request \<Rightarrow> http_request" where
  "parse_request_line l r =
     (let ws = words_of (strip_cr l)
      in r\<lparr>rq_method := (if length ws > 0 then ws ! 0 else ''GET''),
           rq_url := (if length ws > 1 then ws ! 1 else ''/''),
           rq_version := (if length ws > 2 then ws ! 2 else rq_version r)\<rparr>)"

text \<open>A header line: split at the first colon, blanks before the value removed.\<close>

definition parse_header_line :: "string \<Rightarrow> (string \<times> string) option" where
  "parse_header_line l =
     (let l' = strip_cr l
      in case str_find l' '':'' of
           None \<Rightarrow> None
         | Some i \<Rightarrow> Some (substr l' 0 i,
             dropWhile (\<lambda>c. c = CHR '' '' \<or> c = TAB) (drop (i + 1) l')))"

text \<open>The loop over the remaining lines: headers until a blank line, then the body.\<close>

fun parse_lines :: "bool \<Rightarrow> header_list \<Rightarrow> string \<Rightarrow> string list \<Rightarrow> header_list \<times> string" where
  "parse_lines inBody hs b [] = (hs, b)"
| "parse_lines inBody hs b (l # ls) =
     (if \<not> inBody then
        if l = [CR] \<or> l = [] then parse_lines True hs b ls
        else (case parse_header_line l of
                None \<Rightarrow> parse_lines inBody hs b ls
              | Some h \<Rightarrow> parse_lines inBody (hs @ [h]) b ls)
      else parse_lines inBody hs (b @ l @ [LF]) ls)"

definition ParseRawHttpRequest :: "string \<Rightarrow> http_request" where
  "ParseRawHttpRequest raw =
     (let str = erase_scheme_notes raw;
          normalized = ensure_header_end (normalize_crlf str);
          ls = getlines normalized;
          r = HttpRequest\<lparr>rq_rawOverride := normalized\<rparr>;
          r1 = (case ls of [] \<Rightarrow> r | l # _ \<Rightarrow> parse_request_line l r);
          (hs, b) = parse_lines False [] [] (tl ls);
          b' = (if b \<noteq> [] \<and> \<not> ends_with str [LF] then butlast b else b)
      in r1\<lparr>rq_headers := hs, rq_body := b'\<rparr>)"

section \<open>Line ends\<close>

text \<open>Every line end is the pair CR LF.\<close>

fun crlf_ok :: "string \<Rightarrow> bool" where
  "crlf_ok [] = True"
| "crlf_ok (c # cs) =
     (if c = CR then (case cs of [] \<Rightarrow> False | d # ds \<Rightarrow> d = LF \<and> crlf_ok ds)
      else c \<noteq> LF \<and> crlf_ok cs)"

lemma normalize_crlf_append: "normalize_crlf (s @ t) = normalize_crlf s @ normalize_crlf t"
  by (induction s) auto

lemma crlf_ok_append: "crlf_ok s \<Longrightarrow> crlf_ok t \<Longrightarrow> crlf_ok (s @ t)"
  by (induction s rule: crlf_ok.induct) (auto split: list.splits)

lemma crlf_ok_normalize [simp]: "crlf_ok (normalize_crlf s)"
  by (induction s) (auto split: list.splits)

lemma normalize_crlf_id: "crlf_ok s \<Longrightarrow> normalize_crlf s = s"
  by (induction s rule: crlf_ok.induct) (auto split: list.splits if_splits)

lemma normalize_crlf_idem [simp]: "normalize_crlf (normalize_crlf s) = normalize_crlf s"
  by (simp add: normalize_crlf_id)

lemma normalize_crlf_eq_iff: "normalize_crlf s = s \<longleftrightarrow> crlf_ok s"
  using normalize_crlf_id crlf_ok_normalize by metis

lemma normalize_crlf_plain: "CR \<notin> set s \<Longrightarrow> LF \<notin> set s \<Longrightarrow> normalize_crlf s = s"
  by (induction s) auto

lemma ensure_header_end_contains: "sublist (crlf @ crlf) (ensure_header_end s)"
proof -
  have "sublist (crlf @ crlf) (s @ crlf @ crlf)"
    unfolding sublist_def by (metis append_Nil2)
  moreover have "sublist (crlf @ crlf) (s @ crlf)" if "suffix crlf s"
  proof -
    from that obtain t where "s = t @ crlf" by (auto simp: suffix_def)
    then show ?thesis unfolding sublist_def by (metis append.assoc append_Nil2)
  qed
  ultimately show ?thesis by (auto simp: ensure_header_end_def str_contains_iff ends_with_def)
qed

lemma ensure_header_end_ok: "crlf_ok s \<Longrightarrow> crlf_ok (ensure_header_end s)"
  by (auto simp: ensure_header_end_def intro!: crlf_ok_append)

section \<open>Reading a serialised request back\<close>

definition request_head :: "http_request \<Rightarrow> string" where
  "request_head r = rq_method r @ '' '' @ rq_url r @ '' '' @ rq_version r @ crlf
     @ header_lines (rq_headers r) @ crlf"

definition wf_word :: "string \<Rightarrow> bool" where
  "wf_word s \<longleftrightarrow> s \<noteq> [] \<and> (\<forall>c \<in> set s. \<not> isspace c)"

definition wf_field :: "string \<times> string \<Rightarrow> bool" where
  "wf_field h \<longleftrightarrow> CHR '':'' \<notin> set (fst h) \<and> CR \<notin> set (fst h) \<union> set (snd h)
     \<and> LF \<notin> set (fst h) \<union> set (snd h)
     \<and> (snd h = [] \<or> hd (snd h) \<noteq> CHR '' '' \<and> hd (snd h) \<noteq> TAB)"

definition wf_request :: "http_request \<Rightarrow> bool" where
  "wf_request r \<longleftrightarrow> rq_rawOverride r = [] \<and> wf_word (rq_method r) \<and> wf_word (rq_url r)
     \<and> wf_word (rq_version r) \<and> list_all wf_field (rq_headers r)
     \<and> \<not> sublist '' (HTTPS)'' (serialize_request r) \<and> \<not> sublist '' (HTTP)'' (serialize_request r)"

lemma serialize_head: "rq_rawOverride r = [] \<Longrightarrow> serialize_request r = request_head r @ rq_body r"
  by (simp add: serialize_request_def request_head_def)

lemma wf_word_plain: "wf_word s \<Longrightarrow> CR \<notin> set s \<and> LF \<notin> set s"
  by (auto simp: wf_word_def isspace_def byte_of_def)

lemma crlf_ok_plain: "CR \<notin> set s \<Longrightarrow> LF \<notin> set s \<Longrightarrow> crlf_ok s"
  by (induction s) (auto split: list.splits)

lemma crlf_ok_crlf [simp]: "crlf_ok crlf"
  by simp

lemma crlf_ok_header_lines: "list_all wf_field hs \<Longrightarrow> crlf_ok (header_lines hs)"
proof (induction hs rule: header_lines.induct)
  case (2 k v hs)
  then have "crlf_ok k" "crlf_ok v" "crlf_ok (header_lines hs)"
    by (auto simp: wf_field_def intro: crlf_ok_plain)
  then have "crlf_ok (k @ '': '' @ v @ crlf @ header_lines hs)"
    by (intro crlf_ok_append) simp_all
  then show ?case by simp
qed simp

lemma crlf_ok_head:
  assumes "wf_request r"
  shows "crlf_ok (request_head r)"
proof -
  have "crlf_ok (rq_method r)" "crlf_ok (rq_url r)" "crlf_ok (rq_version r)"
    "crlf_ok (header_lines (rq_headers r))" "crlf_ok '' ''"
    using assms
    by (auto simp: wf_request_def intro!: crlf_ok_header_lines crlf_ok_plain dest: wf_word_plain)
  then show ?thesis
    unfolding request_head_def by (intro crlf_ok_append) simp_all
qed

lemma header_lines_end: "header_lines hs = [] \<or> (\<exists>t. header_lines hs = t @ crlf)"
proof (induction hs rule: header_lines.induct)
  case (2 k v hs)
  show ?case
  proof (cases "header_lines hs = []")
    case True
    then have "header_lines ((k, v) # hs) = (k @ '': '' @ v) @ crlf" by simp
    then show ?thesis by blast
  next
    case False
    with 2 obtain t where "header_lines hs = t @ crlf" by blast
    then have "header_lines ((k, v) # hs) = (k @ '': '' @ v @ crlf @ t) @ crlf" by simp
    then show ?thesis by blast
  qed
qed simp

lemma request_head_end: "\<exists>t. request_head r = t @ crlf @ crlf"
  using header_lines_end [of "rq_headers r"] unfolding request_head_def
  by (metis append.assoc append_Nil)

lemma ensure_header_end_head: "ensure_header_end (request_head r @ b) = request_head r @ b"
proof -
  obtain t where "request_head r = t @ crlf @ crlf" using request_head_end by blast
  then have "sublist (crlf @ crlf) (request_head r @ b)"
    unfolding sublist_def by (metis append.assoc)
  then show ?thesis by (simp add: ensure_header_end_def str_contains_iff)
qed

definition header_line :: "string \<times> string \<Rightarrow> string" where
  "header_line h = fst h @ '': '' @ snd h @ [CR]"

lemma getlines_header_lines:
  "list_all wf_field hs \<Longrightarrow> getlines (header_lines hs @ s) = map header_line hs @ getlines s"
proof (induction hs rule: header_lines.induct)
  case (2 k v hs)
  then have "LF \<notin> set (k @ '': '' @ v @ [CR])" by (auto simp: wf_field_def)
  from getlines_line [OF this, of "header_lines hs @ s"] 2 show ?case
    by (simp add: header_line_def)
qed simp

lemma getlines_head:
  assumes "wf_request r"
  shows "getlines (request_head r @ s) =
    (rq_method r @ '' '' @ rq_url r @ '' '' @ rq_version r @ [CR])
      # map header_line (rq_headers r) @ [CR] # getlines s"
proof -
  from assms have "LF \<notin> set (rq_method r @ '' '' @ rq_url r @ '' '' @ rq_version r @ [CR])"
    by (auto simp: wf_request_def dest!: wf_word_plain)
  from getlines_line [OF this, of "header_lines (rq_headers r) @ crlf @ s"]
  show ?thesis
    using assms getlines_line [of "[CR]" s]
    by (simp add: request_head_def wf_request_def getlines_header_lines)
qed

lemma strip_cr_snoc [simp]: "strip_cr (l @ [CR]) = l"
  by (simp add: strip_cr_def)

lemma parse_request_line_head:
  assumes "wf_word m" "wf_word u" "wf_word v"
  shows "parse_request_line (m @ '' '' @ u @ '' '' @ v @ [CR]) r =
     r\<lparr>rq_method := m, rq_url := u, rq_version := v\<rparr>"
proof -
  have sp: "isspace CHR '' ''" by (simp add: isspace_def byte_of_def)
  have skip: "words_of (CHR '' '' # s) = words_of s" for s
    using words_of_skip [of "'' ''" s] sp by simp
  have "words_of (m @ '' '' @ u @ '' '' @ v) = [m, u, v]"
    using assms words_of_word [of m "'' '' @ u @ '' '' @ v"] words_of_word [of u "'' '' @ v"]
      words_of_word [of v "[]"] sp skip by (auto simp: wf_word_def)
  then show ?thesis
    using strip_cr_snoc [of "m @ '' '' @ u @ '' '' @ v"]
    by (simp add: parse_request_line_def Let_def)
qed

lemma parse_header_line_wf: "wf_field h \<Longrightarrow> parse_header_line (header_line h) = Some h"
proof -
  assume wf: "wf_field h"
  obtain k v where h: "h = (k, v)" by (cases h)
  have "str_find (k @ '': '' @ v) '':'' = Some (length k)"
    using wf str_find_char_first [of "CHR '':''" k "'' '' @ v"] by (simp add: h wf_field_def)
  moreover have "dropWhile (\<lambda>c. c = CHR '' '' \<or> c = TAB) v = v"
    using wf by (cases v) (auto simp: h wf_field_def)
  ultimately show ?thesis
    using strip_cr_snoc [of "k @ '': '' @ v"]
    by (simp add: parse_header_line_def header_line_def h Let_def substr_def)
qed

lemma parse_lines_headers:
  "list_all wf_field hs \<Longrightarrow>
   parse_lines False acc b (map header_line hs @ [CR] # ls) = parse_lines True (acc @ hs) b ls"
proof (induction hs arbitrary: acc)
  case (Cons h hs)
  then show ?case by (simp add: parse_header_line_wf) (simp add: header_line_def)
qed simp

lemma parse_lines_body:
  "parse_lines True hs b ls = (hs, b @ concat (map (\<lambda>l. l @ [LF]) ls))"
  by (induction ls arbitrary: b) auto

lemma concat_getlines:
  "concat (map (\<lambda>l. l @ [LF]) (getlines s)) = (if s = [] \<or> last s = LF then s else s @ [LF])"
  by (induction s) (auto split: list.splits if_splits)

lemma normalize_last:
  assumes "b \<noteq> []" "last b \<noteq> CR"
  shows "normalize_crlf b \<noteq> []" "last (normalize_crlf b) = last b"
proof -
  have "normalize_crlf b = normalize_crlf (butlast b) @ normalize_crlf [last b]"
    using assms normalize_crlf_append [of "butlast b" "[last b]"] by simp
  with assms show "normalize_crlf b \<noteq> []" "last (normalize_crlf b) = last b"
    by auto
qed

lemma ends_with_LF: "ends_with s [LF] \<longleftrightarrow> s \<noteq> [] \<and> last s = LF"
  by (cases s rule: rev_cases) (auto simp: ends_with_def suffix_def)

lemma parse_serialized:
  assumes wf: "wf_request r" and cr: "rq_body r = [] \<or> last (rq_body r) \<noteq> CR"
  shows "ParseRawHttpRequest (serialize_request r) =
    r\<lparr>rq_body := normalize_crlf (rq_body r),
      rq_rawOverride := request_head r @ normalize_crlf (rq_body r)\<rparr>"
proof -
  let ?h = "request_head r" and ?b = "rq_body r"
  from wf have ser: "serialize_request r = ?h @ ?b"
    by (simp add: wf_request_def serialize_head)
  have er: "erase_scheme_notes (?h @ ?b) = ?h @ ?b"
    using wf by (simp add: erase_scheme_notes_def erase_note_def wf_request_def ser
        str_find_None_iff [THEN iffD2])
  have nm: "ensure_header_end (normalize_crlf (?h @ ?b)) = ?h @ normalize_crlf ?b"
    using wf by (simp add: normalize_crlf_append normalize_crlf_id crlf_ok_head ensure_header_end_head)
  have lf: "ends_with (?h @ ?b) [LF] \<longleftrightarrow> ?b = [] \<or> last ?b = LF"
  proof -
    obtain t where "?h = t @ crlf @ crlf" using request_head_end by blast
    then show ?thesis by (simp add: ends_with_LF)
  qed
  define ls where "ls = getlines (?h @ normalize_crlf ?b)"
  have ls: "parse_request_line (hd ls) q = q\<lparr>rq_method := rq_method r, rq_url := rq_url r,
      rq_version := rq_version r\<rparr>" "ls \<noteq> []"
    "parse_lines False [] [] (tl ls) =
       (rq_headers r, concat (map (\<lambda>l. l @ [LF]) (getlines (normalize_crlf ?b))))" for q
    using wf by (simp_all add: ls_def getlines_head wf_request_def
        parse_request_line_head [simplified] parse_lines_headers parse_lines_body)
  have b: "(if c \<noteq> [] \<and> \<not> (?b = [] \<or> last ?b = LF) then butlast c else c) = normalize_crlf ?b"
    if "c = concat (map (\<lambda>l. l @ [LF]) (getlines (normalize_crlf ?b)))" for c
    using cr normalize_last [of ?b] unfolding that concat_getlines by (cases "?b = []") auto
  from ls(2) obtain l ls' where c: "ls = l # ls'" by (cases ls) auto
  show ?thesis
    using wf ls(1,3) b [OF refl]
    by (simp add: ParseRawHttpRequest_def ser er nm ls_def [symmetric] c lf HttpRequest_def
        wf_request_def)
qed

section \<open>What parsing always gives\<close>

lemma getlines_ne: "s \<noteq> [] \<Longrightarrow> getlines s \<noteq> []"
  by (cases s) (auto split: list.splits)

lemma words_of_wf: "\<forall>w \<in> set (words_of s). wf_word w"
proof (induction s rule: words_of.induct)
  case (1 s)
  let ?t = "dropWhile isspace s"
  show ?case
  proof (cases "?t = []")
    case True
    then show ?thesis by (subst words_of.simps) simp
  next
    case False
    then have "\<not> isspace (hd ?t)" by (simp add: hd_dropWhile)
    with False have "wf_word (takeWhile (\<lambda>c. \<not> isspace c) ?t)"
      by (cases ?t) (auto simp: wf_word_def dest: set_takeWhileD)
    with 1 [OF refl False] False show ?thesis
      by (subst words_of.simps) (simp add: Let_def)
  qed
qed

lemma parse_request_line_wf:
  assumes "rq_version r = ''HTTP/1.1''"
  shows "wf_word (rq_method (parse_request_line l r)) \<and> wf_word (rq_url (parse_request_line l r))
    \<and> wf_word (rq_version (parse_request_line l r))"
proof -
  have "wf_word ''GET''" "wf_word ''/''" "wf_word ''HTTP/1.1''"
    by (simp_all add: wf_word_def isspace_def byte_of_def)
  then show ?thesis
    using words_of_wf [of "strip_cr l"] assms by (auto simp: parse_request_line_def Let_def)
qed

lemma parse_raw_fields:
  "rq_rawOverride (ParseRawHttpRequest raw) = ensure_header_end (normalize_crlf (erase_scheme_notes raw))"
  by (simp add: ParseRawHttpRequest_def Let_def parse_request_line_def split: prod.splits list.splits)

lemma parse_raw_words:
  "wf_word (rq_method (ParseRawHttpRequest raw)) \<and> wf_word (rq_url (ParseRawHttpRequest raw))
    \<and> wf_word (rq_version (ParseRawHttpRequest raw))"
proof -
  let ?n = "ensure_header_end (normalize_crlf (erase_scheme_notes raw))"
  have "?n \<noteq> []" using ensure_header_end_contains [of "normalize_crlf (erase_scheme_notes raw)"]
    by (auto dest: sublist_length_le)
  then have "getlines ?n \<noteq> []" by (rule getlines_ne)
  then show ?thesis
    using parse_request_line_wf [of "HttpRequest\<lparr>rq_rawOverride := ?n\<rparr>"]
    by (auto simp: ParseRawHttpRequest_def Let_def HttpRequest_def split: prod.splits list.splits)
qed

lemma crlf_ok_last: "crlf_ok s \<Longrightarrow> s = [] \<or> last s \<noteq> CR"
  by (induction s rule: crlf_ok.induct) (auto split: if_splits list.splits)

lemma length_normalize_crlf:
  "length (normalize_crlf s) + count_list s CR = length s + count_list s LF"
  by (induction s) auto

section \<open>Properties\<close>

text \<open>
  C29: Reading back a serialised request: for a request whose method, URL and version are words,
  whose header names and values stay on their line, whose body has CR LF line ends and which
  nowhere contains the notes that the parser erases, \<open>ParseRawHttpRequest\<close> after \<open>serialize\<close>
  gives the same request, with the serialised text as its override.
\<close>
theorem parse_serialize_round_trip:
  assumes "wf_request r" and "crlf_ok (rq_body r)"
  shows "ParseRawHttpRequest (serialize_request r) = r\<lparr>rq_rawOverride := serialize_request r\<rparr>"
proof -
  have "rq_body r = [] \<or> last (rq_body r) \<noteq> CR"
    using assms(2) by (rule crlf_ok_last)
  from parse_serialized [OF assms(1) this] assms show ?thesis
    by (simp add: normalize_crlf_id wf_request_def serialize_head)
qed

definition sample_request :: http_request where
  "sample_request = \<lparr>rq_method = ''POST'', rq_url = ''/a?b'', rq_version = ''HTTP/1.1'',
     rq_headers = [(''Host'', ''h.org''), (''Content-Length'', ''3'')], rq_body = ''x'' @ crlf,
     rq_rawOverride = []\<rparr>"

lemma sample_request_wf: "wf_request sample_request"
  unfolding sample_request_def wf_request_def wf_word_def wf_field_def serialize_request_def
    isspace_def byte_of_def
  by (simp add: sublist_code)

theorem parse_serialize_round_trip_witness:
  "wf_request sample_request \<and> crlf_ok (rq_body sample_request)
   \<and> ParseRawHttpRequest (serialize_request sample_request)
       = sample_request\<lparr>rq_rawOverride := serialize_request sample_request\<rparr>"
proof -
  have b: "crlf_ok (rq_body sample_request)" by (simp add: sample_request_def)
  show ?thesis using sample_request_wf b parse_serialize_round_trip [OF sample_request_wf b] by simp
qed

text \<open>
  Editing rewrites the body's line ends and nothing else: a body with bare line feeds (a JSON or
  form text, say) comes back with one more byte per line feed that had no carriage return, while
  the headers, \<open>Content-Length\<close> included, are those of the original request.
\<close>
theorem edited_body_line_ends:
  assumes "wf_request r" and "rq_body r = [] \<or> last (rq_body r) \<noteq> CR"
  shows "let q = ParseRawHttpRequest (serialize_request r)
    in rq_body q = normalize_crlf (rq_body r)
       \<and> length (rq_body q) + count_list (rq_body r) CR
           = length (rq_body r) + count_list (rq_body r) LF
       \<and> rq_headers q = rq_headers r \<and> rq_method q = rq_method r \<and> rq_url q = rq_url r"
  using parse_serialized [OF assms] length_normalize_crlf [of "rq_body r"] by (simp add: Let_def)

theorem edited_body_line_ends_witness:
  "wf_request (sample_request\<lparr>rq_body := ''a'' @ [LF] @ ''b''\<rparr>)
   \<and> (let q = ParseRawHttpRequest (serialize_request (sample_request\<lparr>rq_body := ''a'' @ [LF] @ ''b''\<rparr>))
      in length (rq_body q) = 4 \<and> request_header q ''Content-Length'' = ''3'')"
proof -
  let ?r = "sample_request\<lparr>rq_body := ''a'' @ [LF] @ ''b''\<rparr>"
  have wf: "wf_request ?r"
    unfolding sample_request_def wf_request_def wf_word_def wf_field_def serialize_request_def
      isspace_def byte_of_def
    by (simp add: sublist_code)
  have "rq_body ?r = [] \<or> last (rq_body ?r) \<noteq> CR" by simp
  from edited_body_line_ends [OF wf this] wf show ?thesis
    by (simp add: Let_def request_header_def sample_request_def)
qed

text \<open>
  Whatever text the user leaves in the editor, \<open>ParseRawHttpRequest\<close> returns a request that can be
  sent: its serialisation is the normalised text, every line end in it is CR LF, it contains
  the blank line that ends the headers, and method, URL and version are non-empty words.
\<close>
theorem parse_raw_sendable:
  "let q = ParseRawHttpRequest raw
   in serialize_request q = ensure_header_end (normalize_crlf (erase_scheme_notes raw))
      \<and> crlf_ok (serialize_request q) \<and> sublist (crlf @ crlf) (serialize_request q)
      \<and> wf_word (rq_method q) \<and> wf_word (rq_url q) \<and> wf_word (rq_version q)"
proof -
  let ?n = "ensure_header_end (normalize_crlf (erase_scheme_notes raw))"
  have c: "sublist (crlf @ crlf) ?n" by (rule ensure_header_end_contains)
  then have "?n \<noteq> []" by (auto dest: sublist_length_le)
  with c show ?thesis
    using parse_raw_words [of raw]
    by (simp add: Let_def serialize_request_def parse_raw_fields ensure_header_end_ok)
qed

end
