(* ===== verification/Queues.thy ===== *)
theory Queues
  imports Prelude
begin

text \<open>
  The two queues of \<open>src/src/util\<close>: \<open>TsQueue\<close>, which carries transactions from the network
  thread to the interface, and the bounded blocking \<open>EventQueue\<close>. Every operation runs under the
  queue's mutex, so it is one step; for \<open>EventQueue\<close> the steps also say which threads are blocked
  in the condition variable and which have been notified and compete for the mutex again.
\<close>

section \<open>TsQueue\<close>

type_synonym 'a tsqueue = "'a list"

definition ts_push :: "'a \<Rightarrow> 'a tsqueue \<Rightarrow> 'a tsqueue" where
  "ts_push x q = q @ [x]"

text \<open>The draining loop \<open>while (!q_.empty())\<close> with its output vector.\<close>

function ts_drain :: "'a list \<Rightarrow> 'a tsqueue \<Rightarrow> 'a list \<times> 'a tsqueue" where
  "ts_drain out q = (if q \<noteq> [] then ts_drain (out @ [hd q]) (tl q) else (out, q))"
  by pat_completeness auto

termination
  by (relation "measure (\<lambda>(out, q). length q)") auto

declare ts_drain.simps [simp del]

definition ts_tryPopAll :: "'a tsqueue \<Rightarrow> 'a list \<times> 'a tsqueue" where
  "ts_tryPopAll q = ts_drain [] q"

definition ts_empty :: "'a tsqueue \<Rightarrow> bool" where
  "ts_empty q \<longleftrightarrow> q = []"

definition ts_size :: "'a tsqueue \<Rightarrow> nat" where
  "ts_size q = length q"

section \<open>EventQueue\<close>

text \<open>
  A call in progress, and the state: the items, the bound, the calls blocked in \<open>cv_.wait\<close>, the
  calls that were notified, and two logs of what was pushed and popped so far.
\<close>

datatype 'a eq_call = EqPush 'a | EqPop

record 'a event_queue =
  eq_items :: "'a list"
  eq_maxSize :: nat
  eq_blocked :: "(nat \<times> 'a eq_call) list"
  eq_woken :: "(nat \<times> 'a eq_call) list"
  eq_pushed :: "'a list"
  eq_popped :: "'a list"

definition EventQueue :: "nat \<Rightarrow> 'a event_queue" where
  "EventQueue n = \<lparr>eq_items = [], eq_maxSize = n, eq_blocked = [], eq_woken = [],
     eq_pushed = [], eq_popped = []\<rparr>"

text \<open>The body of a call once its wait predicate holds; \<open>None\<close> when it has to wait.\<close>

fun eq_body :: "'a eq_call \<Rightarrow> 'a event_queue \<Rightarrow> 'a event_queue option" where
  "eq_body (EqPush x) s =
     (if length (eq_items s) < eq_maxSize s
      then Some (s\<lparr>eq_items := eq_items s @ [x], eq_pushed := eq_pushed s @ [x]\<rparr>) else None)"
| "eq_body EqPop s =
     (case eq_items s of [] \<Rightarrow> None
      | x # xs \<Rightarrow> Some (s\<lparr>eq_items := xs, eq_popped := eq_popped s @ [x]\<rparr>))"

text \<open>\<open>notify_one\<close> makes at most one blocked call runnable; which one is not specified.\<close>

inductive eq_notify :: "'a event_queue \<Rightarrow> 'a event_queue \<Rightarrow> bool" where
  notify_none: "eq_blocked s = [] \<Longrightarrow> eq_notify s s"
| notify_some: "eq_blocked s = xs @ w # ys \<Longrightarrow>
     eq_notify s (s\<lparr>eq_blocked := xs @ ys, eq_woken := w # eq_woken s\<rparr>)"

definition eq_idle :: "nat \<Rightarrow> 'a event_queue \<Rightarrow> bool" where
  "eq_idle t s \<longleftrightarrow> t \<notin> fst ` set (eq_blocked s) \<and> t \<notin> fst ` set (eq_woken s)"

text \<open>
  One step: an idle thread makes a call, or a notified thread takes the mutex again; either way
  the predicate is tested, and the call completes with a notification or blocks.
  \<open>role t c\<close> says which calls thread \<open>t\<close> makes.
\<close>

inductive eq_step :: "(nat \<Rightarrow> 'a eq_call \<Rightarrow> bool) \<Rightarrow> 'a event_queue \<Rightarrow> 'a event_queue \<Rightarrow> bool"
  for role :: "nat \<Rightarrow> 'a eq_call \<Rightarrow> bool" where
  call_done: "role t c \<Longrightarrow> eq_idle t s \<Longrightarrow> eq_body c s = Some s' \<Longrightarrow> eq_notify s' s'' \<Longrightarrow> eq_step role s s''"
| call_wait: "role t c \<Longrightarrow> eq_idle t s \<Longrightarrow> eq_body c s = None \<Longrightarrow>
     eq_step role s (s\<lparr>eq_blocked := (t, c) # eq_blocked s\<rparr>)"
| wake_done: "eq_woken s = xs @ (t, c) # ys \<Longrightarrow> eq_body c (s\<lparr>eq_woken := xs @ ys\<rparr>) = Some s' \<Longrightarrow>
     eq_notify s' s'' \<Longrightarrow> eq_step role s s''"
| wake_wait: "eq_woken s = xs @ (t, c) # ys \<Longrightarrow> eq_body c (s\<lparr>eq_woken := xs @ ys\<rparr>) = None \<Longrightarrow>
     eq_step role s (s\<lparr>eq_woken := xs @ ys, eq_blocked := (t, c) # eq_blocked s\<rparr>)"

inductive eq_reachable :: "(nat \<Rightarrow> 'a eq_call \<Rightarrow> bool) \<Rightarrow> nat \<Rightarrow> 'a event_queue \<Rightarrow> bool"
  for role :: "nat \<Rightarrow> 'a eq_call \<Rightarrow> bool" and n :: nat where
  start: "eq_reachable role n (EventQueue n)"
| step: "eq_reachable role n s \<Longrightarrow> eq_step role s s' \<Longrightarrow> eq_reachable role n s'"

text \<open>One producer (thread 0) and one consumer (thread 1); several producers.\<close>

definition one_producer :: "nat \<Rightarrow> 'a eq_call \<Rightarrow> bool" where
  "one_producer t c \<longleftrightarrow> (case c of EqPush _ \<Rightarrow> t = 0 | EqPop \<Rightarrow> t = 1)"

definition many_producers :: "nat \<Rightarrow> 'a eq_call \<Rightarrow> bool" where
  "many_producers t c \<longleftrightarrow> (case c of EqPush _ \<Rightarrow> t \<noteq> 1 | EqPop \<Rightarrow> t = 1)"

section \<open>TsQueue is a FIFO channel\<close>

lemma ts_drain_all: "ts_drain out q = (out @ q, [])"
proof (induction q arbitrary: out)
  case Nil
  then show ?case by (subst ts_drain.simps) simp
next
  case (Cons a q)
  then show ?case by (subst ts_drain.simps) simp
qed

lemma ts_tryPopAll_all: "ts_tryPopAll q = (q, [])"
  by (simp add: ts_tryPopAll_def ts_drain_all)

text \<open>
  The interface of a channel that is drained as a whole: \<open>contents\<close> is the abstraction. Whatever
  the interleaving of puts and drains, what was drained followed by what is left is what was put.
\<close>

locale drained_channel =
  fixes contents :: "'s \<Rightarrow> 'a list"
    and put :: "'a \<Rightarrow> 's \<Rightarrow> 's"
    and take_all :: "'s \<Rightarrow> 'a list \<times> 's"
  assumes contents_put: "contents (put x s) = contents s @ [x]"
    and take_all_fst: "fst (take_all s) = contents s"
    and take_all_snd: "contents (snd (take_all s)) = []"
begin

text \<open>\<open>Some x\<close> puts \<open>x\<close>, \<open>None\<close> drains; the result is what was drained and the state left.\<close>

fun channel_run :: "'a option list \<Rightarrow> 's \<Rightarrow> 'a list \<times> 's" where
  "channel_run [] s = ([], s)"
| "channel_run (Some x # es) s = channel_run es (put x s)"
| "channel_run (None # es) s =
     (case channel_run es (snd (take_all s)) of (out, s') \<Rightarrow> (fst (take_all s) @ out, s'))"

lemma channel_run_fifo:
  "fst (channel_run es s) @ contents (snd (channel_run es s)) = contents s @ List.map_filter id es"
proof (induction es s rule: channel_run.induct)
  case (3 es s)
  then show ?case
    by (cases "channel_run es (snd (take_all s))") (simp add: take_all_fst take_all_snd map_filter_simps)
qed (simp_all add: contents_put map_filter_simps)

end

interpretation ts: drained_channel "\<lambda>q :: 'a tsqueue. q" ts_push ts_tryPopAll
  by unfold_locales (simp_all add: ts_push_def ts_tryPopAll_all)

text \<open>The same run written out for the queue: \<open>Some x\<close> is a push by the network thread, \<open>None\<close> a drain.\<close>

fun ts_run :: "'a option list \<Rightarrow> 'a tsqueue \<Rightarrow> 'a list \<times> 'a tsqueue" where
  "ts_run [] q = ([], q)"
| "ts_run (Some x # es) q = ts_run es (ts_push x q)"
| "ts_run (None # es) q =
     (case ts_run es (snd (ts_tryPopAll q)) of (out, q') \<Rightarrow> (fst (ts_tryPopAll q) @ out, q'))"

lemma ts_run_channel: "ts_run es q = ts.channel_run es q"
  by (induction es q rule: ts_run.induct) simp_all

section \<open>EventQueue: bound and order\<close>

definition eq_inv :: "'a event_queue \<Rightarrow> bool" where
  "eq_inv s \<longleftrightarrow> length (eq_items s) \<le> eq_maxSize s \<and> eq_pushed s = eq_popped s @ eq_items s"

lemma eq_body_inv: "eq_body c s = Some s' \<Longrightarrow> eq_inv s \<Longrightarrow> eq_inv s'"
  by (cases c) (auto simp: eq_inv_def split: if_splits list.splits)

lemma eq_notify_frame:
  "eq_notify s s' \<Longrightarrow> eq_items s' = eq_items s \<and> eq_maxSize s' = eq_maxSize s
     \<and> eq_pushed s' = eq_pushed s \<and> eq_popped s' = eq_popped s"
  by (induction rule: eq_notify.induct) simp_all

lemma eq_notify_inv: "eq_notify s s' \<Longrightarrow> eq_inv s \<Longrightarrow> eq_inv s'"
  by (auto simp: eq_inv_def dest: eq_notify_frame)

lemma eq_step_inv: "eq_step role s s' \<Longrightarrow> eq_inv s \<Longrightarrow> eq_inv s'"
proof (induction rule: eq_step.induct)
  case (wake_done s xs t c ys s' s'')
  then have "eq_inv (s\<lparr>eq_woken := xs @ ys\<rparr>)" by (simp add: eq_inv_def)
  with wake_done show ?case by (blast intro: eq_body_inv eq_notify_inv)
qed (auto simp: eq_inv_def [of "eq_blocked_update _ _"] eq_inv_def [of "eq_woken_update _ _"]
      intro: eq_body_inv eq_notify_inv dest: eq_inv_def [THEN iffD1])

lemma eq_reachable_inv: "eq_reachable role n s \<Longrightarrow> eq_inv s"
  by (induction rule: eq_reachable.induct) (auto simp: eq_inv_def EventQueue_def dest: eq_step_inv)

lemma eq_body_max: "eq_body c s = Some s' \<Longrightarrow> eq_maxSize s' = eq_maxSize s"
  by (cases c) (auto split: if_splits list.splits)

lemma eq_step_max: "eq_step role s s' \<Longrightarrow> eq_maxSize s' = eq_maxSize s"
  by (induction rule: eq_step.induct) (auto dest!: eq_notify_frame eq_body_max)

lemma eq_reachable_max: "eq_reachable role n s \<Longrightarrow> eq_maxSize s = n"
  by (induction rule: eq_reachable.induct) (auto simp: EventQueue_def dest: eq_step_max)

section \<open>EventQueue: wake-ups\<close>

text \<open>
  With one producer and one consumer the single condition variable is enough: a blocked consumer
  means an empty queue, a blocked producer a full one.
\<close>

definition spsc_inv :: "'a event_queue \<Rightarrow> bool" where
  "spsc_inv s \<longleftrightarrow> (\<forall>(t, c) \<in> set (eq_blocked s @ eq_woken s). one_producer t c)
     \<and> distinct (map fst (eq_blocked s @ eq_woken s))
     \<and> (\<forall>(t, c) \<in> set (eq_blocked s).
          case c of EqPop \<Rightarrow> eq_items s = [] | EqPush _ \<Rightarrow> length (eq_items s) = eq_maxSize s)"

lemma two_threads:
  assumes "\<forall>(t, c) \<in> set L. one_producer t c" "distinct (map fst L)"
  shows "length L \<le> 2"
proof -
  have "set (map fst L) \<subseteq> {0, 1}"
  proof
    fix t assume "t \<in> set (map fst L)"
    then obtain c where "(t, c) \<in> set L" by auto
    with assms(1) have "one_producer t c" by blast
    then show "t \<in> {0, 1}" by (simp add: one_producer_def split: eq_call.splits)
  qed
  then have "card (set (map fst L)) \<le> card {0::nat, 1}" by (intro card_mono) simp_all
  then show ?thesis using distinct_card [OF assms(2)] by simp
qed

lemma eq_notify_last:
  "eq_notify s s' \<Longrightarrow> length (eq_blocked s) \<le> 1 \<Longrightarrow>
   eq_blocked s' = [] \<and> eq_woken s' = eq_blocked s @ eq_woken s"
  by (induction rule: eq_notify.induct) auto

lemma eq_body_waits:
  "eq_body c s = Some s' \<Longrightarrow> eq_blocked s' = eq_blocked s \<and> eq_woken s' = eq_woken s"
  by (cases c) (auto split: if_splits list.splits)

lemma eq_body_None:
  "eq_body c s = None \<Longrightarrow> eq_inv s \<Longrightarrow>
   (case c of EqPop \<Rightarrow> eq_items s = [] | EqPush _ \<Rightarrow> length (eq_items s) = eq_maxSize s)"
  by (cases c) (auto simp: eq_inv_def split: if_splits list.splits)

lemma spsc_step: "eq_step one_producer s s' \<Longrightarrow> eq_inv s \<Longrightarrow> spsc_inv s \<Longrightarrow> spsc_inv s'"
proof (induction rule: eq_step.induct)
  case (call_done t c s s' s'')
  then have "length ((t, c) # eq_blocked s @ eq_woken s) \<le> 2"
    by (intro two_threads) (auto simp: spsc_inv_def eq_idle_def)
  with call_done have "eq_blocked s'' = [] \<and> eq_woken s'' = eq_blocked s @ eq_woken s"
    using eq_body_waits [of c s s'] eq_notify_last [of s' s''] by simp
  with call_done show ?case by (auto simp: spsc_inv_def)
next
  case (call_wait t c s)
  then show ?case using eq_body_None [of c s] by (auto simp: spsc_inv_def eq_idle_def)
next
  case (wake_done s xs t c ys s' s'')
  then have "length (eq_blocked s @ eq_woken s) \<le> 2"
    by (intro two_threads) (auto simp: spsc_inv_def)
  with wake_done have "eq_blocked s'' = [] \<and> eq_woken s'' = eq_blocked s @ xs @ ys"
    using eq_body_waits [of c _ s'] eq_notify_last [of s' s''] by simp
  with wake_done show ?case by (auto simp: spsc_inv_def)
next
  case (wake_wait s xs t c ys)
  then have "eq_inv (s\<lparr>eq_woken := xs @ ys\<rparr>)" by (simp add: eq_inv_def)
  with wake_wait show ?case using eq_body_None [of c "s\<lparr>eq_woken := xs @ ys\<rparr>"]
    by (cases c) (auto simp: spsc_inv_def)
qed

lemma spsc_reachable: "eq_reachable one_producer n s \<Longrightarrow> spsc_inv s"
proof (induction rule: eq_reachable.induct)
  case start
  then show ?case by (simp add: spsc_inv_def EventQueue_def)
next
  case (step s s')
  then show ?case by (blast intro: spsc_step eq_reachable_inv)
qed

section \<open>Properties\<close>

text \<open>
  The transaction queue neither loses, duplicates nor reorders: for any interleaving of pushes
  and drains, the drained items followed by those still queued are the items at the start
  followed by those pushed, in order.
\<close>
theorem tsqueue_fifo:
  "fst (ts_run es q) @ snd (ts_run es q) = q @ List.map_filter id es"
  unfolding ts_run_channel by (rule ts.channel_run_fifo)

text \<open>
  C21: In every state the event queue can reach, whichever threads push and pop and however they
  are woken, it holds at most \<open>maxSize\<close> items, and the items popped so far followed by those
  queued are exactly the items pushed, in the order of the pushes.
\<close>
theorem event_queue_bounded_fifo:
  assumes "eq_reachable role n s"
  shows "length (eq_items s) \<le> n \<and> eq_pushed s = eq_popped s @ eq_items s"
  using eq_reachable_inv [OF assms] eq_reachable_max [OF assms] by (simp add: eq_inv_def)


theorem event_queue_bounded_fifo_witness:
  "eq_reachable many_producers 2 (EventQueue 2 :: nat event_queue)
   \<and> length (eq_items (EventQueue 2 :: nat event_queue)) \<le> 2"
  using event_queue_bounded_fifo [OF eq_reachable.start [of many_producers 2]]
    eq_reachable.start [of many_producers 2] by blast

lemma consumer_first:
  "eq_reachable one_producer n
     ((EventQueue n :: nat event_queue)\<lparr>eq_blocked := [(1, EqPop)]\<rparr>)"
proof -
  have "eq_step one_producer (EventQueue n :: nat event_queue)
      ((EventQueue n)\<lparr>eq_blocked := (1, EqPop) # eq_blocked (EventQueue n :: nat event_queue)\<rparr>)"
    by (rule eq_step.call_wait) (simp_all add: one_producer_def eq_idle_def EventQueue_def)
  then show ?thesis using eq_reachable.start [of one_producer n] eq_reachable.step
    by (force simp: EventQueue_def)
qed


text \<open>The run that loses a wake-up: capacity 1, producers 0 and 2, consumer 1.\<close>

definition lost_state :: "nat event_queue" where
  "lost_state = \<lparr>eq_items = [11], eq_maxSize = 1,
     eq_blocked = [(0, EqPush 13), (2, EqPush 12), (1, EqPop)], eq_woken = [],
     eq_pushed = [10, 11], eq_popped = [10]\<rparr>"

lemma lost_run: "eq_reachable many_producers 1 lost_state"
proof -
  let ?R = "eq_reachable many_producers 1 :: nat event_queue \<Rightarrow> bool"
  let ?st = "\<lambda>i b w p o'. \<lparr>eq_items = i, eq_maxSize = 1, eq_blocked = b, eq_woken = w,
     eq_pushed = p, eq_popped = o'\<rparr> :: nat event_queue"
  note defs = many_producers_def eq_idle_def
  have 0: "?R (?st [] [] [] [] [])"
    using eq_reachable.start [of many_producers 1] by (simp add: EventQueue_def)
  have "eq_step many_producers (?st [] [] [] [] []) (?st [10] [] [] [10] [])"
    by (rule call_done [where t = 0 and c = "EqPush 10", OF _ _ _ notify_none]) (simp_all add: defs)
  with 0 have 1: "?R (?st [10] [] [] [10] [])" by (rule eq_reachable.step)
  have "eq_step many_producers (?st [10] [] [] [10] []) (?st [10] [(0, EqPush 11)] [] [10] [])"
    using call_wait [of many_producers 0 "EqPush 11" "?st [10] [] [] [10] []"] by (simp add: defs)
  with 1 have 2: "?R (?st [10] [(0, EqPush 11)] [] [10] [])" by (rule eq_reachable.step)
  have "eq_step many_producers (?st [10] [(0, EqPush 11)] [] [10] [])
      (?st [10] [(2, EqPush 12), (0, EqPush 11)] [] [10] [])"
    using call_wait [of many_producers 2 "EqPush 12" "?st [10] [(0, EqPush 11)] [] [10] []"]
    by (simp add: defs)
  with 2 have 3: "?R (?st [10] [(2, EqPush 12), (0, EqPush 11)] [] [10] [])" by (rule eq_reachable.step)
  have "eq_step many_producers (?st [10] [(2, EqPush 12), (0, EqPush 11)] [] [10] [])
      (?st [] [(2, EqPush 12)] [(0, EqPush 11)] [10] [10])"
    using call_done [of many_producers 1 EqPop _ "?st [] [(2, EqPush 12), (0, EqPush 11)] [] [10] [10]",
        OF _ _ _ notify_some [where xs = "[(2, EqPush 12)]" and ys = "[]"]]
    by (simp add: defs)
  with 3 have 4: "?R (?st [] [(2, EqPush 12)] [(0, EqPush 11)] [10] [10])" by (rule eq_reachable.step)
  have "eq_step many_producers (?st [] [(2, EqPush 12)] [(0, EqPush 11)] [10] [10])
      (?st [] [(1, EqPop), (2, EqPush 12)] [(0, EqPush 11)] [10] [10])"
    using call_wait [of many_producers 1 EqPop "?st [] [(2, EqPush 12)] [(0, EqPush 11)] [10] [10]"]
    by (simp add: defs)
  with 4 have 5: "?R (?st [] [(1, EqPop), (2, EqPush 12)] [(0, EqPush 11)] [10] [10])"
    by (rule eq_reachable.step)
  have "eq_step many_producers (?st [] [(1, EqPop), (2, EqPush 12)] [(0, EqPush 11)] [10] [10])
      (?st [11] [(1, EqPop)] [(2, EqPush 12)] [10, 11] [10])"
    using wake_done [of _ "[]" 0 "EqPush 11" "[]" "?st [11] [(1, EqPop), (2, EqPush 12)] [] [10, 11] [10]",
        OF _ _ notify_some [where xs = "[(1, EqPop)]" and ys = "[]"]]
    by simp
  with 5 have 6: "?R (?st [11] [(1, EqPop)] [(2, EqPush 12)] [10, 11] [10])" by (rule eq_reachable.step)
  have "eq_step many_producers (?st [11] [(1, EqPop)] [(2, EqPush 12)] [10, 11] [10])
      (?st [11] [(2, EqPush 12), (1, EqPop)] [] [10, 11] [10])"
    using wake_wait [of "?st [11] [(1, EqPop)] [(2, EqPush 12)] [10, 11] [10]" "[]" 2 "EqPush 12" "[]"]
    by simp
  with 6 have 7: "?R (?st [11] [(2, EqPush 12), (1, EqPop)] [] [10, 11] [10])" by (rule eq_reachable.step)
  have "eq_step many_producers (?st [11] [(2, EqPush 12), (1, EqPop)] [] [10, 11] [10]) lost_state"
    using call_wait [of many_producers 0 "EqPush 13" "?st [11] [(2, EqPush 12), (1, EqPop)] [] [10, 11] [10]"]
    by (simp add: defs lost_state_def)
  with 7 show ?thesis by (rule eq_reachable.step)
qed

text \<open>
  With two producers a wake-up can be lost: the queue reaches a state in which an item is
  queued, the consumer is blocked in \<open>pop\<close>, both producers are blocked in \<open>push\<close>, and no call has
  been notified, so only a spurious wake-up could make anyone run again. The notification that the
  push owed the consumer went to the other producer.
\<close>
theorem event_queue_lost_wakeup:
  "eq_reachable many_producers 1 lost_state \<and> eq_items lost_state \<noteq> [] \<and> eq_woken lost_state = []
   \<and> (1, EqPop) \<in> set (eq_blocked lost_state)
   \<and> \<not> eq_idle 0 lost_state \<and> \<not> eq_idle 1 lost_state \<and> \<not> eq_idle 2 lost_state"
  using lost_run by (auto simp: lost_state_def eq_idle_def)

end
