(* ===== verification/InterceptManager.thy ===== *)
theory InterceptManager
  imports HttpMessage "HOL-Library.Multiset"
begin

text \<open>
  The intercept queue of \<open>src/src/proxy/InterceptManager.cpp\<close>: requests that sessions paused, waiting
  for the user's decision. Each method takes the manager's mutex once, so it is one step of the
  state; what it does after releasing the mutex (calling the decision callbacks and the
  notification callback) is returned as a list of effects, in order. A callback is identified by
  the item it belongs to; the shared pointers in the queue are never null.
\<close>

section \<open>State\<close>

datatype intercept_action = Forward | Drop

record intercepted_request =
  it_id :: int
  it_isHttps :: bool
  it_host :: string
  it_port :: "16 word"
  it_request :: http_request

record intercept_manager =
  im_enabled :: bool
  im_queue :: "intercepted_request list"
  im_hasNotify :: bool

definition InterceptManager :: intercept_manager where
  "InterceptManager = \<lparr>im_enabled = False, im_queue = [], im_hasNotify = False\<rparr>"

datatype im_effect = Decide intercepted_request intercept_action | Notify

definition notify_effect :: "intercept_manager \<Rightarrow> im_effect list" where
  "notify_effect s = (if im_hasNotify s then [Notify] else [])"

section \<open>Operations\<close>

definition interceptRequest ::
  "int \<Rightarrow> bool \<Rightarrow> string \<Rightarrow> 16 word \<Rightarrow> http_request \<Rightarrow> intercept_manager \<Rightarrow> im_effect list \<times> intercept_manager"
  where
  "interceptRequest i isHttps host port req s =
     (let item = \<lparr>it_id = i, it_isHttps = isHttps, it_host = host, it_port = port, it_request = req\<rparr>;
          s' = s\<lparr>im_queue := im_queue s @ [item]\<rparr>
      in (notify_effect s', s'))"

definition isInterceptEnabled :: "intercept_manager \<Rightarrow> bool" where
  "isInterceptEnabled s = im_enabled s"

definition hasPending :: "intercept_manager \<Rightarrow> bool" where
  "hasPending s \<longleftrightarrow> im_queue s \<noteq> []"

definition pendingCount :: "intercept_manager \<Rightarrow> nat" where
  "pendingCount s = length (im_queue s)"

definition peekCurrent :: "intercept_manager \<Rightarrow> intercepted_request option" where
  "peekCurrent s = (case im_queue s of [] \<Rightarrow> None | x # _ \<Rightarrow> Some x)"

definition decideCurrent ::
  "intercept_action \<Rightarrow> intercept_manager \<Rightarrow> bool \<times> im_effect list \<times> intercept_manager" where
  "decideCurrent a s =
     (case im_queue s of
        [] \<Rightarrow> (False, [], s)
      | item # q \<Rightarrow> let s' = s\<lparr>im_queue := q\<rparr> in (True, Decide item a # notify_effect s', s'))"

definition forwardCurrent :: "intercept_manager \<Rightarrow> bool \<times> im_effect list \<times> intercept_manager" where
  "forwardCurrent = decideCurrent Forward"

definition dropCurrent :: "intercept_manager \<Rightarrow> bool \<times> im_effect list \<times> intercept_manager" where
  "dropCurrent = decideCurrent Drop"

definition decideAll :: "intercept_action \<Rightarrow> intercept_manager \<Rightarrow> im_effect list \<times> intercept_manager" where
  "decideAll a s =
     (let s' = s\<lparr>im_queue := []\<rparr>
      in (map (\<lambda>item. Decide item a) (im_queue s) @ notify_effect s', s'))"

definition forwardAll :: "intercept_manager \<Rightarrow> im_effect list \<times> intercept_manager" where
  "forwardAll = decideAll Forward"

definition dropAll :: "intercept_manager \<Rightarrow> im_effect list \<times> intercept_manager" where
  "dropAll = decideAll Drop"

text \<open>The notification is only sent when something was removed.\<close>

definition removeById :: "int \<Rightarrow> intercept_manager \<Rightarrow> im_effect list \<times> intercept_manager" where
  "removeById i s =
     (let q = filter (\<lambda>item. it_id item \<noteq> i) (im_queue s)
      in if length q < length (im_queue s)
         then (notify_effect s, s\<lparr>im_queue := q\<rparr>) else ([], s))"

definition setInterceptEnabled :: "bool \<Rightarrow> intercept_manager \<Rightarrow> im_effect list \<times> intercept_manager" where
  "setInterceptEnabled b s =
     (let s' = s\<lparr>im_enabled := b\<rparr>
      in if \<not> b then forwardAll s' else (notify_effect s', s'))"

definition setNotifyCallback :: "bool \<Rightarrow> intercept_manager \<Rightarrow> intercept_manager" where
  "setNotifyCallback b s = s\<lparr>im_hasNotify := b\<rparr>"

section \<open>Runs\<close>

datatype im_op =
    OpIntercept int bool string "16 word" http_request
  | OpForward | OpDrop | OpForwardAll | OpDropAll
  | OpRemove int | OpEnable bool | OpNotifyCallback bool

fun im_step :: "im_op \<Rightarrow> intercept_manager \<Rightarrow> im_effect list \<times> intercept_manager" where
  "im_step (OpIntercept i h host port r) s = interceptRequest i h host port r s"
| "im_step OpForward s = snd (forwardCurrent s)"
| "im_step OpDrop s = snd (dropCurrent s)"
| "im_step OpForwardAll s = forwardAll s"
| "im_step OpDropAll s = dropAll s"
| "im_step (OpRemove i) s = removeById i s"
| "im_step (OpEnable b) s = setInterceptEnabled b s"
| "im_step (OpNotifyCallback b) s = ([], setNotifyCallback b s)"

fun im_run :: "im_op list \<Rightarrow> intercept_manager \<Rightarrow> im_effect list \<times> intercept_manager" where
  "im_run [] s = ([], s)"
| "im_run (p # ps) s =
     (case im_step p s of (e, s') \<Rightarrow> (case im_run ps s' of (es, s'') \<Rightarrow> (e @ es, s'')))"

fun decided :: "im_effect list \<Rightarrow> intercepted_request list" where
  "decided [] = []"
| "decided (Decide item a # es) = item # decided es"
| "decided (Notify # es) = decided es"

fun intercepted :: "im_op list \<Rightarrow> intercepted_request list" where
  "intercepted [] = []"
| "intercepted (OpIntercept i h host port r # ps) =
     \<lparr>it_id = i, it_isHttps = h, it_host = host, it_port = port, it_request = r\<rparr> # intercepted ps"
| "intercepted (_ # ps) = intercepted ps"

text \<open>The items that \<open>removeById\<close> takes out over a run.\<close>

fun removed :: "im_op list \<Rightarrow> intercept_manager \<Rightarrow> intercepted_request list" where
  "removed [] s = []"
| "removed (p # ps) s =
     (case p of OpRemove i \<Rightarrow> filter (\<lambda>item. it_id item = i) (im_queue s) | _ \<Rightarrow> [])
     @ removed ps (snd (im_step p s))"

section \<open>Effects of the operations\<close>

lemma decided_append [simp]: "decided (xs @ ys) = decided xs @ decided ys"
  by (induction xs rule: decided.induct) simp_all

lemma decided_map [simp]: "decided (map (\<lambda>item. Decide item a) xs) = xs"
  by (induction xs) simp_all

lemma decided_notify [simp]: "decided (notify_effect s) = []"
  by (simp add: notify_effect_def)

lemmas im_defs = interceptRequest_def forwardCurrent_def dropCurrent_def decideCurrent_def
  forwardAll_def dropAll_def decideAll_def removeById_def setInterceptEnabled_def setNotifyCallback_def

lemma removeById_queue: "im_queue (snd (removeById i s)) = filter (\<lambda>item. it_id item \<noteq> i) (im_queue s)"
proof -
  have "length (filter P xs) < length xs \<or> filter P xs = xs" for P and xs :: "'a list"
    by (metis filter_id_conv le_neq_implies_less length_filter_le length_filter_less)
  from this [of "\<lambda>item. it_id item \<noteq> i" "im_queue s"] show ?thesis
    by (auto simp: removeById_def Let_def)
qed

lemma im_step_queue:
  "decided (fst (im_step p s)) @ im_queue (snd (im_step p s)) =
     (case p of OpRemove i \<Rightarrow> filter (\<lambda>item. it_id item \<noteq> i) (im_queue s)
      | _ \<Rightarrow> im_queue s @ intercepted [p])"
proof (cases p)
  case (OpRemove i)
  moreover have "decided (fst (removeById i s)) = []" by (simp add: removeById_def Let_def)
  ultimately show ?thesis by (simp add: removeById_queue)
qed (auto simp: im_defs Let_def split: list.splits)

text \<open>Nothing is lost or invented, and the order of interception is the order of decisions.\<close>

lemma im_run_mset:
  "mset (im_queue s) + mset (intercepted ps) =
   mset (decided (fst (im_run ps s))) + mset (removed ps s) + mset (im_queue (snd (im_run ps s)))"
proof (induction ps arbitrary: s)
  case (Cons p ps)
  obtain e s' where st: "im_step p s = (e, s')" by (cases "im_step p s")
  obtain es s'' where rn: "im_run ps s' = (es, s'')" by (cases "im_run ps s'")
  have i: "mset (intercepted (p # ps)) = mset (intercepted [p]) + mset (intercepted ps)"
    by (cases p) simp_all
  have q: "mset (im_queue s) + mset (intercepted [p]) =
      mset (decided e) + mset (im_queue s')
      + mset (case p of OpRemove i \<Rightarrow> filter (\<lambda>item. it_id item = i) (im_queue s) | _ \<Rightarrow> [])"
    using arg_cong [OF im_step_queue [of p s], of mset] st
    by (cases p) (simp_all add: multiset_partition [symmetric] ac_simps)
  let ?r = "mset (case p of OpRemove i \<Rightarrow> filter (\<lambda>item. it_id item = i) (im_queue s) | _ \<Rightarrow> [])"
  have "mset (im_queue s) + mset (intercepted (p # ps))
      = (mset (im_queue s) + mset (intercepted [p])) + mset (intercepted ps)"
    by (simp only: i ac_simps)
  also have "\<dots> = mset (decided e) + mset (im_queue s') + ?r + mset (intercepted ps)"
    by (simp only: q)
  also have "\<dots> = mset (decided e) + ?r + (mset (im_queue s') + mset (intercepted ps))"
    by (simp only: ac_simps)
  also have "\<dots> = mset (decided e) + ?r + (mset (decided es) + mset (removed ps s') + mset (im_queue s''))"
    using Cons [of s'] rn by simp
  finally show ?case by (simp add: st rn ac_simps)
qed simp

lemma im_run_subseq:
  "subseq (decided (fst (im_run ps s)) @ im_queue (snd (im_run ps s))) (im_queue s @ intercepted ps)"
proof (induction ps arbitrary: s)
  case (Cons p ps)
  obtain e s' where st: "im_step p s = (e, s')" by (cases "im_step p s")
  obtain es s'' where rn: "im_run ps s' = (es, s'')" by (cases "im_run ps s'")
  have i: "intercepted (p # ps) = intercepted [p] @ intercepted ps" by (cases p) simp_all
  have "subseq (decided e @ im_queue s') (im_queue s @ intercepted [p])"
    using im_step_queue [of p s] st by (cases p) (simp_all add: subseq_filter_left)
  moreover have "subseq (decided es @ im_queue s'') (im_queue s' @ intercepted ps)"
    using Cons [of s'] rn by simp
  ultimately have "subseq ((decided e @ im_queue s') @ intercepted ps)
      ((im_queue s @ intercepted [p]) @ intercepted ps)"
    and "subseq (decided e @ decided es @ im_queue s'') (decided e @ im_queue s' @ intercepted ps)"
    by (blast intro: list_emb_append_mono subseq_order.refl)+
  then have "subseq (decided e @ decided es @ im_queue s'')
      ((im_queue s @ intercepted [p]) @ intercepted ps)"
    by (simp only: append.assoc)
  then show ?case by (simp add: st rn i)
qed simp

section \<open>The gate interface\<close>

text \<open>
  What a session relies on when it pauses a request at a gate: decisions only concern items that
  are pending, and items only become pending by being submitted. Hence an item that is neither
  pending nor submitted again is never decided, which is why withdrawing it is safe.
\<close>

locale pending_gate =
  fixes step :: "'op \<Rightarrow> 's \<Rightarrow> 'e \<times> 's"
    and pending :: "'s \<Rightarrow> int set"
    and submits :: "'op \<Rightarrow> int set"
    and decides :: "'e \<Rightarrow> int set"
  assumes decides_pending: "decides (fst (step p s)) \<subseteq> pending s"
    and pending_step: "pending (snd (step p s)) \<subseteq> pending s \<union> submits p"
begin

fun gate_run :: "'op list \<Rightarrow> 's \<Rightarrow> 'e list \<times> 's" where
  "gate_run [] s = ([], s)"
| "gate_run (p # ps) s =
     (case step p s of (e, s') \<Rightarrow> (case gate_run ps s' of (es, s'') \<Rightarrow> (e # es, s'')))"

lemma not_decided_again:
  "i \<notin> pending s \<Longrightarrow> \<forall>p \<in> set ps. i \<notin> submits p \<Longrightarrow>
   (\<forall>e \<in> set (fst (gate_run ps s)). i \<notin> decides e) \<and> i \<notin> pending (snd (gate_run ps s))"
proof (induction ps arbitrary: s)
  case (Cons p ps)
  obtain e s' where st: "step p s = (e, s')" by (cases "step p s")
  have "i \<notin> decides e" "i \<notin> pending s'"
    using Cons.prems decides_pending [of p s] pending_step [of p s] st by auto
  with Cons st show ?case by (cases "gate_run ps s'") force
qed simp

end

definition item_ids :: "intercepted_request list \<Rightarrow> int set" where
  "item_ids xs = it_id ` set xs"

definition op_ids :: "im_op \<Rightarrow> int set" where
  "op_ids p = item_ids (intercepted [p])"

interpretation gate: pending_gate im_step "\<lambda>s. item_ids (im_queue s)" op_ids "\<lambda>e. item_ids (decided e)"
proof
  fix p s
  have "set (decided (fst (im_step p s))) \<subseteq> set (im_queue s)"
  proof (cases p)
    case (OpRemove i)
    then show ?thesis by (simp add: removeById_def Let_def)
  qed (auto simp: im_defs Let_def split: list.splits)
  then show "item_ids (decided (fst (im_step p s))) \<subseteq> item_ids (im_queue s)"
    by (auto simp: item_ids_def)
  have "set (im_queue (snd (im_step p s))) \<subseteq> set (im_queue s) \<union> set (intercepted [p])"
    using arg_cong [OF im_step_queue [of p s], of set] by (cases p) auto
  then show "item_ids (im_queue (snd (im_step p s))) \<subseteq> item_ids (im_queue s) \<union> op_ids p"
    by (auto simp: item_ids_def op_ids_def)
qed

lemma gate_run_im_run:
  "fst (im_run ps s) = concat (fst (gate.gate_run ps s)) \<and> snd (im_run ps s) = snd (gate.gate_run ps s)"
proof (induction ps arbitrary: s)
  case (Cons p ps)
  obtain e s' where "im_step p s = (e, s')" by (cases "im_step p s")
  with Cons [of s'] show ?case
    by (cases "im_run ps s'"; cases "gate.gate_run ps s'") simp
qed simp

lemma decided_concat: "set (decided (concat ess)) = (\<Union>e \<in> set ess. set (decided e))"
  by (induction ess) auto

section \<open>Properties\<close>

text \<open>
  C8: Every intercepted request has exactly one fate. Over any sequence of operations, the requests
  queued at the start and those intercepted during the run are, as a multiset, the ones decided,
  the ones removed and the ones still queued; and decisions, followed by the queue, follow the
  order of interception.
\<close>
theorem intercept_conservation:
  "mset (im_queue s) + mset (intercepted ps) =
     mset (decided (fst (im_run ps s))) + mset (removed ps s) + mset (im_queue (snd (im_run ps s)))
   \<and> subseq (decided (fst (im_run ps s)) @ im_queue (snd (im_run ps s))) (im_queue s @ intercepted ps)"
  using im_run_mset im_run_subseq by blast

text \<open>
  Switching interception off forwards every pending request, in queue order and once each,
  leaves the queue empty and the flag off, and notifies the interface afterwards.
\<close>
theorem disable_forwards_all:
  "setInterceptEnabled False s =
     (map (\<lambda>item. Decide item Forward) (im_queue s) @ notify_effect s,
      s\<lparr>im_enabled := False, im_queue := []\<rparr>)"
  by (simp add: im_defs Let_def notify_effect_def)

text \<open>
  Withdrawing a request is final: after \<open>removeById(i)\<close>, which calls no decision callback, no
  further sequence of operations calls the callback of a request with id \<open>i\<close>, unless one is
  intercepted anew.
\<close>
theorem removed_never_decided:
  assumes "\<forall>p \<in> set ps. i \<notin> it_id ` set (intercepted [p])"
  shows "decided (fst (removeById i s)) = []
    \<and> i \<notin> it_id ` set (decided (fst (im_run ps (snd (removeById i s)))))
    \<and> i \<notin> it_id ` set (im_queue (snd (im_run ps (snd (removeById i s)))))"
proof -
  let ?s = "snd (removeById i s)"
  have "i \<notin> item_ids (im_queue ?s)" by (auto simp: removeById_queue item_ids_def)
  from gate.not_decided_again [OF this] assms
  have "(\<forall>e \<in> set (fst (gate.gate_run ps ?s)). i \<notin> item_ids (decided e))
      \<and> i \<notin> item_ids (im_queue (snd (gate.gate_run ps ?s)))"
    by (simp add: op_ids_def item_ids_def)
  then show ?thesis
    by (auto simp: gate_run_im_run decided_concat item_ids_def removeById_def Let_def)
qed

theorem removed_never_decided_witness:
  "let s = snd (interceptRequest 7 False ''h'' 80 HttpRequest InterceptManager);
       ps = [OpIntercept 8 False ''h'' 80 HttpRequest, OpForwardAll]
   in it_id ` set (im_queue s) = {7} \<and> 7 \<notin> it_id ` set (decided (fst (im_run ps (snd (removeById 7 s)))))
      \<and> it_id ` set (decided (fst (im_run ps (snd (removeById 7 s))))) = {8}"
proof -
  let ?ps = "[OpIntercept 8 False ''h'' 80 HttpRequest, OpForwardAll]"
  have "\<forall>p \<in> set ?ps. (7::int) \<notin> it_id ` set (intercepted [p])" by simp
  from removed_never_decided [OF this] show ?thesis
    by (simp add: Let_def im_defs InterceptManager_def notify_effect_def)
qed

text \<open>
  The check and the enqueueing are separate steps, and interception can be switched off in
  between: a session that saw interception on and enqueues its request after the user switched it
  off leaves that request in the queue, undecided, while interception is off.
\<close>
theorem toggle_race_strands_request:
  "isInterceptEnabled (snd (setInterceptEnabled True s))
   \<and> (let s1 = snd (setInterceptEnabled False (snd (setInterceptEnabled True s)));
          (es, s2) = interceptRequest i h host port r s1
      in \<not> isInterceptEnabled s2 \<and> decided es = [] \<and> pendingCount s2 = 1
         \<and> map it_id (im_queue s2) = [i])"
  by (simp add: im_defs Let_def isInterceptEnabled_def pendingCount_def)

end
