(* ===== verification/CertCache.thy ===== *)
theory CertCache
  imports Prelude
begin

text \<open>
  The certificate cache of \<open>src/src/proxy/CertCache.cpp\<close>. The usage list is a list of nodes with
  identities, because cache items hold iterators into it; \<open>lruList_.erase(it)\<close> removes the node an
  iterator designates. Every method body between taking and releasing the lock is one step:
  \<open>getEntry\<close> consists of two, the lookup under the shared lock and the minting path under the
  exclusive lock, between which other threads may run.

  The certificate generator and the OpenSSL calls are parameters: \<open>gen h\<close> is the key pair that
  \<open>CertGenerator::generate\<close> returns for host \<open>h\<close> at the time of the call (keys are random, so a
  later call may return another), and \<open>ssl\<close> says which chains and keys load into a context.
\<close>

section \<open>State\<close>

record cert_key_pair =
  certPem :: string
  keyPem :: string

text \<open>
  A server context as \<open>createSslContext\<close> configures it: its options, the chain and key loaded into
  it, the protocols set for ALPN and the protocols its selection callback offers.
\<close>

datatype ssl_option = Default_workarounds | No_sslv2 | No_sslv3 | Single_dh_use

record ssl_context =
  sc_options :: "ssl_option list"
  sc_chain :: string
  sc_key :: string
  sc_alpn_protos :: string
  sc_select_protos :: string

text \<open>What OpenSSL answers: whether a PEM chain loads, whether a key loads beside it.\<close>

record ssl_lib =
  use_certificate_chain :: "string \<Rightarrow> bool"
  use_private_key :: "string \<Rightarrow> string \<Rightarrow> bool"

record cache_item =
  ci_keyPair :: cert_key_pair
  ci_context :: "ssl_context option"
  ci_lruIt :: nat

type_synonym cache_entry = "cert_key_pair \<times> ssl_context option"

record cert_cache =
  cc_maxEntries :: nat
  cc_lruList :: "(nat \<times> string) list"
  cc_nextNode :: nat
  cc_cache :: "(string \<times> cache_item) list"

definition empty_pair :: cert_key_pair where
  "empty_pair = \<lparr>certPem = [], keyPem = []\<rparr>"

definition CertCache :: "nat \<Rightarrow> cert_cache" where
  "CertCache n = \<lparr>cc_maxEntries = n, cc_lruList = [], cc_nextNode = 0, cc_cache = []\<rparr>"

definition item_entry :: "cache_item \<Rightarrow> cache_entry" where
  "item_entry it = (ci_keyPair it, ci_context it)"

section \<open>Operations\<close>

text \<open>\<open>push_front\<close> on the usage list, and the promotion of a cached host to its front.\<close>

definition lru_push_front :: "string \<Rightarrow> cert_cache \<Rightarrow> cert_cache" where
  "lru_push_front h c = c\<lparr>cc_lruList := (cc_nextNode c, h) # cc_lruList c, cc_nextNode := Suc (cc_nextNode c)\<rparr>"

definition lru_erase :: "nat \<Rightarrow> cert_cache \<Rightarrow> cert_cache" where
  "lru_erase i c = c\<lparr>cc_lruList := filter (\<lambda>n. fst n \<noteq> i) (cc_lruList c)\<rparr>"

definition set_lruIt :: "string \<Rightarrow> nat \<Rightarrow> cert_cache \<Rightarrow> cert_cache" where
  "set_lruIt h i c =
     c\<lparr>cc_cache := map (\<lambda>e. (fst e, if fst e = h then (snd e)\<lparr>ci_lruIt := i\<rparr> else snd e)) (cc_cache c)\<rparr>"

definition promote :: "string \<Rightarrow> cache_item \<Rightarrow> cert_cache \<Rightarrow> cert_cache" where
  "promote h it c =
     (let c1 = lru_erase (ci_lruIt it) c
      in set_lruIt h (cc_nextNode c1) (lru_push_front h c1))"

definition alpnProtos :: string where
  "alpnProtos = CHR 0x08 # ''http/1.1''"

definition createSslContext :: "ssl_lib \<Rightarrow> cert_key_pair \<Rightarrow> ssl_context option" where
  "createSslContext ssl pair =
     (if certPem pair = [] \<or> keyPem pair = [] then None
      else if \<not> use_certificate_chain ssl (certPem pair) then None
      else if \<not> use_private_key ssl (certPem pair) (keyPem pair) then None
      else Some \<lparr>sc_options = [Default_workarounds, No_sslv2, No_sslv3, Single_dh_use],
                 sc_chain = certPem pair, sc_key = keyPem pair,
                 sc_alpn_protos = alpnProtos, sc_select_protos = alpnProtos\<rparr>)"

definition getEntry_shared :: "string \<Rightarrow> cert_cache \<Rightarrow> cache_entry option" where
  "getEntry_shared h c = map_option item_entry (map_of (cc_cache c) h)"

definition evict_oldest :: "cert_cache \<Rightarrow> cert_cache" where
  "evict_oldest c =
     (if cc_maxEntries c > 0 \<and> length (cc_cache c) \<ge> cc_maxEntries c \<and> cc_lruList c \<noteq> []
      then let oldest = snd (last (cc_lruList c))
           in c\<lparr>cc_lruList := butlast (cc_lruList c),
                cc_cache := filter (\<lambda>e. fst e \<noteq> oldest) (cc_cache c)\<rparr>
      else c)"

definition insert_entry :: "string \<Rightarrow> cert_key_pair \<Rightarrow> ssl_context option \<Rightarrow> cert_cache \<Rightarrow> cert_cache" where
  "insert_entry h pair ctx c =
     (if cc_maxEntries c > 0
      then let c1 = lru_push_front h c;
               it = \<lparr>ci_keyPair = pair, ci_context = ctx, ci_lruIt = cc_nextNode c\<rparr>
           in if map_of (cc_cache c1) h = None then c1\<lparr>cc_cache := (h, it) # cc_cache c1\<rparr> else c1
      else c)"

definition getEntry_exclusive ::
  "(string \<Rightarrow> cert_key_pair) \<Rightarrow> ssl_lib \<Rightarrow> string \<Rightarrow> cert_cache
     \<Rightarrow> cache_entry \<times> cert_cache" where
  "getEntry_exclusive gen ssl h c =
     (case map_of (cc_cache c) h of
        Some it \<Rightarrow> (item_entry it, promote h it c)
      | None \<Rightarrow>
          let pair = gen h
          in if certPem pair = [] \<or> keyPem pair = [] then ((pair, None), c)
             else let ctx = createSslContext ssl pair
                  in ((pair, ctx), insert_entry h pair ctx (evict_oldest c)))"

definition getEntry ::
  "(string \<Rightarrow> cert_key_pair) \<Rightarrow> ssl_lib \<Rightarrow> string \<Rightarrow> cert_cache
     \<Rightarrow> cache_entry \<times> cert_cache" where
  "getEntry gen ssl h c =
     (if h = [] then ((empty_pair, None), c)
      else case getEntry_shared h c of
             Some e \<Rightarrow> (e, c)
           | None \<Rightarrow> getEntry_exclusive gen ssl h c)"

definition getContext ::
  "(string \<Rightarrow> cert_key_pair) \<Rightarrow> ssl_lib \<Rightarrow> string \<Rightarrow> cert_cache
     \<Rightarrow> ssl_context option \<times> cert_cache" where
  "getContext gen ssl h c = (case getEntry gen ssl h c of ((_, ctx), c') \<Rightarrow> (ctx, c'))"

definition get_pair ::
  "(string \<Rightarrow> cert_key_pair) \<Rightarrow> ssl_lib \<Rightarrow> string \<Rightarrow> cert_cache
     \<Rightarrow> cert_key_pair \<times> cert_cache" where
  "get_pair gen ssl h c = (case getEntry gen ssl h c of ((pair, _), c') \<Rightarrow> (pair, c'))"

definition contains :: "string \<Rightarrow> cert_cache \<Rightarrow> bool" where
  "contains h c \<longleftrightarrow> map_of (cc_cache c) h \<noteq> None"

definition cache_size :: "cert_cache \<Rightarrow> nat" where
  "cache_size c = length (cc_cache c)"

definition cache_clear :: "cert_cache \<Rightarrow> cert_cache" where
  "cache_clear c = c\<lparr>cc_cache := [], cc_lruList := []\<rparr>"

definition touch :: "string \<Rightarrow> cert_cache \<Rightarrow> cert_cache" where
  "touch h c = (case map_of (cc_cache c) h of Some it \<Rightarrow> promote h it c | None \<Rightarrow> c)"

section \<open>Runs: critical sections in any order\<close>

datatype cache_op =
    CcExclusive string "string \<Rightarrow> cert_key_pair" ssl_lib
  | CcTouch string
  | CcClear

fun cc_step :: "cache_op \<Rightarrow> cert_cache \<Rightarrow> cert_cache" where
  "cc_step (CcExclusive h gen ssl) c = snd (getEntry_exclusive gen ssl h c)"
| "cc_step (CcTouch h) c = touch h c"
| "cc_step CcClear c = cache_clear c"

section \<open>Invariant\<close>

text \<open>
  The usage list and the table hold the same hosts, once each; every iterator designates the node of
  its host, node identities are unique, and the table respects the bound.
\<close>

definition cc_inv :: "cert_cache \<Rightarrow> bool" where
  "cc_inv c \<longleftrightarrow> distinct (map fst (cc_lruList c)) \<and> distinct (map snd (cc_lruList c))
     \<and> distinct (map fst (cc_cache c))
     \<and> (\<forall>n \<in> set (cc_lruList c). fst n < cc_nextNode c)
     \<and> snd ` set (cc_lruList c) = fst ` set (cc_cache c)
     \<and> (\<forall>e \<in> set (cc_cache c). (ci_lruIt (snd e), fst e) \<in> set (cc_lruList c))
     \<and> length (cc_cache c) \<le> cc_maxEntries c"

lemma cc_inv_init: "cc_inv (CertCache n)"
  by (simp add: cc_inv_def CertCache_def)

lemma cc_inv_clear: "cc_inv c \<Longrightarrow> cc_inv (cache_clear c)"
  by (simp add: cc_inv_def cache_clear_def)

lemma cc_lengths:
  assumes "cc_inv c"
  shows "length (cc_lruList c) = length (cc_cache c)"
proof -
  have "length (map snd (cc_lruList c)) = card (snd ` set (cc_lruList c))"
    using assms distinct_card [of "map snd (cc_lruList c)"] by (simp add: cc_inv_def)
  also have "\<dots> = card (fst ` set (cc_cache c))" using assms by (simp add: cc_inv_def)
  also have "\<dots> = length (map fst (cc_cache c))"
    using assms distinct_card [of "map fst (cc_cache c)"] by (simp add: cc_inv_def)
  finally show ?thesis by simp
qed

lemma map_of_filter_key:
  "map_of (filter (\<lambda>e. fst e \<noteq> k) xs) h = (if h = k then None else map_of xs h)"
  by (induction xs) auto

lemma unique_node:
  assumes "distinct (map fst ns)" "distinct (map snd ns)" "(i, h) \<in> set ns" "n \<in> set ns"
  shows "fst n = i \<longleftrightarrow> snd n = h"
  using assms by (metis (no_types, lifting) distinct_map inj_onD fst_conv snd_conv)

lemma item_node: "cc_inv c \<Longrightarrow> map_of (cc_cache c) h = Some it \<Longrightarrow> (ci_lruIt it, h) \<in> set (cc_lruList c)"
  by (auto simp: cc_inv_def dest: map_of_SomeD)

lemma erase_node:
  assumes "cc_inv c" "map_of (cc_cache c) h = Some it"
  shows "filter (\<lambda>n. fst n \<noteq> ci_lruIt it) (cc_lruList c) = filter (\<lambda>n. snd n \<noteq> h) (cc_lruList c)"
  using assms item_node [OF assms]
  by (intro filter_cong refl) (auto simp: cc_inv_def dest: unique_node)

lemma promote_lru:
  assumes "cc_inv c" "map_of (cc_cache c) h = Some it"
  shows "cc_lruList (promote h it c) = (cc_nextNode c, h) # filter (\<lambda>n. snd n \<noteq> h) (cc_lruList c)"
    "cc_cache (promote h it c) =
       map (\<lambda>e. (fst e, if fst e = h then (snd e)\<lparr>ci_lruIt := cc_nextNode c\<rparr> else snd e)) (cc_cache c)"
    "cc_nextNode (promote h it c) = Suc (cc_nextNode c)"
    "cc_maxEntries (promote h it c) = cc_maxEntries c"
  using erase_node [OF assms]
  by (simp_all add: promote_def Let_def lru_erase_def lru_push_front_def set_lruIt_def)

lemma image_insert_key: "h \<in> f ` S \<Longrightarrow> insert h (f ` {x \<in> S. f x \<noteq> h}) = f ` S"
  by auto

lemma cc_inv_promote:
  assumes inv: "cc_inv c" and it: "map_of (cc_cache c) h = Some it"
  shows "cc_inv (promote h it c)"
proof -
  note p = promote_lru [OF assms]
  have keys: "map fst (cc_cache (promote h it c)) = map fst (cc_cache c)"
    by (simp add: p(2) o_def)
  have dom: "fst ` set (cc_cache (promote h it c)) = fst ` set (cc_cache c)"
    using arg_cong [OF keys, of set] by simp
  from it have h: "h \<in> fst ` set (cc_cache c)" by (metis image_eqI fst_conv map_of_SomeD)
  have hosts: "snd ` set (cc_lruList (promote h it c)) = snd ` set (cc_lruList c)"
    using image_insert_key [of h snd "set (cc_lruList c)"] inv h by (simp add: p(1) cc_inv_def)
  have "\<forall>e \<in> set (cc_cache (promote h it c)). (ci_lruIt (snd e), fst e) \<in> set (cc_lruList (promote h it c))"
    using inv by (auto simp: p(1,2) cc_inv_def)
  moreover have "distinct (map fst (cc_lruList (promote h it c)))"
    "distinct (map snd (cc_lruList (promote h it c)))"
    using inv by (auto simp: p(1) cc_inv_def distinct_map intro: inj_on_subset)
  moreover have "\<forall>n \<in> set (cc_lruList (promote h it c)). fst n < cc_nextNode (promote h it c)"
    using inv by (auto simp: p(1,3) cc_inv_def)
  moreover have "length (cc_cache (promote h it c)) \<le> cc_maxEntries (promote h it c)"
    using inv by (simp add: p(2,4) cc_inv_def)
  ultimately show ?thesis using inv unfolding cc_inv_def keys hosts dom by blast
qed

lemma cc_inv_touch: "cc_inv c \<Longrightarrow> cc_inv (touch h c)"
  by (auto simp: touch_def cc_inv_promote split: option.splits)

text \<open>Eviction removes the last host from both containers and makes room.\<close>

lemma evict_cases:
  assumes inv: "cc_inv c"
  obtains (keep) "evict_oldest c = c" "cc_maxEntries c = 0 \<or> length (cc_cache c) < cc_maxEntries c"
  | (drop) ns n where "cc_maxEntries c > 0" "length (cc_cache c) = cc_maxEntries c"
      "cc_lruList c = ns @ [n]"
      "evict_oldest c = c\<lparr>cc_lruList := ns, cc_cache := filter (\<lambda>e. fst e \<noteq> snd n) (cc_cache c)\<rparr>"
proof (cases "cc_maxEntries c > 0 \<and> length (cc_cache c) \<ge> cc_maxEntries c")
  case True
  then have "cc_lruList c \<noteq> []" using cc_lengths [OF inv] by auto
  then obtain ns n where "cc_lruList c = ns @ [n]" by (cases "cc_lruList c" rule: rev_cases) auto
  with True inv that(2) show thesis by (simp add: evict_oldest_def Let_def cc_inv_def)
next
  case False
  then show thesis using that(1) by (auto simp: evict_oldest_def)
qed

lemma cc_inv_evict:
  assumes inv: "cc_inv c"
  shows "cc_inv (evict_oldest c)"
  using inv
proof (cases rule: evict_cases)
  case (drop ns n)
  have lru: "cc_lruList c = ns @ [n]" by fact
  have n: "snd n \<notin> snd ` set ns" "fst ` set (cc_cache c) = insert (snd n) (snd ` set ns)"
    using inv by (auto simp: cc_inv_def lru)
  have "fst ` {e \<in> set (cc_cache c). fst e \<noteq> snd n} = fst ` set (cc_cache c) - {snd n}" by auto
  also have "\<dots> = snd ` set ns" unfolding n(2) using n(1) by (rule Diff_insert_absorb)
  finally have dom: "fst ` {e \<in> set (cc_cache c). fst e \<noteq> snd n} = snd ` set ns" .
  have its: "(ci_lruIt (snd e), fst e) \<in> set ns"
    if "e \<in> set (cc_cache c)" "fst e \<noteq> snd n" for e
    using inv that by (fastforce simp: cc_inv_def lru)
  have len: "length (filter (\<lambda>e. fst e \<noteq> snd n) (cc_cache c)) \<le> cc_maxEntries c"
    by (rule le_trans [OF length_filter_le]) (use inv in \<open>simp add: cc_inv_def\<close>)
  have "distinct (map fst ns)" "distinct (map snd ns)" "distinct (map fst (cc_cache c))"
    "\<forall>m \<in> set ns. fst m < cc_nextNode c"
    using inv by (simp_all add: cc_inv_def lru)
  with its len dom show ?thesis
    unfolding drop(4) cc_inv_def by (simp add: distinct_map_filter)
qed (simp add: inv)

lemma cc_inv_insert:
  assumes inv: "cc_inv c" and new: "map_of (cc_cache c) h = None"
    and room: "cc_maxEntries c = 0 \<or> length (cc_cache c) < cc_maxEntries c"
  shows "cc_inv (insert_entry h pair ctx c)"
proof -
  have "h \<notin> fst ` set (cc_cache c)" using new by (simp add: map_of_eq_None_iff)
  moreover from this have "h \<notin> snd ` set (cc_lruList c)" using inv by (simp add: cc_inv_def)
  moreover have "cc_nextNode c \<notin> fst ` set (cc_lruList c)" using inv by (auto simp: cc_inv_def)
  ultimately show ?thesis
    using inv new room
    by (auto simp: cc_inv_def insert_entry_def lru_push_front_def Let_def less_Suc_eq)
qed

lemma evict_room:
  assumes "cc_inv c"
  shows "cc_maxEntries (evict_oldest c) = cc_maxEntries c"
    "cc_maxEntries c = 0 \<or> length (cc_cache (evict_oldest c)) < cc_maxEntries c"
    "map_of (cc_cache c) h = None \<Longrightarrow> map_of (cc_cache (evict_oldest c)) h = None"
proof -
  have "cc_maxEntries (evict_oldest c) = cc_maxEntries c
    \<and> (cc_maxEntries c = 0 \<or> length (cc_cache (evict_oldest c)) < cc_maxEntries c)
    \<and> (map_of (cc_cache c) h = None \<longrightarrow> map_of (cc_cache (evict_oldest c)) h = None)"
    using assms
  proof (cases rule: evict_cases)
    case (drop ns n)
    have "snd n \<in> fst ` set (cc_cache c)" using assms drop(3) by (auto simp: cc_inv_def)
    then have "length (filter (\<lambda>e. fst e \<noteq> snd n) (cc_cache c)) < length (cc_cache c)"
      by (auto intro!: length_filter_less)
    with drop show ?thesis by (simp add: map_of_filter_key)
  qed simp
  then show "cc_maxEntries (evict_oldest c) = cc_maxEntries c"
    "cc_maxEntries c = 0 \<or> length (cc_cache (evict_oldest c)) < cc_maxEntries c"
    "map_of (cc_cache c) h = None \<Longrightarrow> map_of (cc_cache (evict_oldest c)) h = None" by blast+
qed

lemma cc_inv_exclusive: "cc_inv c \<Longrightarrow> cc_inv (snd (getEntry_exclusive gen ssl h c))"
  using evict_room [of c]
  by (auto simp: getEntry_exclusive_def Let_def cc_inv_promote cc_inv_evict cc_inv_insert
      split: option.splits)

lemma cc_inv_step: "cc_inv c \<Longrightarrow> cc_inv (cc_step p c)"
  by (cases p) (simp_all add: cc_inv_exclusive cc_inv_touch cc_inv_clear)

lemma cc_max_step: "cc_inv c \<Longrightarrow> cc_maxEntries (cc_step p c) = cc_maxEntries c"
  by (cases p) (auto simp: getEntry_exclusive_def Let_def promote_lru(4) evict_room(1) touch_def
      insert_entry_def lru_push_front_def cache_clear_def split: option.splits)

lemma cc_inv_run: "cc_inv c \<Longrightarrow> cc_inv (fold cc_step ps c) \<and> cc_maxEntries (fold cc_step ps c) = cc_maxEntries c"
  by (induction ps arbitrary: c) (simp_all add: cc_inv_step cc_max_step)

section \<open>Abstract view: the cached hosts in usage order\<close>

definition cc_view :: "cert_cache \<Rightarrow> (string \<times> cache_entry) list" where
  "cc_view c = map (\<lambda>n. (snd n, item_entry (the (map_of (cc_cache c) (snd n))))) (cc_lruList c)"

definition view_touch :: "string \<Rightarrow> (string \<times> cache_entry) list \<Rightarrow> (string \<times> cache_entry) list" where
  "view_touch h xs =
     (case map_of xs h of Some e \<Rightarrow> (h, e) # filter (\<lambda>x. fst x \<noteq> h) xs | None \<Rightarrow> xs)"

text \<open>
  What \<open>getEntry\<close> does to the view: a hit changes nothing, a miss with a usable pair prepends the new
  entry and cuts the list at the bound.
\<close>

definition view_mint ::
  "(string \<Rightarrow> cert_key_pair) \<Rightarrow> ssl_lib \<Rightarrow> nat \<Rightarrow> string \<Rightarrow> (string \<times> cache_entry) list
     \<Rightarrow> cache_entry \<times> (string \<times> cache_entry) list" where
  "view_mint gen ssl n h xs =
     (let pair = gen h; e = (pair, createSslContext ssl pair)
      in if certPem pair = [] \<or> keyPem pair = [] then ((pair, None), xs)
         else (e, take n ((h, e) # xs)))"

definition view_getEntry ::
  "(string \<Rightarrow> cert_key_pair) \<Rightarrow> ssl_lib \<Rightarrow> nat \<Rightarrow> string \<Rightarrow> (string \<times> cache_entry) list
     \<Rightarrow> cache_entry \<times> (string \<times> cache_entry) list" where
  "view_getEntry gen ssl n h xs =
     (if h = [] then ((empty_pair, None), xs)
      else case map_of xs h of Some e \<Rightarrow> (e, xs) | None \<Rightarrow> view_mint gen ssl n h xs)"

lemma map_of_keyed: "map_of (map (\<lambda>n. (snd n, f (snd n))) ns) h = (if h \<in> snd ` set ns then Some (f h) else None)"
  by (induction ns) auto

lemma cc_view_lookup:
  assumes "cc_inv c"
  shows "map_of (cc_view c) h = map_option item_entry (map_of (cc_cache c) h)"
proof -
  have "h \<in> snd ` set (cc_lruList c) \<longleftrightarrow> map_of (cc_cache c) h \<noteq> None"
    using assms by (simp add: cc_inv_def map_of_eq_None_iff)
  then show ?thesis
    unfolding cc_view_def map_of_keyed [where f = "\<lambda>k. item_entry (the (map_of (cc_cache c) k))"] by auto
qed

lemma cc_view_length: "cc_inv c \<Longrightarrow> length (cc_view c) \<le> cc_maxEntries c"
  using cc_lengths [of c] by (simp add: cc_view_def cc_inv_def)

lemma map_of_map_item:
  "map_of (map (\<lambda>e. (fst e, if fst e = h then g (snd e) else snd e)) xs) k
     = (if k = h then map_option g (map_of xs k) else map_of xs k)"
  by (induction xs) auto

lemma cc_view_promote:
  assumes "cc_inv c" "map_of (cc_cache c) h = Some it"
  shows "cc_view (promote h it c) = view_touch h (cc_view c)"
proof -
  have look: "map_of (cc_cache (promote h it c)) k =
      (if k = h then Some (it\<lparr>ci_lruIt := cc_nextNode c\<rparr>) else map_of (cc_cache c) k)" for k
    using assms(2) by (simp add: promote_lru(2) [OF assms] map_of_map_item)
  have "cc_view (promote h it c) = (h, item_entry it) # filter (\<lambda>x. fst x \<noteq> h) (cc_view c)"
    by (simp add: cc_view_def promote_lru(1) [OF assms] look item_entry_def filter_map o_def)
  then show ?thesis
    by (simp add: view_touch_def cc_view_lookup [OF assms(1)] assms(2))
qed

lemma cc_view_touch: "cc_inv c \<Longrightarrow> cc_view (touch h c) = view_touch h (cc_view c)"
  by (auto simp: touch_def cc_view_promote view_touch_def cc_view_lookup split: option.splits)

lemma cc_view_evict:
  assumes "cc_inv c" "cc_maxEntries c > 0"
  shows "cc_view (evict_oldest c) = take (cc_maxEntries c - 1) (cc_view c)"
  using assms(1)
proof (cases rule: evict_cases)
  case keep
  then show ?thesis using assms cc_lengths [OF assms(1)] by (auto simp: cc_view_def)
next
  case (drop ns n)
  have "snd n \<notin> snd ` set ns" using assms(1) by (simp add: cc_inv_def drop(3))
  then have "cc_view (evict_oldest c) = butlast (cc_view c)"
    unfolding drop(4) by (auto simp: cc_view_def drop(3) map_of_filter_key image_iff)
  moreover have "length (cc_view c) = cc_maxEntries c"
    using cc_lengths [OF assms(1)] drop(2) by (simp add: cc_view_def)
  ultimately show ?thesis by (simp add: butlast_conv_take)
qed

lemma cc_view_insert:
  assumes "cc_inv c" "map_of (cc_cache c) h = None" "cc_maxEntries c > 0"
  shows "cc_view (insert_entry h pair ctx c) = (h, (pair, ctx)) # cc_view c"
proof -
  have "h \<notin> snd ` set (cc_lruList c)" using assms(1,2) by (simp add: cc_inv_def map_of_eq_None_iff)
  then show ?thesis
    using assms(2,3)
    by (auto simp: cc_view_def insert_entry_def lru_push_front_def Let_def item_entry_def)
qed

lemma cc_view_empty_bound: "cc_inv c \<Longrightarrow> cc_maxEntries c = 0 \<Longrightarrow> cc_view c = []"
  using cc_view_length [of c] by simp

lemma cc_view_mint:
  assumes "cc_inv c" "map_of (cc_cache c) h = None"
  shows "cc_view (insert_entry h pair ctx (evict_oldest c)) = take (cc_maxEntries c) ((h, (pair, ctx)) # cc_view c)"
proof (cases "cc_maxEntries c")
  case 0
  then have "insert_entry h pair ctx (evict_oldest c) = c" by (simp add: insert_entry_def evict_oldest_def)
  with 0 show ?thesis by (simp add: cc_view_empty_bound [OF assms(1)])
next
  case (Suc k)
  then show ?thesis
    using cc_view_insert [OF cc_inv_evict [OF assms(1)] evict_room(3) [OF assms]]
    by (simp add: evict_room(1) [OF assms(1)] cc_view_evict [OF assms(1)])
qed

lemma cc_view_clear: "cc_view (cache_clear c) = []"
  by (simp add: cc_view_def cache_clear_def)

lemma cc_view_exclusive:
  assumes "cc_inv c"
  shows "map_prod id cc_view (getEntry_exclusive gen ssl h c) =
    (case map_of (cc_view c) h of
       Some e \<Rightarrow> (e, view_touch h (cc_view c))
     | None \<Rightarrow> view_mint gen ssl (cc_maxEntries c) h (cc_view c))"
  by (cases "map_of (cc_cache c) h")
    (simp_all add: getEntry_exclusive_def Let_def cc_view_lookup [OF assms] cc_view_promote [OF assms]
      view_mint_def cc_view_mint [OF assms])

lemma cc_view_getEntry:
  assumes "cc_inv c"
  shows "map_prod id cc_view (getEntry gen ssl h c) = view_getEntry gen ssl (cc_maxEntries c) h (cc_view c)"
  using cc_view_exclusive [OF assms, of gen ssl h]
  by (cases "map_of (cc_cache c) h")
    (simp_all add: getEntry_def view_getEntry_def getEntry_shared_def cc_view_lookup [OF assms])

section \<open>What the sessions rely on\<close>

text \<open>
  A session asks for a context by host. The contract of a provider: a cached host is answered from
  the cache without a change, and a request moves what is cached back by at most one place.
\<close>

locale context_provider =
  fixes get :: "'g \<Rightarrow> string \<Rightarrow> 's \<Rightarrow> 'e \<times> 's"
    and pos :: "string \<Rightarrow> 'e \<Rightarrow> 's \<Rightarrow> nat \<Rightarrow> bool"
    and cap :: "'s \<Rightarrow> nat"
    and inv :: "'s \<Rightarrow> bool"
  assumes get_hit: "inv s \<Longrightarrow> pos h e s i \<Longrightarrow> h \<noteq> [] \<Longrightarrow> get g h s = (e, s)"
    and get_inv: "inv s \<Longrightarrow> inv (snd (get g h s))"
    and get_cap: "inv s \<Longrightarrow> cap (snd (get g h s)) = cap s"
    and get_pos: "inv s \<Longrightarrow> pos h e s i \<Longrightarrow> Suc i < cap s \<Longrightarrow> \<exists>j \<le> Suc i. pos h e (snd (get g k s)) j"
begin

lemma run_pos:
  "inv s \<Longrightarrow> pos h e s i \<Longrightarrow> i + length rs < cap s
     \<Longrightarrow> inv (fold (\<lambda>r s. snd (get (fst r) (snd r) s)) rs s)
        \<and> (\<exists>j. pos h e (fold (\<lambda>r s. snd (get (fst r) (snd r) s)) rs s) j)"
proof (induction rs arbitrary: s i)
  case (Cons r rs)
  from Cons.prems have "Suc i < cap s" by simp
  from get_pos [OF Cons.prems(1,2) this] obtain j
    where j: "j \<le> Suc i" "pos h e (snd (get (fst r) (snd r) s)) j" by blast
  show ?case
    using Cons.IH [OF get_inv [OF Cons.prems(1)] j(2)] j(1) Cons.prems
    by (simp add: get_cap)
qed auto

lemma kept:
  assumes "inv s" "pos h e s 0" "length rs < cap s" "h \<noteq> []"
  shows "fst (get g h (fold (\<lambda>r s. snd (get (fst r) (snd r) s)) rs s)) = e"
  using run_pos [OF assms(1,2)] assms(3,4) get_hit by fastforce

end

definition view_pos :: "string \<Rightarrow> cache_entry \<Rightarrow> cert_cache \<Rightarrow> nat \<Rightarrow> bool" where
  "view_pos h e c i \<longleftrightarrow> (\<exists>ys zs. cc_view c = ys @ (h, e) # zs \<and> length ys = i \<and> h \<notin> fst ` set ys)"

definition getEntry_env ::
  "(string \<Rightarrow> cert_key_pair) \<times> ssl_lib \<Rightarrow> string \<Rightarrow> cert_cache \<Rightarrow> cache_entry \<times> cert_cache" where
  "getEntry_env g h c = getEntry (fst g) (snd g) h c"

lemma contains_view: "cc_inv c \<Longrightarrow> contains h c = (h \<in> fst ` set (cc_view c))"
  using cc_view_lookup [of c h] map_of_eq_None_iff [of "cc_view c" h] by (auto simp: contains_def)

lemma cache_size_view: "cc_inv c \<Longrightarrow> cache_size c = length (cc_view c)"
  by (simp add: cache_size_def cc_lengths cc_view_def)

lemma view_pos_lookup:
  assumes "view_pos h e c i"
  shows "map_of (cc_view c) h = Some e"
proof -
  from assms obtain ys zs where "cc_view c = ys @ (h, e) # zs" "h \<notin> fst ` set ys"
    by (auto simp: view_pos_def)
  then show ?thesis using map_of_eq_None_iff [of ys h] by (simp add: map_add_def)
qed

lemma getEntry_hit: "cc_inv c \<Longrightarrow> map_of (cc_view c) h = Some e \<Longrightarrow> h \<noteq> [] \<Longrightarrow> getEntry gen ssl h c = (e, c)"
  by (auto simp: getEntry_def getEntry_shared_def cc_view_lookup)

lemma cc_inv_getEntry: "cc_inv c \<Longrightarrow> cc_inv (snd (getEntry gen ssl h c))"
  by (auto simp: getEntry_def cc_inv_exclusive split: option.splits)

lemma cc_max_getEntry: "cc_inv c \<Longrightarrow> cc_maxEntries (snd (getEntry gen ssl h c)) = cc_maxEntries c"
  using cc_max_step [of c "CcExclusive h gen ssl"] by (auto simp: getEntry_def split: option.splits)

lemma getEntry_view_cases:
  assumes "cc_inv c"
  shows "cc_view (snd (getEntry gen ssl k c)) = cc_view c
    \<or> map_of (cc_view c) k = None
      \<and> (\<exists>x. cc_view (snd (getEntry gen ssl k c)) = take (cc_maxEntries c) ((k, x) # cc_view c))"
  using arg_cong [OF cc_view_getEntry [OF assms], of snd gen ssl k]
  by (auto simp: view_getEntry_def view_mint_def Let_def split: option.splits if_splits)

lemma view_pos_getEntry:
  assumes "cc_inv c" "view_pos h e c i" "Suc i < cc_maxEntries c"
  shows "\<exists>j \<le> Suc i. view_pos h e (snd (getEntry gen ssl k c)) j"
  using getEntry_view_cases [OF assms(1), of gen ssl k]
proof (elim disjE conjE exE)
  assume "cc_view (snd (getEntry gen ssl k c)) = cc_view c"
  with assms(2) show ?thesis by (auto simp: view_pos_def intro!: exI [of _ i])
next
  fix x
  assume new: "map_of (cc_view c) k = None"
    and view: "cc_view (snd (getEntry gen ssl k c)) = take (cc_maxEntries c) ((k, x) # cc_view c)"
  from assms(2) obtain ys zs
    where ys: "cc_view c = ys @ (h, e) # zs" "length ys = i" "h \<notin> fst ` set ys"
    by (auto simp: view_pos_def)
  from assms(3) obtain m where "cc_maxEntries c = Suc (Suc (i + m))" by (metis add_Suc less_iff_Suc_add)
  with view ys have "cc_view (snd (getEntry gen ssl k c)) = ((k, x) # ys) @ (h, e) # take m zs" by simp
  moreover have "h \<notin> fst ` set ((k, x) # ys)" using new ys by auto
  ultimately have "view_pos h e (snd (getEntry gen ssl k c)) (Suc i)"
    unfolding view_pos_def using ys(2) by (metis length_Cons)
  then show ?thesis by blast
qed

interpretation certs: context_provider getEntry_env view_pos cc_maxEntries cc_inv
  by unfold_locales
    (simp_all add: getEntry_env_def getEntry_hit view_pos_lookup cc_inv_getEntry cc_max_getEntry
      view_pos_getEntry)

lemma cc_inv_reach: "cc_inv (fold cc_step ps (CertCache n))"
  using cc_inv_run [OF cc_inv_init] by blast

lemma cc_max_reach: "cc_maxEntries (fold cc_step ps (CertCache n)) = n"
  using cc_inv_run [OF cc_inv_init [of n], of ps] by (simp add: CertCache_def)

lemma getEntry_minted:
  assumes "cc_inv c" "h \<noteq> []" "cc_maxEntries c > 0" "certPem (gen h) \<noteq> []" "keyPem (gen h) \<noteq> []"
    "\<not> contains h c"
  shows "view_pos h (fst (getEntry gen ssl h c)) (snd (getEntry gen ssl h c)) 0"
proof -
  from assms have none: "map_of (cc_view c) h = None" by (simp add: contains_def cc_view_lookup)
  have v: "map_prod id cc_view (getEntry gen ssl h c) =
      ((gen h, createSslContext ssl (gen h)), take (cc_maxEntries c) ((h, gen h, createSslContext ssl (gen h)) # cc_view c))"
    unfolding cc_view_getEntry [OF assms(1)] using assms none
    by (simp add: view_getEntry_def view_mint_def Let_def)
  from assms(3) obtain m where "cc_maxEntries c = Suc m" by (cases "cc_maxEntries c") simp_all
  with v show ?thesis by (cases "getEntry gen ssl h c") (auto simp: view_pos_def)
qed

section \<open>Properties\<close>

text \<open>
  C24: After any sequence of critical sections of any threads (minting under the exclusive lock,
  touching, clearing) on a fresh cache, the usage list and the table agree, iterators are valid and
  the number of entries is at most the configured maximum.
\<close>
theorem cert_cache_consistent:
  "cc_inv (fold cc_step ps (CertCache n)) \<and> cache_size (fold cc_step ps (CertCache n)) \<le> n"
  using cc_inv_reach [of ps n] cc_max_reach [of ps n] by (simp add: cc_inv_def cache_size_def)


text \<open>
  A host minted by a request is answered with the same pair and context by later requests, as
  long as fewer requests than the maximum come between, whatever the generator would return then.
\<close>
theorem minted_entry_is_kept:
  assumes "h \<noteq> []" "certPem (gen h) \<noteq> []" "keyPem (gen h) \<noteq> []"
    and "\<not> contains h (fold cc_step ps (CertCache n))"
    and "length rs < n"
  shows "let r = getEntry gen ssl h (fold cc_step ps (CertCache n));
             c = fold (\<lambda>r c. snd (getEntry_env (fst r) (snd r) c)) rs (snd r)
         in fst (getEntry gen' ssl' h c) = fst r \<and> getContext gen' ssl' h c = (snd (fst r), c)"
proof -
  let ?c0 = "fold cc_step ps (CertCache n)"
  let ?r = "getEntry gen ssl h ?c0"
  have inv: "cc_inv (snd ?r)" by (simp add: cc_inv_getEntry cc_inv_reach)
  have pos: "view_pos h (fst ?r) (snd ?r) 0"
    using assms by (intro getEntry_minted) (simp_all add: cc_inv_reach cc_max_reach)
  have len: "0 + length rs < cc_maxEntries (snd ?r)"
    using assms(5) by (simp add: cc_max_getEntry cc_inv_reach cc_max_reach)
  note run = certs.run_pos [OF inv pos len]
  then have "getEntry gen' ssl' h (fold (\<lambda>r c. snd (getEntry_env (fst r) (snd r) c)) rs (snd ?r))
      = (fst ?r, fold (\<lambda>r c. snd (getEntry_env (fst r) (snd r) c)) rs (snd ?r))"
    using certs.get_hit [of _ h "fst ?r" _ "(gen', ssl')"] assms(1) unfolding getEntry_env_def by auto
  then show ?thesis by (simp add: getContext_def Let_def split: prod.splits)
qed

definition demo_gen :: "string \<Rightarrow> cert_key_pair" where
  "demo_gen h = \<lparr>certPem = ''c'' @ h, keyPem = ''k'' @ h\<rparr>"

definition demo_ssl :: ssl_lib where
  "demo_ssl = \<lparr>use_certificate_chain = (\<lambda>_. True), use_private_key = (\<lambda>_ _. True)\<rparr>"

lemma minted_entry_is_kept_witness:
  "let r = getEntry demo_gen demo_ssl ''a'' (fold cc_step [] (CertCache 2));
       c = fold (\<lambda>r c. snd (getEntry_env (fst r) (snd r) c)) [((demo_gen, demo_ssl), ''b'')] (snd r)
   in fst (getEntry (\<lambda>_. empty_pair) demo_ssl ''a'' c) = fst r \<and> getContext (\<lambda>_. empty_pair) demo_ssl ''a'' c = (snd (fst r), c)"
  by (rule minted_entry_is_kept) (simp_all add: demo_gen_def contains_def CertCache_def)

text \<open>
  Requests answered from the cache do not count as use: with room for two entries, requests
  for a, b, a, c evict a, although b was used least recently, and keep b.
\<close>
lemma cert_cache_hit_is_no_use:
  "let get = (\<lambda>h c. snd (getEntry demo_gen demo_ssl h c));
       c = get ''c'' (get ''a'' (get ''b'' (get ''a'' (CertCache 2))))
   in \<not> contains ''a'' c \<and> contains ''b'' c \<and> contains ''c'' c"
  by code_simp

end
