(* ===== verification/HttpParser.thy ===== *)
theory HttpParser
  imports HttpMessage
begin

text \<open>
  The incremental parser of \<open>src/src/http/HttpParser.cpp\<close>. It wraps llhttp, which is a parameter:
  \<open>ll_execute\<close> consumes a buffer in a parser state and answers with the callbacks it invokes, in
  order, an error code and its next state. What a callback reads from the \<open>llhttp_t\<close> it is given
  (method name, version numbers, status code) is an argument of its event. The callbacks themselves,
  the completion flag, the error handling and the handing over of finished messages are the code's.
\<close>

section \<open>The wrapped parser\<close>

datatype ll_event =
    OnMethod string
  | OnUrl string
  | OnStatus string
  | OnHeaderField string
  | OnHeaderValue string
  | OnBody string
  | OnMessageComplete string nat nat nat

datatype ll_errno = HPE_OK | HPE_PAUSED_UPGRADE | HPE_ERROR

record 'p llhttp =
  ll_init_request :: 'p
  ll_init_response :: 'p
  ll_execute :: "'p \<Rightarrow> string \<Rightarrow> ll_event list \<times> ll_errno \<times> 'p"

section \<open>State\<close>

text \<open>\<open>RequestParser\<close> and \<open>ResponseParser\<close> have the same members, but for the message they fill.\<close>

record ('p, 'm) message_parser =
  mp_parser :: 'p
  mp_message :: 'm
  mp_field :: string
  mp_value :: string
  mp_lastWasField :: bool
  mp_complete :: bool

type_synonym 'p request_parser = "('p, http_request) message_parser"
type_synonym 'p response_parser = "('p, http_response) message_parser"

record 'p http_parser =
  hp_request :: "'p request_parser"
  hp_response :: "'p response_parser"

definition RequestParser :: "'p llhttp \<Rightarrow> 'p request_parser" where
  "RequestParser ll = \<lparr>mp_parser = ll_init_request ll, mp_message = HttpRequest, mp_field = [],
     mp_value = [], mp_lastWasField = False, mp_complete = False\<rparr>"

definition ResponseParser :: "'p llhttp \<Rightarrow> 'p response_parser" where
  "ResponseParser ll = \<lparr>mp_parser = ll_init_response ll, mp_message = HttpResponse, mp_field = [],
     mp_value = [], mp_lastWasField = False, mp_complete = False\<rparr>"

definition HttpParser :: "'p llhttp \<Rightarrow> 'p http_parser" where
  "HttpParser ll = \<lparr>hp_request = RequestParser ll, hp_response = ResponseParser ll\<rparr>"

section \<open>Callbacks\<close>

definition push_rq_header :: "string \<times> string \<Rightarrow> http_request \<Rightarrow> http_request" where
  "push_rq_header h r = r\<lparr>rq_headers := rq_headers r @ [h]\<rparr>"

definition push_rs_header :: "string \<times> string \<Rightarrow> http_response \<Rightarrow> http_response" where
  "push_rs_header h r = r\<lparr>rs_headers := rs_headers r @ [h]\<rparr>"

definition commitHeader ::
  "(string \<times> string \<Rightarrow> 'm \<Rightarrow> 'm) \<Rightarrow> ('p, 'm) message_parser \<Rightarrow> ('p, 'm) message_parser" where
  "commitHeader push s =
     (if mp_field s \<noteq> []
      then s\<lparr>mp_message := push (mp_field s, mp_value s) (mp_message s), mp_field := [], mp_value := []\<rparr>
      else s)"

definition on_header_field ::
  "(string \<times> string \<Rightarrow> 'm \<Rightarrow> 'm) \<Rightarrow> string \<Rightarrow> ('p, 'm) message_parser \<Rightarrow> ('p, 'm) message_parser" where
  "on_header_field push at s =
     (let s1 = if mp_lastWasField s then s else commitHeader push s
      in s1\<lparr>mp_field := mp_field s1 @ at, mp_lastWasField := True\<rparr>)"

definition on_header_value :: "string \<Rightarrow> ('p, 'm) message_parser \<Rightarrow> ('p, 'm) message_parser" where
  "on_header_value at s = s\<lparr>mp_value := mp_value s @ at, mp_lastWasField := False\<rparr>"

definition http_version :: "nat \<Rightarrow> nat \<Rightarrow> string" where
  "http_version major minor = ''HTTP/'' @ nat_to_string major @ ''.'' @ nat_to_string minor"

fun request_callback :: "ll_event \<Rightarrow> 'p request_parser \<Rightarrow> 'p request_parser" where
  "request_callback (OnMethod at) s = s"
| "request_callback (OnUrl at) s =
     s\<lparr>mp_message := (mp_message s)\<lparr>rq_url := rq_url (mp_message s) @ at\<rparr>\<rparr>"
| "request_callback (OnStatus at) s = s"
| "request_callback (OnHeaderField at) s = on_header_field push_rq_header at s"
| "request_callback (OnHeaderValue at) s = on_header_value at s"
| "request_callback (OnBody at) s =
     s\<lparr>mp_message := (mp_message s)\<lparr>rq_body := rq_body (mp_message s) @ at\<rparr>\<rparr>"
| "request_callback (OnMessageComplete meth major minor status) s =
     (let s1 = commitHeader push_rq_header s
      in s1\<lparr>mp_message := (mp_message s1)\<lparr>rq_method := meth, rq_version := http_version major minor\<rparr>,
            mp_complete := True\<rparr>)"

definition MAX_BODY_SIZE :: nat where
  "MAX_BODY_SIZE = 1 * 1024 * 1024"

definition truncation_note :: string where
  "truncation_note = [LF, LF] @ ''[--- Body truncated for UI ---]''"

definition on_response_body :: "string \<Rightarrow> string \<Rightarrow> string" where
  "on_response_body at body =
     (if length body < MAX_BODY_SIZE
      then let space = MAX_BODY_SIZE - length body;
               to_append = min (length at) space;
               body1 = body @ take to_append at
           in if to_append < length at then body1 @ truncation_note else body1
      else body)"

fun response_callback :: "ll_event \<Rightarrow> 'p response_parser \<Rightarrow> 'p response_parser" where
  "response_callback (OnMethod at) s = s"
| "response_callback (OnUrl at) s = s"
| "response_callback (OnStatus at) s =
     s\<lparr>mp_message := (mp_message s)\<lparr>rs_statusText := rs_statusText (mp_message s) @ at\<rparr>\<rparr>"
| "response_callback (OnHeaderField at) s = on_header_field push_rs_header at s"
| "response_callback (OnHeaderValue at) s = on_header_value at s"
| "response_callback (OnBody at) s =
     s\<lparr>mp_message := (mp_message s)\<lparr>rs_body := on_response_body at (rs_body (mp_message s))\<rparr>\<rparr>"
| "response_callback (OnMessageComplete meth major minor status) s =
     (let s1 = commitHeader push_rs_header s
      in s1\<lparr>mp_message := (mp_message s1)\<lparr>rs_statusCode := int status, rs_version := http_version major minor\<rparr>,
            mp_complete := True\<rparr>)"

section \<open>The interface\<close>

text \<open>
  \<open>feedRequest\<close> and \<open>feedResponse\<close> have the same text over their parsers: \<open>feed\<close> takes the
  callbacks. Callbacks run while \<open>llhttp_execute\<close> does, hence also when it ends in an error.
\<close>

definition feed ::
  "(ll_event \<Rightarrow> ('p, 'm) message_parser \<Rightarrow> ('p, 'm) message_parser) \<Rightarrow> 'p llhttp \<Rightarrow> string
     \<Rightarrow> ('p, 'm) message_parser \<Rightarrow> bool \<times> ('p, 'm) message_parser" where
  "feed callback ll data s =
     (if mp_complete s then (True, s)
      else case ll_execute ll (mp_parser s) data of
        (events, err, p') \<Rightarrow>
          let s1 = (fold callback events s)\<lparr>mp_parser := p'\<rparr>
          in if err \<noteq> HPE_OK \<and> err \<noteq> HPE_PAUSED_UPGRADE then (False, s1) else (mp_complete s1, s1))"

definition feedRequest :: "'p llhttp \<Rightarrow> string \<Rightarrow> 'p http_parser \<Rightarrow> bool \<times> 'p http_parser" where
  "feedRequest ll data h =
     (case feed request_callback ll data (hp_request h) of (b, s) \<Rightarrow> (b, h\<lparr>hp_request := s\<rparr>))"

definition feedResponse :: "'p llhttp \<Rightarrow> string \<Rightarrow> 'p http_parser \<Rightarrow> bool \<times> 'p http_parser" where
  "feedResponse ll data h =
     (case feed response_callback ll data (hp_response h) of (b, s) \<Rightarrow> (b, h\<lparr>hp_response := s\<rparr>))"

definition takeRequest :: "'p llhttp \<Rightarrow> 'p http_parser \<Rightarrow> http_request option \<times> 'p http_parser" where
  "takeRequest ll h =
     (if mp_complete (hp_request h)
      then (Some (mp_message (hp_request h)), h\<lparr>hp_request := RequestParser ll\<rparr>)
      else (None, h))"

definition takeResponse :: "'p llhttp \<Rightarrow> 'p http_parser \<Rightarrow> http_response option \<times> 'p http_parser" where
  "takeResponse ll h =
     (if mp_complete (hp_response h)
      then (Some (mp_message (hp_response h)), h\<lparr>hp_response := ResponseParser ll\<rparr>)
      else (None, h))"

definition parser_reset :: "'p llhttp \<Rightarrow> 'p http_parser \<Rightarrow> 'p http_parser" where
  "parser_reset ll h = h\<lparr>hp_request := RequestParser ll, hp_response := ResponseParser ll\<rparr>"

section \<open>Headers arrive in pieces\<close>

text \<open>
  Both callback tables accumulate headers through the same two operations; the locale states that
  and derives what any number of header callbacks does, however names and values are cut.
\<close>

definition header_events :: "string list \<times> string list \<Rightarrow> ll_event list" where
  "header_events h = map OnHeaderField (fst h) @ map OnHeaderValue (snd h)"

definition joined :: "string list \<times> string list \<Rightarrow> string \<times> string" where
  "joined h = (concat (fst h), concat (snd h))"

definition well_cut :: "string list \<times> string list \<Rightarrow> bool" where
  "well_cut h \<longleftrightarrow> concat (fst h) \<noteq> [] \<and> snd h \<noteq> []"

definition between_headers :: "('p, 'm) message_parser \<Rightarrow> bool" where
  "between_headers s \<longleftrightarrow> \<not> mp_lastWasField s \<and> (mp_field s = [] \<longrightarrow> mp_value s = [])"

lemma fold_fields:
  "mp_lastWasField s \<Longrightarrow> fold (on_header_field push) fs s = s\<lparr>mp_field := mp_field s @ concat fs\<rparr>"
  by (induction fs arbitrary: s) (simp_all add: on_header_field_def)

lemma fold_values:
  "fold on_header_value vs s =
     (if vs = [] then s else s\<lparr>mp_value := mp_value s @ concat vs, mp_lastWasField := False\<rparr>)"
  by (induction vs arbitrary: s) (simp_all add: on_header_value_def)

lemma fold_header:
  fixes push :: "string \<times> string \<Rightarrow> 'm \<Rightarrow> 'm" and s :: "('p, 'm) message_parser"
  assumes "between_headers s" "well_cut h"
  defines "s' \<equiv> fold on_header_value (snd h) (fold (on_header_field push) (fst h) s)"
  shows "between_headers s'"
    "commitHeader push s' = (commitHeader push s)\<lparr>mp_message := push (joined h) (mp_message (commitHeader push s))\<rparr>"
proof -
  from assms(2) obtain f fs where fs: "fst h = f # fs" and vs: "snd h \<noteq> []" and ne: "f @ concat fs \<noteq> []"
    by (cases "fst h") (auto simp: well_cut_def)
  from assms(1) have clean: "mp_value (commitHeader push s) = []" "mp_field (commitHeader push s) = []"
    "\<not> mp_lastWasField s"
    by (auto simp: between_headers_def commitHeader_def)
  have "s' = (commitHeader push s)\<lparr>mp_field := f @ concat fs, mp_value := concat (snd h), mp_lastWasField := False\<rparr>"
    unfolding s'_def by (simp add: fs vs fold_values fold_fields on_header_field_def clean)
  with ne clean show "between_headers s'"
    "commitHeader push s' = (commitHeader push s)\<lparr>mp_message := push (joined h) (mp_message (commitHeader push s))\<rparr>"
    by (auto simp: between_headers_def commitHeader_def joined_def fs)
qed

locale header_callbacks =
  fixes callback :: "ll_event \<Rightarrow> ('p, 'm) message_parser \<Rightarrow> ('p, 'm) message_parser"
    and push :: "string \<times> string \<Rightarrow> 'm \<Rightarrow> 'm"
  assumes on_field: "callback (OnHeaderField at) s = on_header_field push at s"
    and on_value: "callback (OnHeaderValue at) s = on_header_value at s"
begin

lemma fold_on_field: "fold callback (map OnHeaderField fs) s = fold (on_header_field push) fs s"
  by (induction fs arbitrary: s) (simp_all add: on_field)

lemma fold_on_value: "fold callback (map OnHeaderValue vs) s = fold on_header_value vs s"
  by (induction vs arbitrary: s) (simp_all add: on_value)

lemma header_run:
  "between_headers s \<Longrightarrow> \<forall>h \<in> set hs. well_cut h \<Longrightarrow>
     between_headers (fold callback (concat (map header_events hs)) s)
   \<and> commitHeader push (fold callback (concat (map header_events hs)) s) =
       (commitHeader push s)\<lparr>mp_message := fold push (map joined hs) (mp_message (commitHeader push s))\<rparr>"
proof (induction hs arbitrary: s)
  case (Cons h hs)
  let ?s = "fold callback (header_events h) s"
  have s: "?s = fold on_header_value (snd h) (fold (on_header_field push) (fst h) s)"
    by (simp add: header_events_def fold_on_field fold_on_value)
  note one = fold_header [of s h push, folded s]
  from Cons.prems one have "between_headers ?s" by simp
  from Cons.IH [OF this] Cons.prems one show ?case by simp
qed simp

end

interpretation request_headers: header_callbacks request_callback push_rq_header
  by unfold_locales simp_all

interpretation response_headers: header_callbacks response_callback push_rs_header
  by unfold_locales simp_all

lemma fold_push_rq: "fold push_rq_header hs r = r\<lparr>rq_headers := rq_headers r @ hs\<rparr>"
  by (induction hs arbitrary: r) (simp_all add: push_rq_header_def)

lemma fold_push_rs: "fold push_rs_header hs r = r\<lparr>rs_headers := rs_headers r @ hs\<rparr>"
  by (induction hs arbitrary: r) (simp_all add: push_rs_header_def)

section \<open>The callbacks of a whole message\<close>

definition request_events ::
  "string list \<Rightarrow> (string list \<times> string list) list \<Rightarrow> string list \<Rightarrow> string \<Rightarrow> nat \<Rightarrow> nat \<Rightarrow> nat \<Rightarrow> ll_event list" where
  "request_events us hs bs meth major minor st =
     map OnUrl us @ concat (map header_events hs) @ map OnBody bs @ [OnMessageComplete meth major minor st]"

definition response_events ::
  "string list \<Rightarrow> (string list \<times> string list) list \<Rightarrow> string list \<Rightarrow> string \<Rightarrow> nat \<Rightarrow> nat \<Rightarrow> nat \<Rightarrow> ll_event list" where
  "response_events us hs bs meth major minor st =
     map OnStatus us @ concat (map header_events hs) @ map OnBody bs @ [OnMessageComplete meth major minor st]"

lemma fold_url: "fold request_callback (map OnUrl us) s =
    s\<lparr>mp_message := (mp_message s)\<lparr>rq_url := rq_url (mp_message s) @ concat us\<rparr>\<rparr>"
  by (induction us arbitrary: s) simp_all

lemma fold_rq_body: "fold request_callback (map OnBody bs) s =
    s\<lparr>mp_message := (mp_message s)\<lparr>rq_body := rq_body (mp_message s) @ concat bs\<rparr>\<rparr>"
  by (induction bs arbitrary: s) simp_all

lemma fold_status: "fold response_callback (map OnStatus us) s =
    s\<lparr>mp_message := (mp_message s)\<lparr>rs_statusText := rs_statusText (mp_message s) @ concat us\<rparr>\<rparr>"
  by (induction us arbitrary: s) simp_all

lemma fold_rs_body: "fold response_callback (map OnBody bs) s =
    s\<lparr>mp_message := (mp_message s)\<lparr>rs_body := fold on_response_body bs (rs_body (mp_message s))\<rparr>\<rparr>"
  by (induction bs arbitrary: s) simp_all

lemma commit_rq_body: "commitHeader push_rq_header (s\<lparr>mp_message := (mp_message s)\<lparr>rq_body := b\<rparr>\<rparr>)
    = (commitHeader push_rq_header s)\<lparr>mp_message := (mp_message (commitHeader push_rq_header s))\<lparr>rq_body := b\<rparr>\<rparr>"
  by (simp add: commitHeader_def push_rq_header_def)

lemma commit_rs_body: "commitHeader push_rs_header (s\<lparr>mp_message := (mp_message s)\<lparr>rs_body := b\<rparr>\<rparr>)
    = (commitHeader push_rs_header s)\<lparr>mp_message := (mp_message (commitHeader push_rs_header s))\<lparr>rs_body := b\<rparr>\<rparr>"
  by (simp add: commitHeader_def push_rs_header_def)

lemma commit_rq_keeps_body: "rq_body (mp_message (commitHeader push_rq_header s)) = rq_body (mp_message s)"
  by (simp add: commitHeader_def push_rq_header_def)

lemma commit_rs_keeps_body: "rs_body (mp_message (commitHeader push_rs_header s)) = rs_body (mp_message s)"
  by (simp add: commitHeader_def push_rs_header_def)

lemma fold_request_message:
  fixes us bs :: "string list" and meth :: string and major minor st :: nat and ll :: "'p llhttp"
  assumes "\<forall>h \<in> set hs. well_cut h"
  defines "s' \<equiv> fold request_callback (request_events us hs bs meth major minor st) (RequestParser ll)"
  shows "mp_complete s'"
    "mp_message s' = \<lparr>rq_method = meth, rq_url = concat us, rq_version = http_version major minor,
       rq_headers = map joined hs, rq_body = concat bs, rq_rawOverride = []\<rparr>"
proof -
  let ?s = "fold request_callback (map OnUrl us) (RequestParser ll)"
  have s: "?s = (RequestParser ll)\<lparr>mp_message := HttpRequest\<lparr>rq_url := concat us\<rparr>\<rparr>"
    by (simp add: fold_url RequestParser_def HttpRequest_def)
  have clean: "between_headers ?s" "commitHeader push_rq_header ?s = ?s"
    unfolding s by (simp_all add: between_headers_def RequestParser_def commitHeader_def)
  let ?h = "fold request_callback (concat (map header_events hs)) ?s"
  have h: "commitHeader push_rq_header ?h = ?s\<lparr>mp_message := fold push_rq_header (map joined hs) (mp_message ?s)\<rparr>"
    using request_headers.header_run [OF clean(1) assms(1)] clean(2) by simp
  have "rq_body (mp_message ?h) = rq_body (mp_message (commitHeader push_rq_header ?h))"
    by (simp only: commit_rq_keeps_body)
  also have "\<dots> = []" unfolding h fold_push_rq by (simp add: s HttpRequest_def)
  finally have body: "rq_body (mp_message ?h) = []" .
  define t where "t = ?h"
  note h = h [folded t_def] and body = body [folded t_def]
  have "s' = request_callback (OnMessageComplete meth major minor st) (fold request_callback (map OnBody bs) t)"
    by (simp add: t_def s'_def request_events_def)
  also have "\<dots> = (?s\<lparr>mp_message := \<lparr>rq_method = meth, rq_url = concat us, rq_version = http_version major minor,
       rq_headers = map joined hs, rq_body = concat bs, rq_rawOverride = []\<rparr>, mp_complete := True\<rparr>)"
    by (simp add: fold_rq_body body commit_rq_body h Let_def fold_push_rq s HttpRequest_def)
  finally have "s' = \<dots>" .
  then show "mp_complete s'"
    "mp_message s' = \<lparr>rq_method = meth, rq_url = concat us, rq_version = http_version major minor,
       rq_headers = map joined hs, rq_body = concat bs, rq_rawOverride = []\<rparr>" by simp_all
qed

lemma fold_response_message:
  fixes us bs :: "string list" and meth :: string and major minor st :: nat and ll :: "'p llhttp"
  assumes "\<forall>h \<in> set hs. well_cut h"
  defines "s' \<equiv> fold response_callback (response_events us hs bs meth major minor st) (ResponseParser ll)"
  shows "mp_complete s'"
    "mp_message s' = \<lparr>rs_version = http_version major minor, rs_statusCode = int st, rs_statusText = concat us,
       rs_headers = map joined hs, rs_body = fold on_response_body bs []\<rparr>"
proof -
  let ?s = "fold response_callback (map OnStatus us) (ResponseParser ll)"
  have s: "?s = (ResponseParser ll)\<lparr>mp_message := HttpResponse\<lparr>rs_statusText := concat us\<rparr>\<rparr>"
    by (simp add: fold_status ResponseParser_def HttpResponse_def)
  have clean: "between_headers ?s" "commitHeader push_rs_header ?s = ?s"
    unfolding s by (simp_all add: between_headers_def ResponseParser_def commitHeader_def)
  let ?h = "fold response_callback (concat (map header_events hs)) ?s"
  have h: "commitHeader push_rs_header ?h = ?s\<lparr>mp_message := fold push_rs_header (map joined hs) (mp_message ?s)\<rparr>"
    using response_headers.header_run [OF clean(1) assms(1)] clean(2) by simp
  have "rs_body (mp_message ?h) = rs_body (mp_message (commitHeader push_rs_header ?h))"
    by (simp only: commit_rs_keeps_body)
  also have "\<dots> = []" unfolding h fold_push_rs by (simp add: s HttpResponse_def)
  finally have body: "rs_body (mp_message ?h) = []" .
  define t where "t = ?h"
  note h = h [folded t_def] and body = body [folded t_def]
  have "s' = response_callback (OnMessageComplete meth major minor st) (fold response_callback (map OnBody bs) t)"
    by (simp add: t_def s'_def response_events_def)
  also have "\<dots> = (?s\<lparr>mp_message := \<lparr>rs_version = http_version major minor, rs_statusCode = int st, rs_statusText = concat us,
       rs_headers = map joined hs, rs_body = fold on_response_body bs []\<rparr>, mp_complete := True\<rparr>)"
    by (simp add: fold_rs_body body commit_rs_body h Let_def fold_push_rs s HttpResponse_def)
  finally have "s' = \<dots>" .
  then show "mp_complete s'"
    "mp_message s' = \<lparr>rs_version = http_version major minor, rs_statusCode = int st, rs_statusText = concat us,
       rs_headers = map joined hs, rs_body = fold on_response_body bs []\<rparr>" by simp_all
qed

section \<open>Messages arrive in pieces\<close>

fun is_complete :: "ll_event \<Rightarrow> bool" where
  "is_complete (OnMessageComplete meth major minor st) = True"
| "is_complete _ = False"

text \<open>The events of successive reads, when llhttp reports no error.\<close>

fun ll_trace :: "'p llhttp \<Rightarrow> 'p \<Rightarrow> string list \<Rightarrow> ll_event list option" where
  "ll_trace ll p [] = Some []"
| "ll_trace ll p (d # ds) =
     (case ll_execute ll p d of (events, err, p') \<Rightarrow>
        if err = HPE_ERROR then None else map_option ((@) events) (ll_trace ll p' ds))"

text \<open>The session's reads: each is fed, and the last answer counts.\<close>

fun feed_reads ::
  "(ll_event \<Rightarrow> ('p, 'm) message_parser \<Rightarrow> ('p, 'm) message_parser) \<Rightarrow> 'p llhttp \<Rightarrow> string list
     \<Rightarrow> ('p, 'm) message_parser \<Rightarrow> bool \<times> ('p, 'm) message_parser" where
  "feed_reads callback ll [] s = (mp_complete s, s)"
| "feed_reads callback ll (d # ds) s = feed_reads callback ll ds (snd (feed callback ll d s))"

locale message_callbacks = header_callbacks +
  assumes on_complete: "mp_complete (callback e s) \<longleftrightarrow> mp_complete s \<or> is_complete e"
    and no_parser: "callback e (s\<lparr>mp_parser := p\<rparr>) = (callback e s)\<lparr>mp_parser := p\<rparr>"
begin

lemma fold_complete: "mp_complete (fold callback es s) \<longleftrightarrow> mp_complete s \<or> (\<exists>e \<in> set es. is_complete e)"
  by (induction es arbitrary: s) (auto simp: on_complete)

lemma fold_no_parser: "fold callback es (s\<lparr>mp_parser := p\<rparr>) = (fold callback es s)\<lparr>mp_parser := p\<rparr>"
  by (induction es arbitrary: s) (simp_all add: no_parser)

lemma feed_reads_complete: "mp_complete s \<Longrightarrow> feed_reads callback ll ds s = (True, s)"
  by (induction ds) (simp_all add: feed_def)

lemma feed_reads_message:
  assumes "ll_trace ll (mp_parser s) ds = Some (es @ [c])" "\<not> mp_complete s"
    "is_complete c" "\<forall>e \<in> set es. \<not> is_complete e"
  shows "\<exists>p. feed_reads callback ll ds s = (True, (fold callback (es @ [c]) s)\<lparr>mp_parser := p\<rparr>)"
  using assms
proof (induction ds arbitrary: s es)
  case (Cons d ds)
  obtain evs err p' where ex: "ll_execute ll (mp_parser s) d = (evs, err, p')" by (cases "ll_execute ll (mp_parser s) d")
  with Cons.prems(1) obtain rest where rest: "ll_trace ll p' ds = Some rest" "evs @ rest = es @ [c]"
    and ok: "err \<noteq> HPE_ERROR"
    by (auto split: if_splits)
  let ?s = "(fold callback evs s)\<lparr>mp_parser := p'\<rparr>"
  have fed: "snd (feed callback ll d s) = ?s" using Cons.prems(2) ex by (simp add: feed_def Let_def)
  show ?case
  proof (cases "rest = []")
    case True
    with rest have "evs = es @ [c]" by simp
    then show ?thesis
      using Cons.prems(3) feed_reads_complete [of ?s ll ds] by (auto simp: fed fold_complete on_complete)
  next
    case False
    then obtain r where "rest = r @ [c]" using rest(2) by (cases rest rule: rev_cases) auto
    with rest have es: "es = evs @ r" "rest = r @ [c]" by simp_all
    have "\<not> mp_complete ?s" using Cons.prems(2,4) by (auto simp: fold_complete es)
    from Cons.IH [of ?s r, OF _ this] rest(1) es Cons.prems(3,4)
    obtain p where "feed_reads callback ll ds ?s = (True, (fold callback (r @ [c]) ?s)\<lparr>mp_parser := p\<rparr>)" by auto
    then show ?thesis
      by (auto simp: fed es fold_no_parser no_parser)
  qed
qed simp

end

lemma on_header_field_complete: "mp_complete (on_header_field push at s) = mp_complete s"
  "on_header_field push at (s\<lparr>mp_parser := p\<rparr>) = (on_header_field push at s)\<lparr>mp_parser := p\<rparr>"
  by (simp_all add: on_header_field_def commitHeader_def Let_def)

lemma on_header_value_complete: "mp_complete (on_header_value at s) = mp_complete s"
  "on_header_value at (s\<lparr>mp_parser := p\<rparr>) = (on_header_value at s)\<lparr>mp_parser := p\<rparr>"
  by (simp_all add: on_header_value_def)

interpretation requests: message_callbacks request_callback push_rq_header
proof
  fix e and s :: "('p, http_request) message_parser" and p
  show "mp_complete (request_callback e s) \<longleftrightarrow> mp_complete s \<or> is_complete e"
    by (cases e) (simp_all add: on_header_field_complete on_header_value_complete Let_def)
  show "request_callback e (s\<lparr>mp_parser := p\<rparr>) = (request_callback e s)\<lparr>mp_parser := p\<rparr>"
    by (cases e) (simp_all add: on_header_field_complete on_header_value_complete Let_def commitHeader_def)
qed

interpretation responses: message_callbacks response_callback push_rs_header
proof
  fix e and s :: "('p, http_response) message_parser" and p
  show "mp_complete (response_callback e s) \<longleftrightarrow> mp_complete s \<or> is_complete e"
    by (cases e) (simp_all add: on_header_field_complete on_header_value_complete Let_def)
  show "response_callback e (s\<lparr>mp_parser := p\<rparr>) = (response_callback e s)\<lparr>mp_parser := p\<rparr>"
    by (cases e) (simp_all add: on_header_field_complete on_header_value_complete Let_def commitHeader_def)
qed

section \<open>The bound on response bodies\<close>

text \<open>What is kept of a body that arrives in the pieces \<open>bs\<close>.\<close>

definition kept_body :: "string list \<Rightarrow> string" where
  "kept_body bs =
     (if length (concat bs) \<le> MAX_BODY_SIZE then concat bs
      else take MAX_BODY_SIZE (concat bs)
        @ (if \<exists>k \<le> length bs. length (concat (take k bs)) = MAX_BODY_SIZE then [] else truncation_note))"

lemma concat_take_length: "length (concat (take k bs)) \<le> length (concat bs)"
  by (metis append_take_drop_id concat_append length_append le_add1)

lemma kept_body_over:
  assumes "length (concat bs) > MAX_BODY_SIZE"
  shows "kept_body (bs @ [b]) = kept_body bs"
proof -
  have "(\<exists>k \<le> length (bs @ [b]). length (concat (take k (bs @ [b]))) = MAX_BODY_SIZE)
    \<longleftrightarrow> (\<exists>k \<le> length bs. length (concat (take k bs)) = MAX_BODY_SIZE)"
    using assms by (auto simp: le_Suc_eq)
  with assms show ?thesis by (simp add: kept_body_def)
qed

lemma kept_body_exact:
  assumes "length (concat bs) = MAX_BODY_SIZE"
  shows "kept_body (bs @ [b]) = concat bs"
proof -
  have "\<exists>k \<le> length (bs @ [b]). length (concat (take k (bs @ [b]))) = MAX_BODY_SIZE"
    by (rule exI [of _ "length bs"]) (simp add: assms)
  with assms show ?thesis by (auto simp: kept_body_def)
qed

lemma kept_body_cross:
  assumes "length (concat bs) < MAX_BODY_SIZE" "length (concat bs) + length b > MAX_BODY_SIZE"
  shows "kept_body (bs @ [b]) = concat bs @ take (MAX_BODY_SIZE - length (concat bs)) b @ truncation_note"
proof -
  have "length (concat (take k (bs @ [b]))) \<noteq> MAX_BODY_SIZE" for k
    using assms concat_take_length [of k bs] by (cases "k \<le> length bs") auto
  with assms show ?thesis by (auto simp: kept_body_def)
qed

lemma fold_response_body: "fold on_response_body bs [] = kept_body bs"
proof (induction bs rule: rev_induct)
  case (snoc b bs)
  let ?n = "length (concat bs)"
  have step: "fold on_response_body (bs @ [b]) [] = on_response_body b (kept_body bs)" by (simp add: snoc)
  consider "?n > MAX_BODY_SIZE" | "?n = MAX_BODY_SIZE" | "?n < MAX_BODY_SIZE" "?n + length b > MAX_BODY_SIZE"
    | "?n + length b \<le> MAX_BODY_SIZE" "?n < MAX_BODY_SIZE" by linarith
  then show ?case
  proof cases
    case 1
    then have "length (kept_body bs) \<ge> MAX_BODY_SIZE" by (simp add: kept_body_def)
    then have "on_response_body b (kept_body bs) = kept_body bs" by (simp add: on_response_body_def)
    with 1 step show ?thesis by (simp add: kept_body_over)
  next
    case 2
    then show ?thesis unfolding step kept_body_exact [OF 2] by (simp add: on_response_body_def kept_body_def)
  next
    case 3
    then show ?thesis unfolding step kept_body_cross [OF 3]
      by (simp add: on_response_body_def kept_body_def Let_def)
  next
    case 4
    then show ?thesis unfolding step by (simp add: on_response_body_def kept_body_def Let_def)
  qed
qed (simp add: kept_body_def)

lemma kept_body_length: "length (kept_body bs) \<le> MAX_BODY_SIZE + 33"
  by (simp add: kept_body_def truncation_note_def)

section \<open>Properties\<close>

lemma request_events_split:
  "request_events us hs bs meth major minor st
     = (map OnUrl us @ concat (map header_events hs) @ map OnBody bs) @ [OnMessageComplete meth major minor st]"
  by (simp add: request_events_def)

lemma response_events_split:
  "response_events us hs bs meth major minor st
     = (map OnStatus us @ concat (map header_events hs) @ map OnBody bs) @ [OnMessageComplete meth major minor st]"
  by (simp add: response_events_def)

lemma parts_not_complete:
  "e \<in> set (map OnUrl us @ concat (map header_events hs) @ map OnBody bs) \<Longrightarrow> \<not> is_complete e"
  "e \<in> set (map OnStatus us @ concat (map header_events hs) @ map OnBody bs) \<Longrightarrow> \<not> is_complete e"
  by (auto simp: header_events_def)


text \<open>A tokenizer that plays back scripted callbacks, one list per read.\<close>

definition scripted :: "ll_event list list \<Rightarrow> ll_event list list \<Rightarrow> ll_event list list llhttp" where
  "scripted rq rs = \<lparr>ll_init_request = rq, ll_init_response = rs,
     ll_execute = (\<lambda>p d. case p of [] \<Rightarrow> ([], HPE_OK, []) | es # p' \<Rightarrow> (es, HPE_OK, p'))\<rparr>"


text \<open>
  C20: A response fed in any pieces is handed over with status line, headers in order and its body:
  the whole body if it has at most one MiB; otherwise its first MiB, followed by the truncation
  note unless a piece ends exactly at the bound. The body kept never exceeds the bound by more
  than the length of the note.
\<close>
theorem response_in_pieces_capped:
  assumes "\<forall>h \<in> set hs. well_cut h"
    and "ll_trace ll (ll_init_response ll) reads = Some (response_events us hs bs meth major minor st)"
  shows "let (done, s) = feed_reads response_callback ll reads (hp_response (HttpParser ll))
         in done \<and> takeResponse ll (HttpParser ll\<lparr>hp_response := s\<rparr>) =
           (Some \<lparr>rs_version = http_version major minor, rs_statusCode = int st, rs_statusText = concat us,
                  rs_headers = map joined hs, rs_body = kept_body bs\<rparr>, HttpParser ll)
         \<and> length (kept_body bs) \<le> MAX_BODY_SIZE + 33"
proof -
  have "ll_trace ll (mp_parser (ResponseParser ll)) reads = Some (response_events us hs bs meth major minor st)"
    using assms(2) by (simp add: ResponseParser_def)
  from responses.feed_reads_message [OF this [unfolded response_events_split]]
  obtain p where "feed_reads response_callback ll reads (ResponseParser ll) =
      (True, (fold response_callback (response_events us hs bs meth major minor st) (ResponseParser ll))\<lparr>mp_parser := p\<rparr>)"
    unfolding response_events_split using parts_not_complete(2) by (force simp: ResponseParser_def)
  with fold_response_message [OF assms(1), of us bs meth major minor st ll]
  show ?thesis by (simp add: HttpParser_def takeResponse_def fold_response_body kept_body_length)
qed

lemma response_in_pieces_capped_witness:
  "let (done, s) = feed_reads response_callback
       (scripted [] [[OnStatus ''O''], [OnStatus ''K'', OnBody ''b'', OnMessageComplete [] 1 1 200]])
       [''p'', ''q''] (hp_response (HttpParser (scripted [] [[OnStatus ''O''], [OnStatus ''K'', OnBody ''b'', OnMessageComplete [] 1 1 200]])))
   in done \<and> takeResponse (scripted [] [[OnStatus ''O''], [OnStatus ''K'', OnBody ''b'', OnMessageComplete [] 1 1 200]])
       (HttpParser (scripted [] [[OnStatus ''O''], [OnStatus ''K'', OnBody ''b'', OnMessageComplete [] 1 1 200]])\<lparr>hp_response := s\<rparr>) =
     (Some \<lparr>rs_version = http_version 1 1, rs_statusCode = int 200, rs_statusText = concat [''O'', ''K''],
        rs_headers = map joined [], rs_body = kept_body [''b'']\<rparr>,
      HttpParser (scripted [] [[OnStatus ''O''], [OnStatus ''K'', OnBody ''b'', OnMessageComplete [] 1 1 200]]))
     \<and> length (kept_body [''b'']) \<le> MAX_BODY_SIZE + 33"
  by (rule response_in_pieces_capped [where meth = "[]"])
    (simp_all add: scripted_def response_events_def)

text \<open>
  A body whose first piece fills the bound exactly loses the rest without the truncation note,
  so the kept response looks complete.
\<close>
lemma silent_truncation:
  "rs_body (mp_message (fold response_callback
     (response_events us [] [replicate MAX_BODY_SIZE x, y # ys] meth major minor st) (ResponseParser ll)))
   = replicate MAX_BODY_SIZE x"
proof -
  have "kept_body ([replicate MAX_BODY_SIZE x] @ [y # ys]) = concat [replicate MAX_BODY_SIZE x]"
    by (rule kept_body_exact) simp
  then have "kept_body [replicate MAX_BODY_SIZE x, y # ys] = replicate MAX_BODY_SIZE x" by simp
  then show ?thesis
    using fold_response_body [of "[replicate MAX_BODY_SIZE x, y # ys]"]
    by (simp only: fold_response_message(2) list.set ball_empty) simp
qed

text \<open>
  Two requests that arrive in one read are merged into one: callbacks continue after completion,
  so the URL handed over is the concatenation of both and the headers of both are in it.
\<close>
theorem pipelined_requests_merge:
  "let ll = scripted [request_events [''/a''] [([''Host''], [''x''])] [] ''GET'' 1 1 0
                      @ request_events [''/b''] [([''Host''], [''y''])] [] ''POST'' 1 1 0] [];
       (done, h) = feedRequest ll ''data'' (HttpParser ll)
   in done \<and> fst (takeRequest ll h) = Some \<lparr>rq_method = ''POST'', rq_url = ''/a/b'', rq_version = ''HTTP/1.1'',
        rq_headers = [(''Host'', ''x''), (''Host'', ''y'')], rq_body = [], rq_rawOverride = []\<rparr>"
  by code_simp

end
