(* ===== verification/WriteQueue.thy ===== *)
theory WriteQueue
  imports Prelude
begin

text \<open>
  The contract of the serialised write queues: both sessions keep one per socket they write to, with
  the same three functions each (\<open>writeClient\<close>, \<open>doClientWrite\<close>, \<open>handleClientWrite\<close> and so on).
  A caller pushes data at any time; the socket sees one write at a time, of the front of the queue.
\<close>

text \<open>A session's two sides of a queue: \<open>Some d\<close> pushes \<open>d\<close>, \<open>None\<close> is a successful completion.\<close>

locale write_queue =
  fixes queue :: "'s \<Rightarrow> string list"
    and outstanding :: "'s \<Rightarrow> string list"
    and push :: "string \<Rightarrow> 's \<Rightarrow> 's"
    and complete :: "'s \<Rightarrow> 's"
    and usable :: "'s \<Rightarrow> bool"
  assumes push_queue: "usable s \<Longrightarrow> queue (push d s) = queue s @ [d]"
    and push_outstanding: "usable s \<Longrightarrow> outstanding (push d s) = outstanding s @ (if queue s = [] then [d] else [])"
    and push_usable: "usable s \<Longrightarrow> usable (push d s)"
    and complete_queue: "usable s \<Longrightarrow> queue s = d # q \<Longrightarrow> queue (complete s) = q"
    and complete_outstanding: "usable s \<Longrightarrow> queue s = d # q \<Longrightarrow> outstanding s = [d]
        \<Longrightarrow> outstanding (complete s) = take 1 q"
    and complete_usable: "usable s \<Longrightarrow> queue s = d # q \<Longrightarrow> q \<noteq> [] \<Longrightarrow> usable (complete s)"
begin

definition serial :: "'s \<Rightarrow> bool" where
  "serial s \<longleftrightarrow> outstanding s = take 1 (queue s)"

text \<open>
  A run; a completion needs an outstanding write, and the run ends when the channel is no longer
  usable. The result is the data whose writes completed, in order, the data accepted, and the state.
\<close>

fun channel :: "string option list \<Rightarrow> 's \<Rightarrow> string list \<times> string list \<times> 's" where
  "channel [] s = ([], [], s)"
| "channel (Some d # es) s =
     (if usable s then case channel es (push d s) of (w, a, s') \<Rightarrow> (w, d # a, s') else ([], [], s))"
| "channel (None # es) s =
     (if usable s \<and> queue s \<noteq> []
      then case channel es (complete s) of (w, a, s') \<Rightarrow> (hd (queue s) # w, a, s') else ([], [], s))"

lemma serial_push: "usable s \<Longrightarrow> serial s \<Longrightarrow> serial (push d s)"
  by (cases "queue s") (simp_all add: serial_def push_queue push_outstanding)

lemma serial_complete: "usable s \<Longrightarrow> serial s \<Longrightarrow> queue s \<noteq> [] \<Longrightarrow> serial (complete s)"
  by (cases "queue s") (simp_all add: serial_def complete_queue complete_outstanding)

lemma serial_channel: "serial s \<Longrightarrow> serial (snd (snd (channel es s)))"
  by (induction es s rule: channel.induct) (auto simp: serial_push serial_complete split: prod.splits)

lemma channel_fifo:
  "fst (channel es s) @ queue (snd (snd (channel es s))) = queue s @ fst (snd (channel es s))"
proof (induction es s rule: channel.induct)
  case (2 d es s)
  then show ?case by (cases "channel es (push d s)") (simp add: push_queue)
next
  case (3 es s)
  then show ?case
    by (cases "queue s"; cases "channel es (complete s)") (simp_all add: complete_queue)
qed simp

end

end
