(* ===== verification/Session.thy ===== *)
theory Session
  imports HttpParser InterceptManager WriteQueue
begin

text \<open>
  The plain HTTP session of \<open>src/src/proxy/Session.cpp\<close>: one client connection, its upstream
  connection, and the handlers that boost.asio runs one at a time. Starting an asynchronous operation
  adds it to the outstanding operations; the io loop may complete any outstanding operation with any
  result that its kind can have. What a handler asks of other components (the transaction callback,
  the intercept queue, the TLS session that takes a CONNECT over) is appended to a list of effects.

  Parameters of a step: llhttp, and the answers of shared objects at that moment (\<open>session_env\<close>).
\<close>

section \<open>State\<close>

datatype error_code = Ec_ok | Ec_eof | Ec_truncated | Ec_aborted | Ec_other

datatype async_op =
    TimerWait
  | ClientRead
  | Decision
  | Resolve
  | Connect
  | UpstreamWrite string
  | UpstreamRead
  | ClientWrite string
  | ServerWrite string

datatype session_effect =
    OnTransaction http_transaction
  | RemoveById int
  | InterceptRequest int string "16 word" http_request
  | StartMitm string "16 word"

record 'p session =
  ss_clientOpen :: bool
  ss_serverOpen :: bool
  ss_certCache :: bool
  ss_parser :: "'p http_parser"
  ss_clientData :: string
  ss_serverData :: string
  ss_writeQueue :: "string list"
  ss_writeServerQueue :: "string list"
  ss_upstreamHost :: string
  ss_upstreamPort :: string
  ss_tx :: http_transaction
  ss_isConnect :: bool
  ss_closeAfterWrite :: bool
  ss_pending :: "async_op list"
  ss_effects :: "session_effect list"

text \<open>
  What a handler reads from shared objects: the next transaction id, whether interception is on, the
  PEM text of the CA certificate in memory, the content of the CA file and its path.
\<close>

record session_env =
  en_nextId :: int
  en_intercept :: bool
  en_caPem :: string
  en_caFile :: string
  en_caCertPath :: string

text \<open>A session as the acceptor creates it, with an open client socket.\<close>

definition Session :: "'p llhttp \<Rightarrow> bool \<Rightarrow> 'p session" where
  "Session ll certCache =
     \<lparr>ss_clientOpen = True, ss_serverOpen = False, ss_certCache = certCache, ss_parser = HttpParser ll,
      ss_clientData = [], ss_serverData = [], ss_writeQueue = [], ss_writeServerQueue = [],
      ss_upstreamHost = [], ss_upstreamPort = [], ss_tx = HttpTransaction, ss_isConnect = False,
      ss_closeAfterWrite = False, ss_pending = [], ss_effects = []\<rparr>"

definition async_start :: "async_op \<Rightarrow> 'p session \<Rightarrow> 'p session" where
  "async_start op s = s\<lparr>ss_pending := ss_pending s @ [op]\<rparr>"

definition emit :: "session_effect \<Rightarrow> 'p session \<Rightarrow> 'p session" where
  "emit e s = s\<lparr>ss_effects := ss_effects s @ [e]\<rparr>"

section \<open>Timer, closing, reading\<close>

definition resetTimer :: "'p session \<Rightarrow> 'p session" where
  "resetTimer s = async_start TimerWait s"

definition readClient :: "'p session \<Rightarrow> 'p session" where
  "readClient s = async_start ClientRead s"

definition readUpstream :: "'p session \<Rightarrow> 'p session" where
  "readUpstream s = async_start UpstreamRead s"

definition session_start :: "'p session \<Rightarrow> 'p session" where
  "session_start s = readClient (resetTimer s)"

definition session_close :: "'p session \<Rightarrow> 'p session" where
  "session_close s =
     (let s1 = (if tx_id (ss_tx s) \<noteq> 0 then emit (RemoveById (tx_id (ss_tx s))) s else s)
      in s1\<lparr>ss_clientOpen := False, ss_serverOpen := False\<rparr>)"

section \<open>Writing to the client and, in a tunnel, to the server\<close>

definition doClientWrite :: "'p session \<Rightarrow> 'p session" where
  "doClientWrite s = async_start (ClientWrite (hd (ss_writeQueue s))) s"

definition writeClient :: "string \<Rightarrow> 'p session \<Rightarrow> 'p session" where
  "writeClient data s =
     (let idle = (ss_writeQueue s = []);
          s1 = s\<lparr>ss_writeQueue := ss_writeQueue s @ [data]\<rparr>
      in if idle then doClientWrite s1 else s1)"

definition handleClientWrite :: "error_code \<Rightarrow> 'p session \<Rightarrow> 'p session" where
  "handleClientWrite ec s =
     (if ec \<noteq> Ec_ok then session_close s
      else let s1 = s\<lparr>ss_writeQueue := tl (ss_writeQueue s)\<rparr>
           in if ss_writeQueue s1 \<noteq> [] then doClientWrite s1
              else if ss_closeAfterWrite s1 then session_close s1 else s1)"

definition doServerWrite :: "'p session \<Rightarrow> 'p session" where
  "doServerWrite s = async_start (ServerWrite (hd (ss_writeServerQueue s))) s"

definition writeServerBlind :: "string \<Rightarrow> 'p session \<Rightarrow> 'p session" where
  "writeServerBlind data s =
     (let idle = (ss_writeServerQueue s = []);
          s1 = s\<lparr>ss_writeServerQueue := ss_writeServerQueue s @ [data]\<rparr>
      in if idle then doServerWrite s1 else s1)"

definition handleServerWrite :: "error_code \<Rightarrow> 'p session \<Rightarrow> 'p session" where
  "handleServerWrite ec s =
     (if ec = Ec_ok
      then let s1 = s\<lparr>ss_writeServerQueue := tl (ss_writeServerQueue s)\<rparr>
           in if ss_writeServerQueue s1 \<noteq> [] then doServerWrite s1 else s1
      else if ec \<noteq> Ec_aborted then session_close s else s)"

section \<open>Local responses\<close>

definition local_response :: "int \<Rightarrow> string \<Rightarrow> string \<Rightarrow> http_response" where
  "local_response code status body =
     HttpResponse\<lparr>rs_version := ''HTTP/1.1'', rs_statusCode := code, rs_statusText := status, rs_body := body\<rparr>"

text \<open>Recording a response that the proxy itself gives, and sending it as the last one.\<close>

definition answer :: "http_response \<Rightarrow> string \<Rightarrow> 'p session \<Rightarrow> 'p session" where
  "answer res raw s =
     (let s1 = s\<lparr>ss_tx := (ss_tx s)\<lparr>tx_response := Some res\<rparr>\<rparr>;
          s2 = emit (OnTransaction (ss_tx s1)) s1
      in writeClient raw (s2\<lparr>ss_closeAfterWrite := True\<rparr>))"

definition error_body :: "int \<Rightarrow> string \<Rightarrow> string" where
  "error_body statusCode statusText =
     ''<html><body><h1>'' @ int_to_string statusCode @ '' '' @ statusText @ ''</h1>'' @
     ''<p>BurpTUI Proxy Error</p></body></html>''"

definition error_response :: "int \<Rightarrow> string \<Rightarrow> string" where
  "error_response statusCode statusText =
     ''HTTP/1.1 '' @ int_to_string statusCode @ '' '' @ statusText @ crlf @
     ''Content-Type: text/html'' @ crlf @
     ''Content-Length: '' @ nat_to_string (length (error_body statusCode statusText)) @ crlf @
     ''Connection: close'' @ crlf @ crlf @ error_body statusCode statusText"

definition sendErrorResponse :: "int \<Rightarrow> string \<Rightarrow> 'p session \<Rightarrow> 'p session" where
  "sendErrorResponse statusCode statusText =
     answer (local_response statusCode statusText (error_body statusCode statusText))
       (error_response statusCode statusText)"

definition ca_response :: "string \<Rightarrow> string" where
  \<open>ca_response certContent =
     ''HTTP/1.1 200 OK'' @ crlf @
     ''Content-Type: application/x-x509-ca-cert'' @ crlf @
     ''Content-Disposition: attachment; filename="burptui-ca.crt"'' @ crlf @
     ''Content-Length: '' @ nat_to_string (length certContent) @ crlf @
     ''Connection: close'' @ crlf @ crlf @ certContent\<close>

definition serveCaCert :: "session_env \<Rightarrow> 'p session \<Rightarrow> 'p session" where
  "serveCaCert en s =
     (let certContent = (if en_caPem en \<noteq> [] then en_caPem en else en_caFile en)
      in if certContent = [] then sendErrorResponse 500 ''CA Certificate Not Found'' s
         else answer (local_response 200 ''OK'' []) (ca_response certContent) s)"

text \<open>The help page, as the source spells it.\<close>

definition help_html :: "string \<Rightarrow> string" where
  \<open>help_html certPath =
     ''<!DOCTYPE html><html><head><meta charset="utf-8">'' @
     ''<title>BurpTUI CA Certificate</title>'' @
     ''<style>'' @
     ''body{font-family:-apple-system,BlinkMacSystemFont,"Segoe UI",Roboto,sans-serif;background:#14141e;color:#eee;text-align:center;padding:60px 20px;}'' @
     ''.card{max-width:540px;margin:0 auto;background:#1e1e2d;border:1px solid #333348;border-radius:12px;padding:40px 30px;box-shadow:0 8px 30px rgba(0,0,0,0.5);}'' @
     ''h1{color:#00ff88;margin-top:0;font-size:28px;}'' @
     ''p{line-height:1.6;color:#bbb;font-size:15px;}'' @
     ''.btn{display:inline-block;margin-top:20px;padding:12px 28px;background:#00b0ff;color:#000;font-weight:bold;font-size:16px;text-decoration:none;border-radius:6px;}'' @
     ''.btn:hover{background:#00ff88;}'' @
     ''code{background:#0d0d14;padding:4px 8px;border-radius:4px;color:#00ff88;font-size:13px;word-break:break-all;}'' @
     ''</style></head><body>'' @
     ''<div class="card">'' @
     ''<h1>BurpTUI Proxy</h1>'' @
     ''<p>To intercept and inspect encrypted HTTPS traffic without browser security warnings, download and trust the BurpTUI Root CA certificate.</p>'' @
     ''<a class="btn" href="/cert">Download CA Certificate</a>'' @
     ''<p style="margin-top:28px;font-size:13px;color:#777;">Certificate file path on system:<br><br><code>'' @ certPath @ ''</code></p>'' @
     ''</div></body></html>''\<close>

definition help_response :: "string \<Rightarrow> string" where
  "help_response html =
     ''HTTP/1.1 200 OK'' @ crlf @
     ''Content-Type: text/html; charset=utf-8'' @ crlf @
     ''Content-Length: '' @ nat_to_string (length html) @ crlf @
     ''Connection: close'' @ crlf @ crlf @ html"

definition serveBurpHelpPage :: "session_env \<Rightarrow> 'p session \<Rightarrow> 'p session" where
  "serveBurpHelpPage en s =
     answer (local_response 200 ''OK'' []) (help_response (help_html (en_caCertPath en))) s"

section \<open>The upstream connection\<close>

definition connectUpstream :: "'p session \<Rightarrow> 'p session" where
  "connectUpstream s = async_start Resolve s"

definition forwardRequest :: "'p session \<Rightarrow> 'p session" where
  "forwardRequest s =
     (if \<not> ss_clientOpen s then s else connectUpstream (s\<lparr>ss_serverOpen := False\<rparr>))"

text \<open>The completion of the name resolution, and \<open>handleUpstreamConnect\<close>, which it calls.\<close>

definition handleUpstreamConnect :: "'p session \<Rightarrow> 'p session" where
  "handleUpstreamConnect s = async_start Connect s"

definition handleResolve :: "error_code \<Rightarrow> 'p session \<Rightarrow> 'p session" where
  "handleResolve ec s =
     (if ec \<noteq> Ec_ok then sendErrorResponse 502 ''Bad Gateway'' s else handleUpstreamConnect s)"

text \<open>\<open>writeUpstream\<close> is only called after a request was taken; without one it would dereference null.\<close>

definition writeUpstream :: "'p session \<Rightarrow> 'p session" where
  "writeUpstream s =
     (case tx_request (ss_tx s) of
        None \<Rightarrow> s
      | Some req \<Rightarrow>
          let s1 = s\<lparr>ss_serverData := serialize_request req\<rparr>
          in async_start (UpstreamWrite (ss_serverData s1)) s1)"

text \<open>\<open>async_connect\<close> opens the server socket, whether or not the session was closed meanwhile.\<close>

definition handleConnected :: "error_code \<Rightarrow> 'p session \<Rightarrow> 'p session" where
  "handleConnected ec s =
     (if ec \<noteq> Ec_ok then sendErrorResponse 502 ''Bad Gateway'' s
      else let s1 = s\<lparr>ss_serverOpen := True\<rparr>
           in if ss_isConnect s1
              then readUpstream (readClient (writeClient (''HTTP/1.1 200 Connection Established'' @ crlf @ crlf) s1))
              else writeUpstream s1)"

definition handleUpstreamWrite :: "error_code \<Rightarrow> 'p session \<Rightarrow> 'p session" where
  "handleUpstreamWrite ec s =
     (if ec \<noteq> Ec_ok then sendErrorResponse 502 ''Bad Gateway'' s
      else readUpstream (s\<lparr>ss_serverData := []\<rparr>))"

section \<open>Routing\<close>

text \<open>Splitting at the first colon, with a default port when there is none.\<close>

definition split_host_port :: "string \<Rightarrow> string \<Rightarrow> string \<times> string" where
  "split_host_port hostPort port =
     (case str_find hostPort '':'' of
        None \<Rightarrow> (hostPort, port)
      | Some colon \<Rightarrow> (substr hostPort 0 colon, drop (colon + 1) hostPort))"

text \<open>The target: the Host header, else the authority of an absolute URL, else nothing.\<close>

definition request_target :: "http_request \<Rightarrow> string" where
  "request_target req =
     (let hostPort = request_header req ''Host''
      in if hostPort \<noteq> [] then hostPort
         else case str_find (rq_url req) ''://'' of
                None \<Rightarrow> []
              | Some pos \<Rightarrow>
                  let hostStart = pos + 3
                  in (case str_find_from (rq_url req) ''/'' hostStart of
                        Some hostEnd \<Rightarrow> substr (rq_url req) hostStart (hostEnd - hostStart)
                      | None \<Rightarrow> drop hostStart (rq_url req)))"

definition is_local_page :: "string \<Rightarrow> string \<Rightarrow> bool" where
  "is_local_page host url \<longleftrightarrow>
     (let hostLower = map tolower host
      in hostLower = ''burp'' \<or> hostLower = ''burptui'' \<or> url = ''/cert'' \<or> ends_with url ''/cert''
         \<or> (hostLower = ''127.0.0.1'' \<or> hostLower = ''localhost'') \<and> (url = ''/cert'' \<or> str_contains url ''/cert''))"

definition serve_local_page :: "session_env \<Rightarrow> string \<Rightarrow> 'p session \<Rightarrow> 'p session" where
  "serve_local_page en url s =
     (if url = ''/cert'' \<or> ends_with url ''/cert'' \<or> str_contains url ''/cert''
      then serveCaCert en s else serveBurpHelpPage en s)"

text \<open>A CONNECT request: to a TLS session when there is a certificate cache, else a blind tunnel.\<close>

definition handle_connect :: "http_request \<Rightarrow> 'p session \<Rightarrow> cxx_exception + 'p session" where
  "handle_connect req s =
     (let (host, port) = split_host_port (rq_url req) ''443''
      in case stoi (if port = [] then ''443'' else port) of
           Inl e \<Rightarrow> Inl e
         | Inr p \<Rightarrow>
             let tx = (ss_tx s)\<lparr>tx_host := host, tx_port := p, tx_is_https := True,
                        tx_response := Some (local_response 200 ''Connection Established'' [])\<rparr>;
                 s1 = emit (OnTransaction tx) (s\<lparr>ss_tx := tx\<rparr>)
             in Inr (if ss_certCache s
                     then emit (StartMitm host (word_of_int p)) (s1\<lparr>ss_clientOpen := False\<rparr>)
                     else connectUpstream (s1\<lparr>ss_isConnect := True, ss_upstreamHost := host, ss_upstreamPort := port\<rparr>)))"

definition handle_plain :: "session_env \<Rightarrow> http_request \<Rightarrow> 'p session \<Rightarrow> cxx_exception + 'p session" where
  "handle_plain en req s =
     (let hostPort = request_target req
      in if hostPort = [] then Inr (sendErrorResponse 400 ''Bad Request'' s)
         else let (host, port) = split_host_port hostPort ''80''
              in if is_local_page host (rq_url req) then Inr (serve_local_page en (rq_url req) s)
                 else case stoi (if port = [] then ''80'' else port) of
                        Inl e \<Rightarrow> Inl e
                      | Inr p \<Rightarrow>
                          let s1 = s\<lparr>ss_tx := (ss_tx s)\<lparr>tx_host := host, tx_port := p, tx_is_https := False\<rparr>,
                                     ss_upstreamHost := host,
                                     ss_upstreamPort := (if port = [] then ''80'' else port)\<rparr>
                          in Inr (if en_intercept en
                                  then async_start Decision
                                         (emit (InterceptRequest (tx_id (ss_tx s1)) host (word_of_int p) req) s1)
                                  else forwardRequest s1))"

section \<open>Handlers of completions\<close>

definition handle_request :: "session_env \<Rightarrow> http_request \<Rightarrow> 'p session \<Rightarrow> cxx_exception + 'p session" where
  "handle_request en req s =
     (let s1 = s\<lparr>ss_tx := (ss_tx s)\<lparr>tx_id := en_nextId en, tx_request := Some req\<rparr>\<rparr>
      in if rq_method req = ''CONNECT'' then handle_connect req s1 else handle_plain en req s1)"

definition handleClientRead ::
  "'p llhttp \<Rightarrow> session_env \<Rightarrow> error_code \<Rightarrow> string \<Rightarrow> 'p session \<Rightarrow> cxx_exception + 'p session" where
  "handleClientRead ll en ec data s =
     (if ec \<noteq> Ec_ok then Inr (session_close s)
      else let s1 = resetTimer s
           in if ss_isConnect s1 then Inr (readClient (writeServerBlind data s1))
              else let s2 = s1\<lparr>ss_clientData := ss_clientData s1 @ data\<rparr>;
                       (ok, p1) = feedRequest ll data (ss_parser s2);
                       s3 = s2\<lparr>ss_parser := p1\<rparr>
                   in if ok
                      then (case takeRequest ll (ss_parser s3) of
                              (Some req, p2) \<Rightarrow> handle_request en req (s3\<lparr>ss_parser := p2\<rparr>)
                            | (None, p2) \<Rightarrow> Inr (readClient (s3\<lparr>ss_parser := p2\<rparr>)))
                      else if length (ss_clientData s3) < 65536 then Inr (readClient s3)
                      else Inr (sendErrorResponse 400 ''Bad Request'' s3))"

text \<open>The posted decision of the user, with the request as it was edited.\<close>

definition handleDecision :: "intercept_action \<Rightarrow> http_request \<Rightarrow> 'p session \<Rightarrow> 'p session" where
  "handleDecision action req s =
     (if \<not> ss_clientOpen s then s
      else let s1 = resetTimer (s\<lparr>ss_tx := (ss_tx s)\<lparr>tx_request := Some req\<rparr>\<rparr>)
           in if action = Forward then forwardRequest s1
              else sendErrorResponse 502 ''Request Dropped by BurpTUI'' s1)"

definition keep_alive :: "http_request \<Rightarrow> http_response \<Rightarrow> bool" where
  "keep_alive req res \<longleftrightarrow>
     (let connReq = request_header req ''Connection''; connRes = response_header res ''Connection''
      in if rq_version req = ''HTTP/1.1''
         then \<not> str_contains connReq ''close'' \<and> \<not> str_contains connRes ''close''
         else str_contains connReq ''keep-alive'' \<or> str_contains connRes ''keep-alive'')"

text \<open>What follows a complete response.\<close>

definition response_done :: "'p llhttp \<Rightarrow> http_response \<Rightarrow> 'p session \<Rightarrow> 'p session" where
  "response_done ll res s =
     (let s1 = s\<lparr>ss_tx := (ss_tx s)\<lparr>tx_response := Some res\<rparr>\<rparr>;
          s2 = emit (OnTransaction (ss_tx s1)) s1;
          keepAlive = (case tx_request (ss_tx s2) of Some req \<Rightarrow> keep_alive req res | None \<Rightarrow> False)
      in if keepAlive
         then readClient (s2\<lparr>ss_parser := parser_reset ll (ss_parser s2), ss_clientData := [], ss_serverData := [],
                             ss_tx := HttpTransaction, ss_isConnect := False\<rparr>)
         else let s3 = s2\<lparr>ss_closeAfterWrite := True\<rparr>
              in if ss_writeQueue s3 = [] then session_close s3 else s3)"

text \<open>End of the upstream stream: what was kept of the response is parsed once more.\<close>

definition upstream_eof :: "'p llhttp \<Rightarrow> 'p session \<Rightarrow> 'p session" where
  "upstream_eof ll s =
     (if tx_response (ss_tx s) = None \<and> ss_serverData s \<noteq> []
      then let (_, p1) = feedResponse ll (ss_serverData s) (ss_parser s)
           in case takeResponse ll p1 of
                (Some res, p2) \<Rightarrow>
                  let s1 = s\<lparr>ss_parser := p2, ss_tx := (ss_tx s)\<lparr>tx_response := Some res\<rparr>\<rparr>
                  in emit (OnTransaction (ss_tx s1)) s1
              | (None, p2) \<Rightarrow> s\<lparr>ss_parser := p2\<rparr>
      else s)"

definition handleUpstreamRead :: "'p llhttp \<Rightarrow> error_code \<Rightarrow> string \<Rightarrow> 'p session \<Rightarrow> 'p session" where
  "handleUpstreamRead ll ec data s =
     (if ec \<noteq> Ec_ok
      then session_close (if ec = Ec_eof then upstream_eof ll s else s)
      else let s1 = writeClient data (resetTimer s)
           in if ss_isConnect s1 then readUpstream s1
              else let (ok, p1) = feedResponse ll data (ss_parser s1); s2 = s1\<lparr>ss_parser := p1\<rparr>
                   in if ok
                      then (case takeResponse ll (ss_parser s2) of
                              (Some res, p2) \<Rightarrow> response_done ll res (s2\<lparr>ss_parser := p2\<rparr>)
                            | (None, p2) \<Rightarrow> readUpstream (s2\<lparr>ss_parser := p2\<rparr>))
                      else readUpstream s2)"

text \<open>
  The 30 second timer. Cancelling the resolver and the server socket changes no member: it makes
  the outstanding operations complete with \<open>Ec_aborted\<close>.
\<close>

definition handleTimeout :: "error_code \<Rightarrow> 'p session \<Rightarrow> 'p session" where
  "handleTimeout ec s =
     (if ec = Ec_aborted then s
      else if tx_request (ss_tx s) \<noteq> None \<and> tx_response (ss_tx s) = None \<and> \<not> ss_isConnect s
           then sendErrorResponse 504 ''Gateway Timeout'' s
           else session_close s)"

section \<open>The io loop\<close>

text \<open>What a completion delivers: an error code, the bytes read, the user's decision.\<close>

record io_result =
  io_ec :: error_code
  io_data :: string
  io_action :: intercept_action
  io_request :: http_request

fun session_complete ::
  "'p llhttp \<Rightarrow> session_env \<Rightarrow> async_op \<Rightarrow> io_result \<Rightarrow> 'p session \<Rightarrow> cxx_exception + 'p session" where
  "session_complete ll en TimerWait r s = Inr (handleTimeout (io_ec r) s)"
| "session_complete ll en ClientRead r s = handleClientRead ll en (io_ec r) (io_data r) s"
| "session_complete ll en Decision r s = Inr (handleDecision (io_action r) (io_request r) s)"
| "session_complete ll en Resolve r s = Inr (handleResolve (io_ec r) s)"
| "session_complete ll en Connect r s = Inr (handleConnected (io_ec r) s)"
| "session_complete ll en (UpstreamWrite d) r s = Inr (handleUpstreamWrite (io_ec r) s)"
| "session_complete ll en UpstreamRead r s = Inr (handleUpstreamRead ll (io_ec r) (io_data r) s)"
| "session_complete ll en (ClientWrite d) r s = Inr (handleClientWrite (io_ec r) s)"
| "session_complete ll en (ServerWrite d) r s = Inr (handleServerWrite (io_ec r) s)"

definition session_run_op ::
  "'p llhttp \<Rightarrow> session_env \<Rightarrow> async_op \<Rightarrow> io_result \<Rightarrow> 'p session \<Rightarrow> cxx_exception + 'p session" where
  "session_run_op ll en op r s = session_complete ll en op r (s\<lparr>ss_pending := remove1 op (ss_pending s)\<rparr>)"

inductive session_reachable :: "'p llhttp \<Rightarrow> bool \<Rightarrow> 'p session \<Rightarrow> bool" for ll certCache where
  start: "session_reachable ll certCache (session_start (Session ll certCache))"
| step: "session_reachable ll certCache s \<Longrightarrow> op \<in> set (ss_pending s) \<Longrightarrow>
    session_run_op ll en op r s = Inr s' \<Longrightarrow> session_reachable ll certCache s'"

section \<open>What each building block changes\<close>

named_theorems session_simps \<open>the members of a session after its building blocks\<close>

fun main_op :: "async_op \<Rightarrow> bool" where
  "main_op TimerWait = False"
| "main_op (ClientWrite d) = False"
| "main_op (ServerWrite d) = False"
| "main_op _ = True"

text \<open>The outstanding operations that carry the exchange on, and the outstanding writes per socket.\<close>

definition main_ops :: "'p session \<Rightarrow> async_op list" where
  "main_ops s = filter main_op (ss_pending s)"

fun client_write :: "async_op \<Rightarrow> string list" where
  "client_write (ClientWrite d) = [d]"
| "client_write _ = []"

fun server_write :: "async_op \<Rightarrow> string list" where
  "server_write (ServerWrite d) = [d]"
| "server_write _ = []"

definition client_writes :: "'p session \<Rightarrow> string list" where
  "client_writes s = concat (map client_write (ss_pending s))"

definition server_writes :: "'p session \<Rightarrow> string list" where
  "server_writes s = concat (map server_write (ss_pending s))"

lemma concat_remove1: "f x = [] \<Longrightarrow> concat (map f (remove1 x xs)) = concat (map f xs)"
  by (induction xs) auto

lemma client_writes_remove1:
  "concat (map client_write (remove1 (ClientWrite d) xs)) = remove1 d (concat (map client_write xs))"
proof (induction xs)
  case (Cons x xs)
  then show ?case by (cases x) auto
qed simp

lemma server_writes_remove1:
  "concat (map server_write (remove1 (ServerWrite d) xs)) = remove1 d (concat (map server_write xs))"
proof (induction xs)
  case (Cons x xs)
  then show ?case by (cases x) auto
qed simp

text \<open>Updates of members that neither the operations nor the queues depend on.\<close>

lemma async_start_simps [session_simps]:
  "main_ops (async_start op s) = main_ops s @ (if main_op op then [op] else [])"
  "client_writes (async_start op s) = client_writes s @ client_write op"
  "server_writes (async_start op s) = server_writes s @ server_write op"
  "ss_writeQueue (async_start op s) = ss_writeQueue s"
  "ss_writeServerQueue (async_start op s) = ss_writeServerQueue s"
  "ss_clientOpen (async_start op s) = ss_clientOpen s"
  "ss_closeAfterWrite (async_start op s) = ss_closeAfterWrite s"
  "ss_isConnect (async_start op s) = ss_isConnect s"
  "ss_serverData (async_start op s) = ss_serverData s"
  "ss_tx (async_start op s) = ss_tx s"
  "ss_parser (async_start op s) = ss_parser s"
  "ss_effects (async_start op s) = ss_effects s"
  by (simp_all add: main_ops_def client_writes_def server_writes_def async_start_def)

lemma emit_simps [session_simps]:
  "main_ops (emit e s) = main_ops s" "client_writes (emit e s) = client_writes s"
  "server_writes (emit e s) = server_writes s"
  "ss_writeQueue (emit e s) = ss_writeQueue s" "ss_writeServerQueue (emit e s) = ss_writeServerQueue s"
  "ss_clientOpen (emit e s) = ss_clientOpen s" "ss_closeAfterWrite (emit e s) = ss_closeAfterWrite s"
  "ss_isConnect (emit e s) = ss_isConnect s" "ss_serverData (emit e s) = ss_serverData s"
  "ss_tx (emit e s) = ss_tx s" "ss_parser (emit e s) = ss_parser s"
  "ss_effects (emit e s) = ss_effects s @ [e]"
  by (simp_all add: main_ops_def client_writes_def server_writes_def emit_def)

lemma update_simps [session_simps]:
  "main_ops (s\<lparr>ss_tx := tx\<rparr>) = main_ops s" "client_writes (s\<lparr>ss_tx := tx\<rparr>) = client_writes s"
  "main_ops (s\<lparr>ss_clientOpen := b\<rparr>) = main_ops s" "client_writes (s\<lparr>ss_clientOpen := b\<rparr>) = client_writes s"
  "main_ops (s\<lparr>ss_serverOpen := b\<rparr>) = main_ops s" "client_writes (s\<lparr>ss_serverOpen := b\<rparr>) = client_writes s"
  "main_ops (s\<lparr>ss_parser := p\<rparr>) = main_ops s" "client_writes (s\<lparr>ss_parser := p\<rparr>) = client_writes s"
  "main_ops (s\<lparr>ss_clientData := d\<rparr>) = main_ops s" "client_writes (s\<lparr>ss_clientData := d\<rparr>) = client_writes s"
  "main_ops (s\<lparr>ss_serverData := d\<rparr>) = main_ops s" "client_writes (s\<lparr>ss_serverData := d\<rparr>) = client_writes s"
  "main_ops (s\<lparr>ss_upstreamHost := h\<rparr>) = main_ops s" "client_writes (s\<lparr>ss_upstreamHost := h\<rparr>) = client_writes s"
  "main_ops (s\<lparr>ss_upstreamPort := h\<rparr>) = main_ops s" "client_writes (s\<lparr>ss_upstreamPort := h\<rparr>) = client_writes s"
  "main_ops (s\<lparr>ss_isConnect := b\<rparr>) = main_ops s" "client_writes (s\<lparr>ss_isConnect := b\<rparr>) = client_writes s"
  "main_ops (s\<lparr>ss_closeAfterWrite := b\<rparr>) = main_ops s" "client_writes (s\<lparr>ss_closeAfterWrite := b\<rparr>) = client_writes s"
  "main_ops (s\<lparr>ss_writeQueue := q\<rparr>) = main_ops s" "client_writes (s\<lparr>ss_writeQueue := q\<rparr>) = client_writes s"
  "main_ops (s\<lparr>ss_writeServerQueue := q\<rparr>) = main_ops s"
  "client_writes (s\<lparr>ss_writeServerQueue := q\<rparr>) = client_writes s"
  "server_writes (s\<lparr>ss_writeServerQueue := q\<rparr>) = server_writes s"
  "server_writes (s\<lparr>ss_clientOpen := b\<rparr>) = server_writes s" "server_writes (s\<lparr>ss_serverOpen := b\<rparr>) = server_writes s"
  by (simp_all add: main_ops_def client_writes_def server_writes_def)

lemma session_close_simps [session_simps]:
  "main_ops (session_close s) = main_ops s" "client_writes (session_close s) = client_writes s"
  "server_writes (session_close s) = server_writes s"
  "ss_writeQueue (session_close s) = ss_writeQueue s" "ss_writeServerQueue (session_close s) = ss_writeServerQueue s"
  "\<not> ss_clientOpen (session_close s)" "ss_closeAfterWrite (session_close s) = ss_closeAfterWrite s"
  "ss_isConnect (session_close s) = ss_isConnect s" "ss_serverData (session_close s) = ss_serverData s"
  "ss_tx (session_close s) = ss_tx s"
  by (simp_all add: session_close_def Let_def session_simps)

lemma writeClient_simps [session_simps]:
  "main_ops (writeClient d s) = main_ops s"
  "client_writes (writeClient d s) = client_writes s @ (if ss_writeQueue s = [] then [d] else [])"
  "ss_writeQueue (writeClient d s) = ss_writeQueue s @ [d]"
  "ss_clientOpen (writeClient d s) = ss_clientOpen s" "ss_closeAfterWrite (writeClient d s) = ss_closeAfterWrite s"
  "ss_isConnect (writeClient d s) = ss_isConnect s" "ss_serverData (writeClient d s) = ss_serverData s"
  "ss_tx (writeClient d s) = ss_tx s" "ss_parser (writeClient d s) = ss_parser s"
  "ss_effects (writeClient d s) = ss_effects s"
  by (simp_all add: writeClient_def doClientWrite_def Let_def session_simps)

lemma writeServerBlind_simps [session_simps]:
  "main_ops (writeServerBlind d s) = main_ops s" "client_writes (writeServerBlind d s) = client_writes s"
  "server_writes (writeServerBlind d s) = server_writes s @ (if ss_writeServerQueue s = [] then [d] else [])"
  "ss_writeServerQueue (writeServerBlind d s) = ss_writeServerQueue s @ [d]"
  "ss_writeQueue (writeServerBlind d s) = ss_writeQueue s"
  "ss_clientOpen (writeServerBlind d s) = ss_clientOpen s" "ss_closeAfterWrite (writeServerBlind d s) = ss_closeAfterWrite s"
  "ss_isConnect (writeServerBlind d s) = ss_isConnect s" "ss_serverData (writeServerBlind d s) = ss_serverData s"
  by (simp_all add: writeServerBlind_def doServerWrite_def Let_def session_simps)

lemma answer_simps [session_simps]:
  "main_ops (answer res raw s) = main_ops s"
  "client_writes (answer res raw s) = client_writes s @ (if ss_writeQueue s = [] then [raw] else [])"
  "ss_writeQueue (answer res raw s) = ss_writeQueue s @ [raw]"
  "ss_clientOpen (answer res raw s) = ss_clientOpen s" "ss_closeAfterWrite (answer res raw s)"
  "ss_isConnect (answer res raw s) = ss_isConnect s" "ss_serverData (answer res raw s) = ss_serverData s"
  "ss_tx (answer res raw s) = (ss_tx s)\<lparr>tx_response := Some res\<rparr>"
  "ss_effects (answer res raw s) = ss_effects s @ [OnTransaction ((ss_tx s)\<lparr>tx_response := Some res\<rparr>)]"
  by (simp_all add: answer_def Let_def session_simps)

section \<open>The client's write queue\<close>

text \<open>
  At most one write to the client is outstanding, it is the front of the queue, and while the
  socket is open a non-empty queue has its front outstanding. A session that is to close when its
  queue has drained is closed when the queue is empty.
\<close>

definition wr_inv :: "'p session \<Rightarrow> bool" where
  "wr_inv s \<longleftrightarrow> (client_writes s = [] \<or> client_writes s = take 1 (ss_writeQueue s))
     \<and> (ss_clientOpen s \<longrightarrow> client_writes s = take 1 (ss_writeQueue s))
     \<and> (ss_closeAfterWrite s \<and> ss_writeQueue s = [] \<longrightarrow> \<not> ss_clientOpen s)"

named_theorems wr_rules \<open>preservation of the write queue invariant by the building blocks\<close>

lemma wr_inv_fields:
  "client_writes s' = client_writes s \<Longrightarrow> ss_writeQueue s' = ss_writeQueue s \<Longrightarrow>
   ss_clientOpen s' = ss_clientOpen s \<Longrightarrow> ss_closeAfterWrite s' = ss_closeAfterWrite s \<Longrightarrow> wr_inv s' = wr_inv s"
  by (simp add: wr_inv_def)

lemma wr_inv_updates [wr_rules]:
  "wr_inv (s\<lparr>ss_tx := tx\<rparr>) = wr_inv s" "wr_inv (s\<lparr>ss_serverOpen := b\<rparr>) = wr_inv s"
  "wr_inv (s\<lparr>ss_parser := p\<rparr>) = wr_inv s" "wr_inv (s\<lparr>ss_clientData := d\<rparr>) = wr_inv s"
  "wr_inv (s\<lparr>ss_serverData := d\<rparr>) = wr_inv s" "wr_inv (s\<lparr>ss_upstreamHost := h\<rparr>) = wr_inv s"
  "wr_inv (s\<lparr>ss_upstreamPort := h\<rparr>) = wr_inv s" "wr_inv (s\<lparr>ss_isConnect := b\<rparr>) = wr_inv s"
  "wr_inv (s\<lparr>ss_writeServerQueue := q\<rparr>) = wr_inv s" "wr_inv (emit e s) = wr_inv s"
  "client_write op = [] \<Longrightarrow> wr_inv (async_start op s) = wr_inv s"
  by (rule wr_inv_fields; simp add: session_simps)+

lemma wr_inv_closed [wr_rules]: "wr_inv s \<Longrightarrow> wr_inv (s\<lparr>ss_clientOpen := False\<rparr>)"
  by (simp add: wr_inv_def session_simps)

lemma wr_inv_close [wr_rules]: "wr_inv s \<Longrightarrow> wr_inv (session_close s)"
  by (simp add: wr_inv_def session_simps)

lemma wr_inv_writeClient [wr_rules]: "wr_inv s \<Longrightarrow> wr_inv (writeClient d s)"
  by (cases "ss_writeQueue s") (auto simp: wr_inv_def session_simps)

lemma wr_inv_writeServer [wr_rules]: "wr_inv (writeServerBlind d s) = wr_inv s"
  by (rule wr_inv_fields) (simp_all add: session_simps)

lemma wr_inv_answer [wr_rules]: "wr_inv s \<Longrightarrow> wr_inv (answer res raw s)"
  by (cases "ss_writeQueue s") (auto simp: wr_inv_def session_simps)

lemma wr_inv_start_simps [wr_rules]:
  "wr_inv (resetTimer s) = wr_inv s" "wr_inv (readClient s) = wr_inv s" "wr_inv (readUpstream s) = wr_inv s"
  "wr_inv (connectUpstream s) = wr_inv s" "wr_inv (handleUpstreamConnect s) = wr_inv s" "wr_inv (forwardRequest s) = wr_inv s"
  "wr_inv (writeUpstream s) = wr_inv s"
  by (simp_all add: resetTimer_def readClient_def readUpstream_def connectUpstream_def
      handleUpstreamConnect_def forwardRequest_def writeUpstream_def Let_def wr_rules split: option.split)

lemma wr_inv_local [wr_rules]:
  "wr_inv s \<Longrightarrow> wr_inv (sendErrorResponse c t s)" "wr_inv s \<Longrightarrow> wr_inv (serveCaCert en s)"
  "wr_inv s \<Longrightarrow> wr_inv (serveBurpHelpPage en s)" "wr_inv s \<Longrightarrow> wr_inv (serve_local_page en u s)"
  by (simp_all add: sendErrorResponse_def serveCaCert_def serveBurpHelpPage_def serve_local_page_def Let_def wr_rules)

lemma wr_inv_last [wr_rules]:
  "wr_inv s \<Longrightarrow> wr_inv (session_close (s\<lparr>ss_closeAfterWrite := True\<rparr>))"
  "wr_inv s \<Longrightarrow> ss_writeQueue s \<noteq> [] \<Longrightarrow> wr_inv (s\<lparr>ss_closeAfterWrite := True\<rparr>)"
  by (simp_all add: wr_inv_def session_simps)

lemma wr_inv_response_done: "wr_inv s \<Longrightarrow> wr_inv (response_done ll res s)"
  by (simp add: response_done_def Let_def wr_rules session_simps)

lemma wr_inv_request: "handle_request en req s = Inr s' \<Longrightarrow> wr_inv s \<Longrightarrow> wr_inv s'"
  by (auto simp: handle_request_def handle_connect_def handle_plain_def Let_def wr_rules
      split: prod.splits sum.splits if_splits)

lemma wr_inv_handlers:
  assumes "wr_inv s"
  shows "wr_inv (handleTimeout ec s)" "wr_inv (handleResolve ec s)" "wr_inv (handleConnected ec s)"
    "wr_inv (handleUpstreamWrite ec s)" "wr_inv (handleUpstreamRead ll ec data s)" "wr_inv (handleDecision act req s)"
    "handleClientRead ll en ec data s = Inr s' \<Longrightarrow> wr_inv s'"
    "wr_inv (handleServerWrite ec s)"
proof -
  show "wr_inv (handleTimeout ec s)" "wr_inv (handleResolve ec s)" "wr_inv (handleConnected ec s)"
    "wr_inv (handleUpstreamWrite ec s)" "wr_inv (handleDecision act req s)" "wr_inv (handleServerWrite ec s)"
    using assms by (simp_all add: handleTimeout_def handleResolve_def handleConnected_def handleUpstreamWrite_def
        handleDecision_def handleServerWrite_def doServerWrite_def Let_def wr_rules)
  have "wr_inv (upstream_eof ll s)"
    using assms by (simp add: upstream_eof_def Let_def wr_rules split: prod.split option.split)
  then show "wr_inv (handleUpstreamRead ll ec data s)"
    using assms by (simp add: handleUpstreamRead_def Let_def wr_rules wr_inv_response_done split: prod.split option.split)
  show "handleClientRead ll en ec data s = Inr s' \<Longrightarrow> wr_inv s'"
    using assms
    by (auto simp: handleClientRead_def Let_def wr_rules split: prod.splits option.splits if_splits
        elim!: wr_inv_request)
qed

lemma remove1_other: "client_write op = [] \<Longrightarrow> wr_inv (s\<lparr>ss_pending := remove1 op (ss_pending s)\<rparr>) = wr_inv s"
  by (rule wr_inv_fields) (simp_all add: client_writes_def concat_remove1)

lemma wr_inv_ClientWrite:
  assumes "wr_inv s" "ClientWrite d \<in> set (ss_pending s)"
  shows "ss_writeQueue s = d # tl (ss_writeQueue s)"
    "client_writes (s\<lparr>ss_pending := remove1 (ClientWrite d) (ss_pending s)\<rparr>) = []"
proof -
  have "d \<in> set (client_writes s)" using assms(2) by (force simp: client_writes_def)
  with assms(1) have w: "client_writes s = take 1 (ss_writeQueue s)" by (auto simp: wr_inv_def)
  with \<open>d \<in> _\<close> show "ss_writeQueue s = d # tl (ss_writeQueue s)" by (cases "ss_writeQueue s") auto
  with w have "client_writes s = [d]" by (cases "ss_writeQueue s") auto
  then show "client_writes (s\<lparr>ss_pending := remove1 (ClientWrite d) (ss_pending s)\<rparr>) = []"
    by (simp add: client_writes_def client_writes_remove1)
qed

lemma wr_inv_handleClientWrite:
  assumes "wr_inv s" "ClientWrite d \<in> set (ss_pending s)"
  shows "wr_inv (handleClientWrite ec (s\<lparr>ss_pending := remove1 (ClientWrite d) (ss_pending s)\<rparr>))"
proof -
  note q = wr_inv_ClientWrite [OF assms]
  then show ?thesis
    by (cases "tl (ss_writeQueue s)")
      (auto simp: handleClientWrite_def doClientWrite_def Let_def wr_inv_def session_simps)
qed

lemma wr_inv_run_op:
  assumes "wr_inv s" "op \<in> set (ss_pending s)" "session_run_op ll en op r s = Inr s'"
  shows "wr_inv s'"
proof (cases "client_write op = []")
  case True
  with assms(1) have "wr_inv (s\<lparr>ss_pending := remove1 op (ss_pending s)\<rparr>)" by (simp add: remove1_other)
  note h = wr_inv_handlers [OF this]
  from assms(3) True h show ?thesis by (cases op) (auto simp: session_run_op_def)
next
  case False
  then obtain d where "op = ClientWrite d" by (cases op) auto
  then show ?thesis using assms wr_inv_handleClientWrite by (auto simp: session_run_op_def)
qed

lemma wr_inv_reachable: "session_reachable ll c s \<Longrightarrow> wr_inv s"
proof (induction rule: session_reachable.induct)
  case start
  show ?case by (simp add: session_start_def wr_rules) (simp add: wr_inv_def Session_def client_writes_def)
qed (rule wr_inv_run_op)


section \<open>One thread of control\<close>

text \<open>
  Outside a tunnel at most one operation is outstanding that carries the exchange on, and text for
  the server is kept only while it is being written. In a tunnel at most one read per direction is
  outstanding, and none before the connection is made.
\<close>

definition client_side :: "async_op \<Rightarrow> bool" where
  "client_side op \<longleftrightarrow> op \<in> {Resolve, Connect, ClientRead}"

definition server_side :: "async_op \<Rightarrow> bool" where
  "server_side op \<longleftrightarrow> op \<in> {Resolve, Connect, UpstreamRead}"

definition tok_inv :: "'p session \<Rightarrow> bool" where
  "tok_inv s \<longleftrightarrow>
     (if ss_isConnect s
      then length (filter client_side (main_ops s)) \<le> 1 \<and> length (filter server_side (main_ops s)) \<le> 1
         \<and> (\<forall>op \<in> set (main_ops s). client_side op \<or> server_side op) \<and> ss_serverData s = []
      else length (main_ops s) \<le> 1
         \<and> (ss_serverData s \<noteq> [] \<longrightarrow> set (main_ops s) \<subseteq> {UpstreamWrite (ss_serverData s)}))"

lemmas start_defs = resetTimer_def readClient_def readUpstream_def connectUpstream_def
  handleUpstreamConnect_def

lemma tok_inv_fields:
  "main_ops s' = main_ops s \<Longrightarrow> ss_isConnect s' = ss_isConnect s \<Longrightarrow> ss_serverData s' = ss_serverData s
     \<Longrightarrow> tok_inv s' = tok_inv s"
  by (simp add: tok_inv_def)

lemma local_simps [session_simps]:
  "main_ops (sendErrorResponse c t s) = main_ops s" "ss_isConnect (sendErrorResponse c t s) = ss_isConnect s"
  "ss_serverData (sendErrorResponse c t s) = ss_serverData s"
  "main_ops (serve_local_page en u s) = main_ops s" "ss_isConnect (serve_local_page en u s) = ss_isConnect s"
  "ss_serverData (serve_local_page en u s) = ss_serverData s"
  by (simp_all add: sendErrorResponse_def serve_local_page_def serveCaCert_def serveBurpHelpPage_def
      Let_def session_simps)

text \<open>Completions that carry nothing on: timers and queued writes.\<close>

lemma side_simps [session_simps]:
  "main_ops (handleTimeout ec s) = main_ops s" "ss_isConnect (handleTimeout ec s) = ss_isConnect s"
  "ss_serverData (handleTimeout ec s) = ss_serverData s"
  "main_ops (handleClientWrite ec s) = main_ops s" "ss_isConnect (handleClientWrite ec s) = ss_isConnect s"
  "ss_serverData (handleClientWrite ec s) = ss_serverData s"
  "main_ops (handleServerWrite ec s) = main_ops s" "ss_isConnect (handleServerWrite ec s) = ss_isConnect s"
  "ss_serverData (handleServerWrite ec s) = ss_serverData s"
  by (simp_all add: handleTimeout_def handleClientWrite_def doClientWrite_def handleServerWrite_def
      doServerWrite_def Let_def session_simps)

lemma tok_inv_side:
  assumes "tok_inv s"
  shows "tok_inv (handleTimeout ec s)" "tok_inv (handleClientWrite ec s)" "tok_inv (handleServerWrite ec s)"
  using assms by (simp_all only: tok_inv_def session_simps)

text \<open>Outside a tunnel: the operation completed was the only one.\<close>

lemma tok_request:
  assumes "handle_request en req s = Inr s'" "\<not> ss_isConnect s" "main_ops s = []" "ss_serverData s = []"
  shows "tok_inv s'"
  using assms
  by (auto simp: handle_request_def handle_connect_def handle_plain_def forwardRequest_def Let_def tok_inv_def
      session_simps start_defs client_side_def server_side_def split: prod.splits sum.splits if_splits)

lemma tok_plain:
  assumes "\<not> ss_isConnect s" "main_ops s = []"
  shows "ss_serverData s = [] \<Longrightarrow> handleClientRead ll en ec data s = Inr s' \<Longrightarrow> tok_inv s'"
    "ss_serverData s = [] \<Longrightarrow> tok_inv (handleDecision act req s)"
    "ss_serverData s = [] \<Longrightarrow> tok_inv (handleResolve ec s)"
    "ss_serverData s = [] \<Longrightarrow> tok_inv (handleConnected ec s)"
    "tok_inv (handleUpstreamWrite ec s)"
    "ss_serverData s = [] \<Longrightarrow> tok_inv (handleUpstreamRead ll ec data s)"
proof -
  show "ss_serverData s = [] \<Longrightarrow> handleClientRead ll en ec data s = Inr s' \<Longrightarrow> tok_inv s'"
    using assms
    by (auto simp: handleClientRead_def Let_def start_defs session_simps tok_inv_def [of "session_close s"]
        split: prod.splits option.splits if_splits elim!: tok_request)
      (simp_all add: tok_inv_def session_simps)
  show "ss_serverData s = [] \<Longrightarrow> tok_inv (handleDecision act req s)"
    "ss_serverData s = [] \<Longrightarrow> tok_inv (handleResolve ec s)"
    "ss_serverData s = [] \<Longrightarrow> tok_inv (handleConnected ec s)"
    "tok_inv (handleUpstreamWrite ec s)"
    using assms
    by (simp_all add: handleDecision_def forwardRequest_def handleResolve_def handleConnected_def writeUpstream_def
        handleUpstreamWrite_def Let_def tok_inv_def start_defs session_simps split: option.split)
  have "tok_inv (response_done ll res s)" if "\<not> ss_isConnect s" "main_ops s = []" "ss_serverData s = []"
    for res and s :: "'a session"
    using that by (simp add: response_done_def Let_def tok_inv_def start_defs session_simps)
  then show "ss_serverData s = [] \<Longrightarrow> tok_inv (handleUpstreamRead ll ec data s)"
    using assms
    by (simp add: handleUpstreamRead_def upstream_eof_def Let_def start_defs session_simps
        tok_inv_def [of "session_close s"] tok_inv_def [of "async_start UpstreamRead _"] split: prod.split option.split)
qed

text \<open>In a tunnel.\<close>

lemma tok_tunnel:
  assumes "tok_inv s" "ss_isConnect s"
  shows "filter client_side (main_ops s) = [] \<Longrightarrow> handleClientRead ll en ec data s = Inr s' \<Longrightarrow> tok_inv s'"
    "filter client_side (main_ops s) = [] \<Longrightarrow> filter server_side (main_ops s) = [] \<Longrightarrow> tok_inv (handleResolve ec s)"
    "filter client_side (main_ops s) = [] \<Longrightarrow> filter server_side (main_ops s) = [] \<Longrightarrow> tok_inv (handleConnected ec s)"
    "filter server_side (main_ops s) = [] \<Longrightarrow> tok_inv (handleUpstreamRead ll ec data s)"
  using assms
  by (auto simp: handleClientRead_def handleResolve_def handleConnected_def handleUpstreamRead_def upstream_eof_def
      Let_def tok_inv_def start_defs session_simps client_side_def server_side_def split: if_splits)

lemma main_ops_remove1:
  "main_ops (s\<lparr>ss_pending := remove1 op (ss_pending s)\<rparr>) = (if main_op op then remove1 op (main_ops s) else main_ops s)"
  by (simp add: main_ops_def filter_remove1 remove1_idem)

lemma filter_main_remove1:
  "op \<in> set xs \<Longrightarrow> P op \<Longrightarrow> length (filter P xs) \<le> 1 \<Longrightarrow> filter P (remove1 op xs) = []"
proof -
  assume *: "op \<in> set xs" "P op" "length (filter P xs) \<le> 1"
  then have "op \<in> set (filter P xs)" by simp
  with *(3) have "filter P xs = [op]" by (cases "filter P xs") auto
  then show ?thesis by (simp add: filter_remove1)
qed

lemma length_filter_remove1: "length (filter P (remove1 x xs)) \<le> length (filter P xs)"
  by (simp add: filter_remove1 length_remove1)

lemma tok_inv_remove:
  assumes "tok_inv s" "ss_isConnect s" "main_ops s' = remove1 op (main_ops s)"
    "ss_isConnect s'" "ss_serverData s' = ss_serverData s"
  shows "tok_inv s'"
proof -
  from assms(1,2) have t: "length (filter client_side (main_ops s)) \<le> 1" "length (filter server_side (main_ops s)) \<le> 1"
    "\<forall>op \<in> set (main_ops s). client_side op \<or> server_side op" "ss_serverData s = []"
    by (simp_all add: tok_inv_def)
  have "\<forall>op \<in> set (main_ops s'). client_side op \<or> server_side op"
    unfolding assms(3) using t(3) set_remove1_subset by fastforce
  moreover have "length (filter client_side (main_ops s')) \<le> 1" "length (filter server_side (main_ops s')) \<le> 1"
    unfolding assms(3) by (rule le_trans [OF length_filter_remove1 t(1)]) (rule le_trans [OF length_filter_remove1 t(2)])
  ultimately show ?thesis using assms(4,5) t(4) by (simp add: tok_inv_def)
qed

text \<open>Completing a main operation, outside a tunnel and inside one.\<close>

lemma tok_plain_run:
  assumes inv: "tok_inv s" "\<not> ss_isConnect s" and op: "op \<in> set (ss_pending s)" "main_op op"
    and run: "session_run_op ll en op r s = Inr s'"
  shows "tok_inv s'"
proof -
  let ?s = "s\<lparr>ss_pending := remove1 op (ss_pending s)\<rparr>"
  have "op \<in> set (main_ops s)" using op by (simp add: main_ops_def)
  hence one: "main_ops s = [op]" using inv by (cases "main_ops s") (auto simp: tok_inv_def)
  hence "main_ops ?s = []" using op(2) by (simp add: main_ops_remove1)
  moreover have "(\<forall>d. op \<noteq> UpstreamWrite d) \<Longrightarrow> ss_serverData ?s = []"
    using inv one by (auto simp: tok_inv_def)
  ultimately show ?thesis
    using tok_plain [of ?s] inv(2) run [unfolded session_run_op_def] op(2) by (cases op) auto
qed

lemma tok_tunnel_run:
  assumes inv: "tok_inv s" "ss_isConnect s" and op: "op \<in> set (ss_pending s)" "main_op op"
    and run: "session_run_op ll en op r s = Inr s'"
  shows "tok_inv s'"
proof -
  let ?s = "s\<lparr>ss_pending := remove1 op (ss_pending s)\<rparr>"
  note run = run [unfolded session_run_op_def]
  have mem: "op \<in> set (main_ops s)" using op by (simp add: main_ops_def)
  have ops: "main_ops ?s = remove1 op (main_ops s)" using op(2) by (simp add: main_ops_remove1)
  have t: "length (filter client_side (main_ops s)) \<le> 1" "length (filter server_side (main_ops s)) \<le> 1"
    "\<forall>op \<in> set (main_ops s). client_side op \<or> server_side op"
    using inv by (simp_all add: tok_inv_def)
  have inv': "tok_inv ?s" "ss_isConnect ?s" using tok_inv_remove [OF inv ops] inv(2) by simp_all
  have c: "client_side op \<Longrightarrow> filter client_side (main_ops ?s) = []"
    unfolding ops using filter_main_remove1 [of op "main_ops s" client_side] mem t(1) by simp
  have v: "server_side op \<Longrightarrow> filter server_side (main_ops ?s) = []"
    unfolding ops using filter_main_remove1 [of op "main_ops s" server_side] mem t(2) by simp
  from t(3) mem have "client_side op \<or> server_side op" by blast
  then consider "op = ClientRead" | "op = Resolve" | "op = Connect" | "op = UpstreamRead"
    by (auto simp: client_side_def server_side_def)
  then show ?thesis
  proof cases
    case 1
    then show ?thesis using tok_tunnel(1) [OF inv' c] run by (auto simp: client_side_def)
  next
    case 2
    then show ?thesis using tok_tunnel(2) [OF inv' c v] run by (auto simp: client_side_def server_side_def)
  next
    case 3
    then show ?thesis using tok_tunnel(3) [OF inv' c v] run by (auto simp: client_side_def server_side_def)
  next
    case 4
    then show ?thesis using tok_tunnel(4) [OF inv' v] run by (auto simp: server_side_def)
  qed
qed

lemma tok_inv_run_op:
  assumes inv: "tok_inv s" and op: "op \<in> set (ss_pending s)" and run: "session_run_op ll en op r s = Inr s'"
  shows "tok_inv s'"
proof (cases "main_op op")
  case True
  then show ?thesis using tok_plain_run [OF inv _ op _ run] tok_tunnel_run [OF inv _ op _ run] by blast
next
  case False
  then have "tok_inv (s\<lparr>ss_pending := remove1 op (ss_pending s)\<rparr>) = tok_inv s"
    by (intro tok_inv_fields) (simp_all add: main_ops_remove1)
  with inv have "tok_inv (s\<lparr>ss_pending := remove1 op (ss_pending s)\<rparr>)" by simp
  with tok_inv_side [OF this] False run [unfolded session_run_op_def] show ?thesis by (cases op) auto
qed

lemma tok_inv_reachable: "session_reachable ll c s \<Longrightarrow> tok_inv s"
proof (induction rule: session_reachable.induct)
  case start
  show ?case
    by (simp add: session_start_def tok_inv_def start_defs session_simps) (simp add: Session_def main_ops_def)
qed (rule tok_inv_run_op)


section \<open>Write queues\<close>

text \<open>A successful completion of the outstanding write, as the io loop runs it.\<close>

definition client_written :: "'p session \<Rightarrow> 'p session" where
  "client_written s = handleClientWrite Ec_ok
     (s\<lparr>ss_pending := remove1 (ClientWrite (hd (ss_writeQueue s))) (ss_pending s)\<rparr>)"

definition server_written :: "'p session \<Rightarrow> 'p session" where
  "server_written s = handleServerWrite Ec_ok
     (s\<lparr>ss_pending := remove1 (ServerWrite (hd (ss_writeServerQueue s))) (ss_pending s)\<rparr>)"

interpretation to_client: write_queue ss_writeQueue client_writes writeClient client_written "\<lambda>_. True"
proof (unfold_locales, goal_cases)
  case (5 s d q)
  then have "client_writes (s\<lparr>ss_pending := remove1 (ClientWrite d) (ss_pending s)\<rparr>) = []"
    by (simp add: client_writes_def client_writes_remove1)
  with 5 show ?case
    by (cases q) (simp_all add: client_written_def handleClientWrite_def doClientWrite_def Let_def session_simps)
qed (simp_all add: session_simps client_written_def handleClientWrite_def doClientWrite_def Let_def)

lemma server_writes_close [session_simps]: "server_writes (s\<lparr>ss_pending := ops\<rparr>) = concat (map server_write ops)"
  by (simp add: server_writes_def)

interpretation to_server: write_queue ss_writeServerQueue server_writes writeServerBlind server_written "\<lambda>_. True"
proof (unfold_locales, goal_cases)
  case (5 s d q)
  then have "server_writes (s\<lparr>ss_pending := remove1 (ServerWrite d) (ss_pending s)\<rparr>) = []"
    by (simp add: server_writes_def server_writes_remove1)
  with 5 show ?case
    by (cases q) (simp_all add: server_written_def handleServerWrite_def doServerWrite_def Let_def session_simps del: server_writes_close)
qed (simp_all add: session_simps server_written_def handleServerWrite_def doServerWrite_def Let_def)

text \<open>A run of a queue: \<open>Some d\<close> hands \<open>d\<close> over for writing, \<open>None\<close> completes a write.\<close>

fun client_channel :: "string option list \<Rightarrow> 'p session \<Rightarrow> string list \<times> string list \<times> 'p session" where
  "client_channel [] s = ([], [], s)"
| "client_channel (Some d # es) s = (case client_channel es (writeClient d s) of (w, a, s') \<Rightarrow> (w, d # a, s'))"
| "client_channel (None # es) s =
     (if ss_writeQueue s \<noteq> []
      then case client_channel es (client_written s) of (w, a, s') \<Rightarrow> (hd (ss_writeQueue s) # w, a, s')
      else ([], [], s))"

lemma client_channel_eq: "client_channel es s = to_client.channel es s"
  by (induction es s rule: client_channel.induct) simp_all

fun server_channel :: "string option list \<Rightarrow> 'p session \<Rightarrow> string list \<times> string list \<times> 'p session" where
  "server_channel [] s = ([], [], s)"
| "server_channel (Some d # es) s = (case server_channel es (writeServerBlind d s) of (w, a, s') \<Rightarrow> (w, d # a, s'))"
| "server_channel (None # es) s =
     (if ss_writeServerQueue s \<noteq> []
      then case server_channel es (server_written s) of (w, a, s') \<Rightarrow> (hd (ss_writeServerQueue s) # w, a, s')
      else ([], [], s))"

lemma server_channel_eq: "server_channel es s = to_server.channel es s"
  by (induction es s rule: server_channel.induct) simp_all

section \<open>Properties\<close>


text \<open>
  C11: In every reachable state, whatever the results of earlier operations were, at most one write to
  the client is outstanding and it is the front of the queue; as long as the socket is open a
  non-empty queue is being written; and a session that is to close after its last write does not stay
  open with an empty queue.
\<close>
theorem session_writes_serialised:
  assumes "session_reachable ll certCache s"
  shows "(client_writes s = [] \<or> client_writes s = take 1 (ss_writeQueue s))
     \<and> (ss_clientOpen s \<longrightarrow> client_writes s = take 1 (ss_writeQueue s))
     \<and> (ss_closeAfterWrite s \<and> ss_writeQueue s = [] \<longrightarrow> \<not> ss_clientOpen s)"
  using wr_inv_reachable [OF assms] by (simp add: wr_inv_def)

text \<open>
  C10: Outside a tunnel the session is sequential: at most one operation is outstanding that carries the
  exchange on (a read, the user's decision, resolving, connecting, the upstream write). In a tunnel at
  most one read per direction is outstanding, none before the connection stands.
\<close>
theorem session_one_exchange:
  assumes "session_reachable ll certCache s"
  shows "if ss_isConnect s
    then length (filter client_side (main_ops s)) \<le> 1 \<and> length (filter server_side (main_ops s)) \<le> 1
      \<and> (\<forall>op \<in> set (main_ops s). client_side op \<or> server_side op)
    else length (main_ops s) \<le> 1"
  using tok_inv_reachable [OF assms] by (auto simp: tok_inv_def split: if_splits)

lemma reading_no_data:
  assumes "session_reachable ll certCache s" "UpstreamRead \<in> set (ss_pending s)"
  shows "ss_serverData s = []"
proof -
  from assms(2) have "UpstreamRead \<in> set (main_ops s)" by (simp add: main_ops_def)
  then show ?thesis using tok_inv_reachable [OF assms(1)] by (auto simp: tok_inv_def split: if_splits)
qed

text \<open>
  A response that the server ends by closing the connection is never recorded: in every reachable
  state the end of the upstream stream closes the session and reports no transaction, because the
  buffer that the end-of-stream branch would parse is empty whenever a read is outstanding.
\<close>
theorem session_eof_records_nothing:
  assumes "session_reachable ll certCache s" "UpstreamRead \<in> set (ss_pending s)" "io_ec r = Ec_eof"
  shows "session_run_op ll en UpstreamRead r s
    = Inr (session_close (s\<lparr>ss_pending := remove1 UpstreamRead (ss_pending s)\<rparr>))"
  using assms(3) reading_no_data [OF assms(1,2)]
  by (simp add: session_run_op_def handleUpstreamRead_def upstream_eof_def)

text \<open>
  When the 30 second timer fires while the name of the upstream host is being resolved, the client
  is sent two responses and two transactions are reported: the timeout's 504, and a 502 for the
  resolution that the timeout handler has itself cancelled.
\<close>
theorem session_timeout_answers_twice:
  assumes "tx_request (ss_tx s) \<noteq> None" "tx_response (ss_tx s) = None" "\<not> ss_isConnect s"
  shows "let s' = handleResolve Ec_aborted (handleTimeout Ec_ok s)
    in ss_writeQueue s' = ss_writeQueue s @ [error_response 504 ''Gateway Timeout'', error_response 502 ''Bad Gateway'']
     \<and> (\<exists>t1 t2. ss_effects s' = ss_effects s @ [OnTransaction t1, OnTransaction t2]
          \<and> map_option rs_statusCode (tx_response t1) = Some 504
          \<and> map_option rs_statusCode (tx_response t2) = Some 502)"
  using assms
  by (simp add: handleTimeout_def handleResolve_def sendErrorResponse_def Let_def session_simps local_response_def)

text \<open>
  Where a plain request goes. With a Host header \<open>h\<close> or \<open>h:p\<close>, for a host that is not one of the
  proxy's own pages and a numeric port, the session connects to \<open>h\<close> at \<open>p\<close> (80 without one) with the
  request as received, and discards any earlier server connection.
\<close>
theorem session_routes_by_host:
  assumes "request_header req ''Host'' = h @ (if p = [] then [] else '':'' @ p)" "h \<noteq> []" "CHR '':'' \<notin> set h"
    and "stoi (if p = [] then ''80'' else p) = Inr port" "\<not> is_local_page h (rq_url req)"
    and "rq_method req \<noteq> ''CONNECT''" "\<not> en_intercept en" "ss_clientOpen s"
  shows "\<exists>s'. handle_request en req s = Inr s' \<and> ss_upstreamHost s' = h
     \<and> ss_upstreamPort s' = (if p = [] then ''80'' else p)
     \<and> tx_request (ss_tx s') = Some req \<and> tx_host (ss_tx s') = h \<and> tx_port (ss_tx s') = port
     \<and> \<not> ss_serverOpen s' \<and> ss_pending s' = ss_pending s @ [Resolve]"
proof -
  have none: "str_find h '':'' = None" using assms(3) by (simp add: str_find_char_None)
  have "split_host_port (h @ (if p = [] then [] else '':'' @ p)) ''80'' = (h, if p = [] then ''80'' else p)"
    using str_find_char_first [OF assms(3), of p] by (simp add: split_host_port_def none substr_def)
  moreover have "request_target req = h @ (if p = [] then [] else '':'' @ p)"
    using assms(1,2) by (simp add: request_target_def Let_def)
  ultimately show ?thesis
    using assms(2,4-8)
    by (cases "p = []") (simp_all add: handle_request_def handle_plain_def forwardRequest_def connectUpstream_def async_start_def Let_def)
qed

text \<open>
  A port that is no number ends the proxy, not the request: for CONNECT with such a port, and for a
  request whose Host header has one (every IPv6 literal, as in \<open>[::1]:8080\<close>), the conversion's
  exception leaves the handler, so that no handler of any session runs again.
\<close>
theorem session_bad_port_escapes:
  "handle_request en (HttpRequest\<lparr>rq_method := ''CONNECT'', rq_url := ''example.com:https''\<rparr>) s = Inl Invalid_argument
   \<and> handle_request en (HttpRequest\<lparr>rq_method := ''CONNECT'', rq_url := ''example.com:99999999999''\<rparr>) s = Inl Out_of_range
   \<and> handle_request en (HttpRequest\<lparr>rq_method := ''GET'', rq_url := ''/'',
         rq_headers := [(''Host'', ''[::1]:8080'')]\<rparr>) s = Inl Invalid_argument"
proof (intro conjI)
  have "split_host_port ''example.com:https'' ''443'' = (''example.com'', ''https'')"
    "split_host_port ''example.com:99999999999'' ''443'' = (''example.com'', ''99999999999'')"
    "stoi ''https'' = Inl Invalid_argument"
    by code_simp+
  moreover have "stoi ''99999999999'' = Inl Out_of_range"
    by (simp add: stoi_def isspace_def isdigit_def byte_of_def dec_value_def Let_def)
  ultimately show "handle_request en (HttpRequest\<lparr>rq_method := ''CONNECT'', rq_url := ''example.com:https''\<rparr>) s = Inl Invalid_argument"
    "handle_request en (HttpRequest\<lparr>rq_method := ''CONNECT'', rq_url := ''example.com:99999999999''\<rparr>) s = Inl Out_of_range"
    by (simp_all add: handle_request_def handle_connect_def Let_def)
  have "request_target (HttpRequest\<lparr>rq_method := ''GET'', rq_url := ''/'', rq_headers := [(''Host'', ''[::1]:8080'')]\<rparr>) = ''[::1]:8080''"
    "split_host_port ''[::1]:8080'' ''80'' = (''['', '':1]:8080'')"
    "stoi '':1]:8080'' = Inl Invalid_argument" "\<not> is_local_page ''['' ''/''"
    by code_simp+
  then show "handle_request en (HttpRequest\<lparr>rq_method := ''GET'', rq_url := ''/'',
         rq_headers := [(''Host'', ''[::1]:8080'')]\<rparr>) s = Inl Invalid_argument"
    by (simp add: handle_request_def handle_plain_def Let_def)
qed

text \<open>
  The download page shadows other sites: any plain request whose URL ends in \<open>/cert\<close>, whatever its
  host, is answered with the CA certificate and never forwarded.
\<close>
lemma session_cert_suffix_hijack:
  assumes "request_target req \<noteq> []" "ends_with (rq_url req) ''/cert''" "rq_method req \<noteq> ''CONNECT''" "en_caPem en \<noteq> []"
  shows "\<exists>s'. handle_request en req s = Inr s' \<and> ss_writeQueue s' = ss_writeQueue s @ [ca_response (en_caPem en)]
     \<and> ss_closeAfterWrite s' \<and> main_ops s' = main_ops s"
  using assms
  by (simp add: handle_request_def handle_plain_def is_local_page_def serve_local_page_def serveCaCert_def
      Let_def session_simps split: prod.split)

text \<open>
  A complete response on a connection that is kept alive puts the session back into its initial
  protocol state: no transaction, fresh parsers, empty buffers, and a read from the client
  outstanding; on any other connection the session closes as soon as the response is written.
\<close>
theorem session_after_response:
  assumes "tx_request (ss_tx s) = Some req"
  shows "let s' = response_done ll res s in
     (keep_alive req res \<longrightarrow> ss_tx s' = HttpTransaction \<and> ss_parser s' = HttpParser ll \<and> ss_clientData s' = []
        \<and> ss_serverData s' = [] \<and> \<not> ss_isConnect s' \<and> ss_pending s' = ss_pending s @ [ClientRead]
        \<and> ss_clientOpen s' = ss_clientOpen s)
   \<and> (\<not> keep_alive req res \<longrightarrow> ss_closeAfterWrite s' \<and> (ss_writeQueue s = [] \<longrightarrow> \<not> ss_clientOpen s')
        \<and> main_ops s' = main_ops s)
   \<and> ss_effects s' = ss_effects s @ OnTransaction ((ss_tx s)\<lparr>tx_response := Some res\<rparr>)
        # (if \<not> keep_alive req res \<and> ss_writeQueue s = [] \<and> tx_id (ss_tx s) \<noteq> 0 then [RemoveById (tx_id (ss_tx s))] else [])"
  using assms
  by (simp add: response_done_def Let_def readClient_def parser_reset_def HttpParser_def session_close_def emit_def
      async_start_def main_ops_def)


section \<open>Witnesses\<close>

text \<open>A session that has read a request and is connecting, then reading the response.\<close>

definition demo_request :: http_request where
  "demo_request = HttpRequest\<lparr>rq_method := ''GET'', rq_url := ''/'', rq_headers := [(''Host'', ''example.com:8080'')]\<rparr>"

definition demo_ll :: "ll_event list list llhttp" where
  "demo_ll = scripted [request_events [''/''] [([''Host''], [''example.com:8080''])] [] ''GET'' 1 1 0] []"

definition demo_env :: session_env where
  "demo_env = \<lparr>en_nextId = 1, en_intercept = False, en_caPem = ''pem'', en_caFile = [], en_caCertPath = ''ca.crt''\<rparr>"

definition io_ok :: "string \<Rightarrow> io_result" where
  "io_ok d = \<lparr>io_ec = Ec_ok, io_data = d, io_action = Forward, io_request = HttpRequest\<rparr>"

fun demo_ops :: "async_op list \<Rightarrow> ll_event list list session \<Rightarrow> ll_event list list session option" where
  "demo_ops [] s = Some s"
| "demo_ops (op # ops) s =
     (if op \<in> set (ss_pending s)
      then case session_run_op demo_ll demo_env op (io_ok ''x'') s of Inl e \<Rightarrow> None | Inr s' \<Rightarrow> demo_ops ops s'
      else None)"

lemma demo_ops_reachable:
  "demo_ops ops s = Some s' \<Longrightarrow> session_reachable demo_ll c s \<Longrightarrow> session_reachable demo_ll c s'"
  by (induction ops s rule: demo_ops.induct) (auto split: if_splits sum.splits intro: session_reachable.step)

definition demo_upstream :: "async_op list" where
  "demo_upstream = [ClientRead, Resolve, Connect, UpstreamWrite (serialize_request demo_request)]"

definition demo_session :: "ll_event list list session" where
  "demo_session = the (demo_ops demo_upstream (session_start (Session demo_ll False)))"

lemma demo_session_run: "demo_ops demo_upstream (session_start (Session demo_ll False)) \<noteq> None"
  "UpstreamRead \<in> set (ss_pending demo_session)"
  by code_simp+

lemma demo_session_reachable: "session_reachable demo_ll False demo_session"
proof -
  obtain s where "demo_ops demo_upstream (session_start (Session demo_ll False)) = Some s"
    using demo_session_run(1) by blast
  from demo_ops_reachable [OF this session_reachable.start] this show ?thesis by (simp add: demo_session_def)
qed

lemma session_writes_serialised_witness:
  "ss_clientOpen demo_session \<and> client_writes demo_session = take 1 (ss_writeQueue demo_session)"
proof -
  have "ss_clientOpen demo_session" by code_simp
  then show ?thesis using session_writes_serialised [OF demo_session_reachable] by blast
qed

lemma session_one_exchange_witness:
  "\<not> ss_isConnect demo_session \<and> main_ops demo_session \<noteq> [] \<and> length (main_ops demo_session) \<le> 1"
proof -
  have "\<not> ss_isConnect demo_session" "main_ops demo_session \<noteq> []" by code_simp+
  then show ?thesis using session_one_exchange [OF demo_session_reachable] by simp
qed

lemma session_eof_records_nothing_witness:
  "session_run_op demo_ll demo_env UpstreamRead ((io_ok [])\<lparr>io_ec := Ec_eof\<rparr>) demo_session
    = Inr (session_close (demo_session\<lparr>ss_pending := remove1 UpstreamRead (ss_pending demo_session)\<rparr>))"
  by (rule session_eof_records_nothing [OF demo_session_reachable demo_session_run(2)]) simp

lemma session_timeout_answers_twice_witness:
  "let s = (Session demo_ll False)\<lparr>ss_tx := HttpTransaction\<lparr>tx_id := 1, tx_request := Some demo_request\<rparr>, ss_pending := [Resolve]\<rparr>;
       s' = handleResolve Ec_aborted (handleTimeout Ec_ok s)
    in ss_writeQueue s' = ss_writeQueue s @ [error_response 504 ''Gateway Timeout'', error_response 502 ''Bad Gateway'']
     \<and> (\<exists>t1 t2. ss_effects s' = ss_effects s @ [OnTransaction t1, OnTransaction t2]
          \<and> map_option rs_statusCode (tx_response t1) = Some 504
          \<and> map_option rs_statusCode (tx_response t2) = Some 502)"
  unfolding Let_def by (rule session_timeout_answers_twice [unfolded Let_def]) (simp_all add: HttpTransaction_def Session_def)

lemma session_routes_by_host_witness:
  "\<exists>s'. handle_request demo_env demo_request (Session demo_ll False) = Inr s' \<and> ss_upstreamHost s' = ''example.com''
     \<and> ss_upstreamPort s' = (if ''8080'' = [] then ''80'' else ''8080'')
     \<and> tx_request (ss_tx s') = Some demo_request \<and> tx_host (ss_tx s') = ''example.com'' \<and> tx_port (ss_tx s') = 8080
     \<and> \<not> ss_serverOpen s' \<and> ss_pending s' = ss_pending (Session demo_ll False) @ [Resolve]"
proof (rule session_routes_by_host)
  show "request_header demo_request ''Host'' = ''example.com'' @ (if ''8080'' = [] then [] else '':'' @ ''8080'')"
    "\<not> is_local_page ''example.com'' (rq_url demo_request)" "rq_method demo_request \<noteq> ''CONNECT''"
    by code_simp+
  show "stoi (if ''8080'' = [] then ''80'' else ''8080'') = Inr 8080"
    by (simp add: stoi_def isspace_def isdigit_def byte_of_def dec_value_def Let_def)
qed (simp_all add: demo_env_def Session_def)

lemma session_after_response_witness:
  "let s = (Session demo_ll False)\<lparr>ss_tx := HttpTransaction\<lparr>tx_id := 1, tx_request := Some demo_request\<rparr>\<rparr>;
       s' = response_done demo_ll HttpResponse s
   in keep_alive demo_request HttpResponse \<and> ss_tx s' = HttpTransaction \<and> ss_parser s' = HttpParser demo_ll
      \<and> ss_pending s' = ss_pending s @ [ClientRead]"
proof -
  have "keep_alive demo_request HttpResponse" by code_simp
  then show ?thesis
    using session_after_response [of "(Session demo_ll False)\<lparr>ss_tx := HttpTransaction\<lparr>tx_id := 1, tx_request := Some demo_request\<rparr>\<rparr>"
        demo_request demo_ll HttpResponse] by (simp add: Let_def)
qed

end
