(* ===== verification/MitmSession.thy ===== *)
theory MitmSession
  imports Session CertCache
begin

text \<open>
  The TLS session of \<open>src/src/proxy/MitmSession.cpp\<close>, which takes a CONNECT over: it connects to the
  target, answers the client, performs both TLS handshakes and relays the decrypted exchange. As in
  theory Session an asynchronous operation that is started is added to the outstanding ones, and any
  of them may complete with any result. Parameters of a step: llhttp, the context that the certificate
  cache returns, and whether the target is an IP literal (\<open>boost::asio::ip::make_address\<close>).
\<close>

section \<open>State\<close>

datatype mitm_op =
    MTimer
  | MResolve string string
  | MConnect
  | MEstablished string
  | MErrorWrite string
  | MClientHandshake
  | MUpstreamHandshake
  | MClientRead
  | MDecision
  | MUpstreamWrite string
  | MUpstreamRead
  | MClientWrite string

text \<open>The upstream TLS stream as it is configured before its handshake.\<close>

record upstream_tls =
  ut_verify_peer :: bool
  ut_sni :: "string option"
  ut_alpn :: string

record 'p mitm_session =
  ms_rawClientOpen :: bool
  ms_rawServerOpen :: bool
  ms_targetHost :: string
  ms_targetPort :: "16 word"
  ms_clientStream :: "ssl_context option"
  ms_upstreamStream :: "upstream_tls option"
  ms_clientHandshakeDone :: bool
  ms_upstreamHandshakeDone :: bool
  ms_isClosed :: bool
  ms_clientParser :: "'p http_parser"
  ms_upstreamParser :: "'p http_parser"
  ms_clientAccumulated :: string
  ms_upstreamAccumulated :: string
  ms_clientWriteQueue :: "string list"
  ms_upstreamWriteQueue :: "string list"
  ms_tx :: http_transaction
  ms_closeAfterWrite :: bool
  ms_pending :: "mitm_op list"
  ms_effects :: "session_effect list"

record mitm_env =
  me_nextId :: int
  me_intercept :: bool
  me_getContext :: "string \<Rightarrow> ssl_context option"
  me_is_address :: "string \<Rightarrow> bool"

definition MitmSession :: "'p llhttp \<Rightarrow> string \<Rightarrow> 16 word \<Rightarrow> 'p mitm_session" where
  "MitmSession ll host port =
     \<lparr>ms_rawClientOpen = True, ms_rawServerOpen = False, ms_targetHost = host, ms_targetPort = port,
      ms_clientStream = None, ms_upstreamStream = None,
      ms_clientHandshakeDone = False, ms_upstreamHandshakeDone = False, ms_isClosed = False,
      ms_clientParser = HttpParser ll, ms_upstreamParser = HttpParser ll,
      ms_clientAccumulated = [], ms_upstreamAccumulated = [],
      ms_clientWriteQueue = [], ms_upstreamWriteQueue = [],
      ms_tx = HttpTransaction, ms_closeAfterWrite = False, ms_pending = [], ms_effects = []\<rparr>"

definition mitm_async :: "mitm_op \<Rightarrow> 'p mitm_session \<Rightarrow> 'p mitm_session" where
  "mitm_async op s = s\<lparr>ms_pending := ms_pending s @ [op]\<rparr>"

definition mitm_emit :: "session_effect \<Rightarrow> 'p mitm_session \<Rightarrow> 'p mitm_session" where
  "mitm_emit e s = s\<lparr>ms_effects := ms_effects s @ [e]\<rparr>"

section \<open>Closing and timer\<close>

definition mitm_close :: "'p mitm_session \<Rightarrow> 'p mitm_session" where
  "mitm_close s =
     (if ms_isClosed s then s
      else let s1 = s\<lparr>ms_isClosed := True\<rparr>;
               s2 = (if tx_id (ms_tx s1) \<noteq> 0 then mitm_emit (RemoveById (tx_id (ms_tx s1))) s1 else s1)
           in s2\<lparr>ms_rawClientOpen := False, ms_rawServerOpen := False\<rparr>)"

definition mitm_resetTimer :: "'p mitm_session \<Rightarrow> 'p mitm_session" where
  "mitm_resetTimer s = mitm_async MTimer s"

definition mitm_handleTimeout :: "error_code \<Rightarrow> 'p mitm_session \<Rightarrow> 'p mitm_session" where
  "mitm_handleTimeout ec s = (if ec \<noteq> Ec_aborted then mitm_close s else s)"

section \<open>Write queues and reads\<close>

definition mitm_doClientWrite :: "'p mitm_session \<Rightarrow> 'p mitm_session" where
  "mitm_doClientWrite s =
     (if ms_isClosed s \<or> ms_clientWriteQueue s = [] then s
      else mitm_async (MClientWrite (hd (ms_clientWriteQueue s))) s)"

definition mitm_writeClient :: "string \<Rightarrow> 'p mitm_session \<Rightarrow> 'p mitm_session" where
  "mitm_writeClient data s =
     (if ms_isClosed s then s
      else let idle = (ms_clientWriteQueue s = []);
               s1 = s\<lparr>ms_clientWriteQueue := ms_clientWriteQueue s @ [data]\<rparr>
           in if idle then mitm_doClientWrite s1 else s1)"

definition mitm_handleClientWrite :: "error_code \<Rightarrow> 'p mitm_session \<Rightarrow> 'p mitm_session" where
  "mitm_handleClientWrite ec s =
     (if ms_isClosed s then s
      else if ec \<noteq> Ec_ok then mitm_close s
      else let s1 = s\<lparr>ms_clientWriteQueue := tl (ms_clientWriteQueue s)\<rparr>
           in if ms_clientWriteQueue s1 \<noteq> [] then mitm_doClientWrite s1
              else if ms_closeAfterWrite s1 then mitm_close s1 else s1)"

definition mitm_readClient :: "'p mitm_session \<Rightarrow> 'p mitm_session" where
  "mitm_readClient s = (if ms_isClosed s then s else mitm_async MClientRead s)"

definition mitm_readUpstream :: "'p mitm_session \<Rightarrow> 'p mitm_session" where
  "mitm_readUpstream s = (if ms_isClosed s then s else mitm_async MUpstreamRead s)"

definition mitm_doUpstreamWrite :: "'p mitm_session \<Rightarrow> 'p mitm_session" where
  "mitm_doUpstreamWrite s =
     (if ms_isClosed s \<or> ms_upstreamWriteQueue s = [] then s
      else mitm_async (MUpstreamWrite (hd (ms_upstreamWriteQueue s))) s)"

definition mitm_writeUpstream :: "string \<Rightarrow> 'p mitm_session \<Rightarrow> 'p mitm_session" where
  "mitm_writeUpstream data s =
     (if ms_isClosed s then s
      else let idle = (ms_upstreamWriteQueue s = []);
               s1 = s\<lparr>ms_upstreamWriteQueue := ms_upstreamWriteQueue s @ [data]\<rparr>
           in if idle then mitm_doUpstreamWrite s1 else s1)"

definition mitm_handleUpstreamWrite :: "error_code \<Rightarrow> 'p mitm_session \<Rightarrow> 'p mitm_session" where
  "mitm_handleUpstreamWrite ec s =
     (if ms_isClosed s then s
      else if ec \<noteq> Ec_ok then mitm_close s
      else let s1 = s\<lparr>ms_upstreamWriteQueue := tl (ms_upstreamWriteQueue s)\<rparr>
           in if ms_upstreamWriteQueue s1 \<noteq> [] then mitm_doUpstreamWrite s1 else mitm_readUpstream s1)"

section \<open>Connecting\<close>

definition mitm_error_response :: "int \<Rightarrow> string \<Rightarrow> string" where
  "mitm_error_response statusCode statusText =
     ''HTTP/1.1 '' @ int_to_string statusCode @ '' '' @ statusText @ crlf @
     ''Content-Length: 0'' @ crlf @ ''Connection: close'' @ crlf @ crlf"

definition mitm_sendErrorResponse :: "int \<Rightarrow> string \<Rightarrow> 'p mitm_session \<Rightarrow> 'p mitm_session" where
  "mitm_sendErrorResponse statusCode statusText s =
     (if ms_isClosed s then s
      else let s1 = s\<lparr>ms_closeAfterWrite := True,
                      ms_tx := (ms_tx s)\<lparr>tx_response := Some (local_response statusCode statusText [])\<rparr>\<rparr>;
               s2 = mitm_emit (OnTransaction (ms_tx s1)) s1
           in if ms_clientHandshakeDone s2 \<and> ms_clientStream s2 \<noteq> None
              then mitm_writeClient (mitm_error_response statusCode statusText) s2
              else mitm_async (MErrorWrite (mitm_error_response statusCode statusText)) s2)"

definition mitm_connectUpstream :: "'p mitm_session \<Rightarrow> 'p mitm_session" where
  "mitm_connectUpstream s =
     mitm_async (MResolve (ms_targetHost s) (nat_to_string (unat (ms_targetPort s)))) s"

definition mitm_start :: "'p mitm_session \<Rightarrow> 'p mitm_session" where
  "mitm_start s = mitm_connectUpstream (mitm_resetTimer s)"

definition mitm_handleUpstreamConnect :: "'p mitm_session \<Rightarrow> 'p mitm_session" where
  "mitm_handleUpstreamConnect s = (if ms_isClosed s then s else mitm_async MConnect s)"

definition mitm_handleResolve :: "error_code \<Rightarrow> 'p mitm_session \<Rightarrow> 'p mitm_session" where
  "mitm_handleResolve ec s =
     (if ms_isClosed s then s
      else if ec \<noteq> Ec_ok then mitm_sendErrorResponse 502 ''Bad Gateway'' s
      else mitm_handleUpstreamConnect s)"

definition mitm_sendEstablishedResponse :: "'p mitm_session \<Rightarrow> 'p mitm_session" where
  "mitm_sendEstablishedResponse s =
     (if ms_isClosed s then s
      else mitm_async (MEstablished (''HTTP/1.1 200 Connection Established'' @ crlf @ crlf)) s)"

definition mitm_handleConnected :: "error_code \<Rightarrow> 'p mitm_session \<Rightarrow> 'p mitm_session" where
  "mitm_handleConnected ec s =
     (if ms_isClosed s then s
      else if ec \<noteq> Ec_ok then mitm_sendErrorResponse 502 ''Bad Gateway'' s
      else mitm_sendEstablishedResponse (s\<lparr>ms_rawServerOpen := True\<rparr>))"

section \<open>Handshakes\<close>

text \<open>The streams take the raw sockets over, which are then closed handles.\<close>

definition startTlsHandshakes :: "mitm_env \<Rightarrow> 'p mitm_session \<Rightarrow> 'p mitm_session" where
  "startTlsHandshakes en s =
     (if ms_isClosed s then s
      else case me_getContext en (ms_targetHost s) of
             None \<Rightarrow> mitm_close s
           | Some ctx \<Rightarrow>
               let s1 = s\<lparr>ms_clientStream := Some ctx, ms_rawClientOpen := False\<rparr>;
                   sni = (if me_is_address en (ms_targetHost s1) then None else Some (ms_targetHost s1));
                   s2 = s1\<lparr>ms_upstreamStream := Some \<lparr>ut_verify_peer = False, ut_sni = sni, ut_alpn = alpnProtos\<rparr>,
                           ms_rawServerOpen := False\<rparr>
               in mitm_async MUpstreamHandshake (mitm_async MClientHandshake s2))"

definition mitm_handleEstablished :: "mitm_env \<Rightarrow> error_code \<Rightarrow> 'p mitm_session \<Rightarrow> 'p mitm_session" where
  "mitm_handleEstablished en ec s =
     (if ms_isClosed s then s else if ec \<noteq> Ec_ok then mitm_close s else startTlsHandshakes en s)"

definition onBothHandshakesComplete :: "'p mitm_session \<Rightarrow> 'p mitm_session" where
  "onBothHandshakesComplete s = (if ms_isClosed s then s else mitm_readClient s)"

definition handleClientHandshake :: "error_code \<Rightarrow> 'p mitm_session \<Rightarrow> 'p mitm_session" where
  "handleClientHandshake ec s =
     (if ms_isClosed s then s
      else if ec \<noteq> Ec_ok then mitm_close s
      else let s1 = s\<lparr>ms_clientHandshakeDone := True\<rparr>
           in if ms_upstreamHandshakeDone s1 then onBothHandshakesComplete s1 else s1)"

definition handleUpstreamHandshake :: "error_code \<Rightarrow> 'p mitm_session \<Rightarrow> 'p mitm_session" where
  "handleUpstreamHandshake ec s =
     (if ms_isClosed s then s
      else if ec \<noteq> Ec_ok then mitm_close s
      else let s1 = s\<lparr>ms_upstreamHandshakeDone := True\<rparr>
           in if ms_clientHandshakeDone s1 then onBothHandshakesComplete s1 else s1)"

section \<open>Relaying\<close>

definition mitm_handle_request :: "mitm_env \<Rightarrow> http_request \<Rightarrow> 'p mitm_session \<Rightarrow> 'p mitm_session" where
  "mitm_handle_request en req s =
     (let s1 = s\<lparr>ms_tx := (ms_tx s)\<lparr>tx_id := me_nextId en, tx_host := ms_targetHost s,
                   tx_port := uint (ms_targetPort s), tx_is_https := True, tx_request := Some req\<rparr>\<rparr>
      in if me_intercept en
         then mitm_async MDecision
                (mitm_emit (InterceptRequest (tx_id (ms_tx s1)) (ms_targetHost s1) (ms_targetPort s1) req) s1)
         else mitm_writeUpstream (serialize_request req) s1)"

definition mitm_handleClientRead ::
  "'p llhttp \<Rightarrow> mitm_env \<Rightarrow> error_code \<Rightarrow> string \<Rightarrow> 'p mitm_session \<Rightarrow> 'p mitm_session" where
  "mitm_handleClientRead ll en ec data s =
     (if ms_isClosed s then s
      else if ec \<noteq> Ec_ok then mitm_close s
      else let s1 = mitm_resetTimer s;
               s2 = s1\<lparr>ms_clientAccumulated := ms_clientAccumulated s1 @ data\<rparr>;
               (ok, p1) = feedRequest ll data (ms_clientParser s2);
               s3 = s2\<lparr>ms_clientParser := p1\<rparr>
           in if ok
              then (case takeRequest ll (ms_clientParser s3) of
                      (Some req, p2) \<Rightarrow> mitm_handle_request en req (s3\<lparr>ms_clientParser := p2\<rparr>)
                    | (None, p2) \<Rightarrow> mitm_readClient (s3\<lparr>ms_clientParser := p2\<rparr>))
              else if length (ms_clientAccumulated s3) < 1048576 then mitm_readClient s3
              else mitm_close s3)"

definition mitm_handleDecision :: "intercept_action \<Rightarrow> http_request \<Rightarrow> 'p mitm_session \<Rightarrow> 'p mitm_session" where
  "mitm_handleDecision action req s =
     (if ms_isClosed s then s
      else let s1 = mitm_resetTimer (s\<lparr>ms_tx := (ms_tx s)\<lparr>tx_request := Some req\<rparr>\<rparr>)
           in if action = Forward then mitm_writeUpstream (serialize_request req) s1
              else mitm_sendErrorResponse 502 ''Request Dropped by BurpTUI'' s1)"

text \<open>As in the plain session, except that a missing request counts as one without headers.\<close>

definition mitm_keep_alive :: "http_request option \<Rightarrow> http_response \<Rightarrow> bool" where
  "mitm_keep_alive req res \<longleftrightarrow>
     (let connReq = (case req of Some r \<Rightarrow> request_header r ''Connection'' | None \<Rightarrow> []);
          connRes = response_header res ''Connection''
      in if (case req of Some r \<Rightarrow> rq_version r = ''HTTP/1.1'' | None \<Rightarrow> False)
         then \<not> str_contains connReq ''close'' \<and> \<not> str_contains connRes ''close''
         else str_contains connReq ''keep-alive'' \<or> str_contains connRes ''keep-alive'')"

definition mitm_response_done :: "'p llhttp \<Rightarrow> http_response \<Rightarrow> 'p mitm_session \<Rightarrow> 'p mitm_session" where
  "mitm_response_done ll res s =
     (let s1 = s\<lparr>ms_tx := (ms_tx s)\<lparr>tx_response := Some res\<rparr>\<rparr>;
          s2 = mitm_emit (OnTransaction (ms_tx s1)) s1
      in if mitm_keep_alive (tx_request (ms_tx s2)) res
         then mitm_readClient (s2\<lparr>ms_clientParser := parser_reset ll (ms_clientParser s2),
                                  ms_upstreamParser := parser_reset ll (ms_upstreamParser s2),
                                  ms_clientAccumulated := [], ms_upstreamAccumulated := [],
                                  ms_tx := HttpTransaction\<rparr>)
         else let s3 = s2\<lparr>ms_closeAfterWrite := True\<rparr>
              in if ms_clientWriteQueue s3 = [] then mitm_close s3 else s3)"

definition mitm_upstream_eof :: "'p llhttp \<Rightarrow> 'p mitm_session \<Rightarrow> 'p mitm_session" where
  "mitm_upstream_eof ll s =
     (if tx_response (ms_tx s) = None \<and> ms_upstreamAccumulated s \<noteq> []
      then let (_, p1) = feedResponse ll (ms_upstreamAccumulated s) (ms_upstreamParser s)
           in case takeResponse ll p1 of
                (Some res, p2) \<Rightarrow>
                  let s1 = s\<lparr>ms_upstreamParser := p2, ms_tx := (ms_tx s)\<lparr>tx_response := Some res\<rparr>\<rparr>
                  in mitm_emit (OnTransaction (ms_tx s1)) s1
              | (None, p2) \<Rightarrow> s\<lparr>ms_upstreamParser := p2\<rparr>
      else s)"

definition mitm_handleUpstreamRead ::
  "'p llhttp \<Rightarrow> error_code \<Rightarrow> string \<Rightarrow> 'p mitm_session \<Rightarrow> 'p mitm_session" where
  "mitm_handleUpstreamRead ll ec data s =
     (if ms_isClosed s then s
      else if ec \<noteq> Ec_ok
      then mitm_close (if ec = Ec_eof \<or> ec = Ec_truncated then mitm_upstream_eof ll s else s)
      else let s1 = mitm_writeClient data (mitm_resetTimer s);
               s2 = s1\<lparr>ms_upstreamAccumulated := ms_upstreamAccumulated s1 @ data\<rparr>;
               (ok, p1) = feedResponse ll data (ms_upstreamParser s2);
               s3 = s2\<lparr>ms_upstreamParser := p1\<rparr>
           in if ok
              then (case takeResponse ll (ms_upstreamParser s3) of
                      (Some res, p2) \<Rightarrow> mitm_response_done ll res (s3\<lparr>ms_upstreamParser := p2\<rparr>)
                    | (None, p2) \<Rightarrow> mitm_readUpstream (s3\<lparr>ms_upstreamParser := p2\<rparr>))
              else mitm_readUpstream s3)"

section \<open>The io loop\<close>

fun mitm_complete ::
  "'p llhttp \<Rightarrow> mitm_env \<Rightarrow> mitm_op \<Rightarrow> io_result \<Rightarrow> 'p mitm_session \<Rightarrow> 'p mitm_session" where
  "mitm_complete ll en MTimer r s = mitm_handleTimeout (io_ec r) s"
| "mitm_complete ll en (MResolve h p) r s = mitm_handleResolve (io_ec r) s"
| "mitm_complete ll en MConnect r s = mitm_handleConnected (io_ec r) s"
| "mitm_complete ll en (MEstablished d) r s = mitm_handleEstablished en (io_ec r) s"
| "mitm_complete ll en (MErrorWrite d) r s = mitm_close s"
| "mitm_complete ll en MClientHandshake r s = handleClientHandshake (io_ec r) s"
| "mitm_complete ll en MUpstreamHandshake r s = handleUpstreamHandshake (io_ec r) s"
| "mitm_complete ll en MClientRead r s = mitm_handleClientRead ll en (io_ec r) (io_data r) s"
| "mitm_complete ll en MDecision r s = mitm_handleDecision (io_action r) (io_request r) s"
| "mitm_complete ll en (MUpstreamWrite d) r s = mitm_handleUpstreamWrite (io_ec r) s"
| "mitm_complete ll en MUpstreamRead r s = mitm_handleUpstreamRead ll (io_ec r) (io_data r) s"
| "mitm_complete ll en (MClientWrite d) r s = mitm_handleClientWrite (io_ec r) s"

definition mitm_run_op ::
  "'p llhttp \<Rightarrow> mitm_env \<Rightarrow> mitm_op \<Rightarrow> io_result \<Rightarrow> 'p mitm_session \<Rightarrow> 'p mitm_session" where
  "mitm_run_op ll en op r s = mitm_complete ll en op r (s\<lparr>ms_pending := remove1 op (ms_pending s)\<rparr>)"

inductive mitm_reachable :: "'p llhttp \<Rightarrow> string \<Rightarrow> 16 word \<Rightarrow> 'p mitm_session \<Rightarrow> bool" for ll host port where
  start: "mitm_reachable ll host port (mitm_start (MitmSession ll host port))"
| step: "mitm_reachable ll host port s \<Longrightarrow> op \<in> set (ms_pending s) \<Longrightarrow>
    mitm_reachable ll host port (mitm_run_op ll en op r s)"

section \<open>What each building block changes\<close>

fun mitm_main :: "mitm_op \<Rightarrow> bool" where
  "mitm_main MTimer = False"
| "mitm_main (MErrorWrite d) = False"
| "mitm_main MClientHandshake = False"
| "mitm_main MUpstreamHandshake = False"
| "mitm_main (MClientWrite d) = False"
| "mitm_main _ = True"

fun mitm_data_op :: "mitm_op \<Rightarrow> bool" where
  "mitm_data_op MClientRead = True"
| "mitm_data_op MDecision = True"
| "mitm_data_op (MUpstreamWrite d) = True"
| "mitm_data_op MUpstreamRead = True"
| "mitm_data_op _ = False"

definition is_handshake :: "mitm_op \<Rightarrow> bool" where
  "is_handshake op \<longleftrightarrow> op = MClientHandshake \<or> op = MUpstreamHandshake"

definition mitm_mains :: "'p mitm_session \<Rightarrow> mitm_op list" where
  "mitm_mains s = filter mitm_main (ms_pending s)"

definition mitm_handshakes :: "'p mitm_session \<Rightarrow> mitm_op list" where
  "mitm_handshakes s = filter is_handshake (ms_pending s)"

fun to_client_op :: "mitm_op \<Rightarrow> string list" where
  "to_client_op (MClientWrite d) = [d]"
| "to_client_op _ = []"

fun to_upstream_op :: "mitm_op \<Rightarrow> string list" where
  "to_upstream_op (MUpstreamWrite d) = [d]"
| "to_upstream_op _ = []"

definition mitm_client_writes :: "'p mitm_session \<Rightarrow> string list" where
  "mitm_client_writes s = concat (map to_client_op (ms_pending s))"

definition mitm_upstream_writes :: "'p mitm_session \<Rightarrow> string list" where
  "mitm_upstream_writes s = concat (map to_upstream_op (ms_pending s))"

named_theorems mitm_simps \<open>the members of a TLS session after its building blocks\<close>

lemma mitm_async_simps [mitm_simps]:
  "mitm_mains (mitm_async op s) = mitm_mains s @ (if mitm_main op then [op] else [])"
  "mitm_handshakes (mitm_async op s) = mitm_handshakes s @ (if is_handshake op then [op] else [])"
  "mitm_client_writes (mitm_async op s) = mitm_client_writes s @ to_client_op op"
  "mitm_upstream_writes (mitm_async op s) = mitm_upstream_writes s @ to_upstream_op op"
  "ms_isClosed (mitm_async op s) = ms_isClosed s" "ms_clientHandshakeDone (mitm_async op s) = ms_clientHandshakeDone s"
  "ms_upstreamHandshakeDone (mitm_async op s) = ms_upstreamHandshakeDone s"
  "ms_clientStream (mitm_async op s) = ms_clientStream s" "ms_upstreamStream (mitm_async op s) = ms_upstreamStream s"
  "ms_clientWriteQueue (mitm_async op s) = ms_clientWriteQueue s"
  "ms_upstreamWriteQueue (mitm_async op s) = ms_upstreamWriteQueue s" "ms_tx (mitm_async op s) = ms_tx s"
  "ms_closeAfterWrite (mitm_async op s) = ms_closeAfterWrite s"
  by (simp_all add: mitm_mains_def mitm_handshakes_def mitm_client_writes_def mitm_upstream_writes_def mitm_async_def)

lemma mitm_emit_simps [mitm_simps]:
  "mitm_mains (mitm_emit e s) = mitm_mains s" "mitm_handshakes (mitm_emit e s) = mitm_handshakes s"
  "mitm_client_writes (mitm_emit e s) = mitm_client_writes s"
  "mitm_upstream_writes (mitm_emit e s) = mitm_upstream_writes s"
  "ms_isClosed (mitm_emit e s) = ms_isClosed s" "ms_clientHandshakeDone (mitm_emit e s) = ms_clientHandshakeDone s"
  "ms_upstreamHandshakeDone (mitm_emit e s) = ms_upstreamHandshakeDone s"
  "ms_clientStream (mitm_emit e s) = ms_clientStream s" "ms_upstreamStream (mitm_emit e s) = ms_upstreamStream s"
  "ms_clientWriteQueue (mitm_emit e s) = ms_clientWriteQueue s"
  "ms_upstreamWriteQueue (mitm_emit e s) = ms_upstreamWriteQueue s" "ms_tx (mitm_emit e s) = ms_tx s"
  "ms_closeAfterWrite (mitm_emit e s) = ms_closeAfterWrite s"
  by (simp_all add: mitm_mains_def mitm_handshakes_def mitm_client_writes_def mitm_upstream_writes_def mitm_emit_def)

lemma mitm_pending_fields:
  "ms_pending s' = ms_pending s \<Longrightarrow> mitm_mains s' = mitm_mains s \<and> mitm_handshakes s' = mitm_handshakes s
     \<and> mitm_client_writes s' = mitm_client_writes s \<and> mitm_upstream_writes s' = mitm_upstream_writes s"
  by (simp add: mitm_mains_def mitm_handshakes_def mitm_client_writes_def mitm_upstream_writes_def)

lemma mitm_update_simps [mitm_simps]:
  "mitm_mains (s\<lparr>ms_tx := tx\<rparr>) = mitm_mains s" "mitm_handshakes (s\<lparr>ms_tx := tx\<rparr>) = mitm_handshakes s"
  "mitm_mains (s\<lparr>ms_isClosed := b\<rparr>) = mitm_mains s" "mitm_handshakes (s\<lparr>ms_isClosed := b\<rparr>) = mitm_handshakes s"
  "mitm_mains (s\<lparr>ms_rawClientOpen := b\<rparr>) = mitm_mains s" "mitm_handshakes (s\<lparr>ms_rawClientOpen := b\<rparr>) = mitm_handshakes s"
  "mitm_mains (s\<lparr>ms_rawServerOpen := b\<rparr>) = mitm_mains s" "mitm_handshakes (s\<lparr>ms_rawServerOpen := b\<rparr>) = mitm_handshakes s"
  "mitm_mains (s\<lparr>ms_clientStream := c\<rparr>) = mitm_mains s" "mitm_handshakes (s\<lparr>ms_clientStream := c\<rparr>) = mitm_handshakes s"
  "mitm_mains (s\<lparr>ms_upstreamStream := u\<rparr>) = mitm_mains s" "mitm_handshakes (s\<lparr>ms_upstreamStream := u\<rparr>) = mitm_handshakes s"
  "mitm_mains (s\<lparr>ms_clientHandshakeDone := b\<rparr>) = mitm_mains s"
  "mitm_handshakes (s\<lparr>ms_clientHandshakeDone := b\<rparr>) = mitm_handshakes s"
  "mitm_mains (s\<lparr>ms_upstreamHandshakeDone := b\<rparr>) = mitm_mains s"
  "mitm_handshakes (s\<lparr>ms_upstreamHandshakeDone := b\<rparr>) = mitm_handshakes s"
  "mitm_mains (s\<lparr>ms_clientParser := p\<rparr>) = mitm_mains s" "mitm_handshakes (s\<lparr>ms_clientParser := p\<rparr>) = mitm_handshakes s"
  "mitm_mains (s\<lparr>ms_upstreamParser := p\<rparr>) = mitm_mains s" "mitm_handshakes (s\<lparr>ms_upstreamParser := p\<rparr>) = mitm_handshakes s"
  "mitm_mains (s\<lparr>ms_clientAccumulated := d\<rparr>) = mitm_mains s"
  "mitm_handshakes (s\<lparr>ms_clientAccumulated := d\<rparr>) = mitm_handshakes s"
  "mitm_mains (s\<lparr>ms_upstreamAccumulated := d\<rparr>) = mitm_mains s"
  "mitm_handshakes (s\<lparr>ms_upstreamAccumulated := d\<rparr>) = mitm_handshakes s"
  "mitm_mains (s\<lparr>ms_clientWriteQueue := q\<rparr>) = mitm_mains s"
  "mitm_handshakes (s\<lparr>ms_clientWriteQueue := q\<rparr>) = mitm_handshakes s"
  "mitm_mains (s\<lparr>ms_upstreamWriteQueue := q\<rparr>) = mitm_mains s"
  "mitm_handshakes (s\<lparr>ms_upstreamWriteQueue := q\<rparr>) = mitm_handshakes s"
  "mitm_mains (s\<lparr>ms_closeAfterWrite := b\<rparr>) = mitm_mains s"
  "mitm_handshakes (s\<lparr>ms_closeAfterWrite := b\<rparr>) = mitm_handshakes s"
  "mitm_client_writes (s\<lparr>ms_clientWriteQueue := q\<rparr>) = mitm_client_writes s"
  "mitm_upstream_writes (s\<lparr>ms_upstreamWriteQueue := q\<rparr>) = mitm_upstream_writes s"
  using mitm_pending_fields by (simp_all add: mitm_mains_def mitm_handshakes_def mitm_client_writes_def mitm_upstream_writes_def)

lemma mitm_close_simps [mitm_simps]:
  "mitm_mains (mitm_close s) = mitm_mains s" "mitm_handshakes (mitm_close s) = mitm_handshakes s"
  "ms_isClosed (mitm_close s)" "ms_clientHandshakeDone (mitm_close s) = ms_clientHandshakeDone s"
  "ms_upstreamHandshakeDone (mitm_close s) = ms_upstreamHandshakeDone s"
  "ms_clientStream (mitm_close s) = ms_clientStream s" "ms_upstreamStream (mitm_close s) = ms_upstreamStream s"
  "mitm_client_writes (mitm_close s) = mitm_client_writes s" "ms_clientWriteQueue (mitm_close s) = ms_clientWriteQueue s"
  by (simp_all add: mitm_close_def Let_def mitm_simps)
    (simp_all add: mitm_client_writes_def mitm_emit_def)

text \<open>Closing is final: every completion finds the flag set and does nothing.\<close>

lemma mitm_closed: "ms_isClosed s \<Longrightarrow> mitm_complete ll en op r s = s"
  by (cases op) (simp_all add: mitm_handleTimeout_def mitm_close_def mitm_handleResolve_def mitm_handleConnected_def
      mitm_handleEstablished_def handleClientHandshake_def handleUpstreamHandshake_def mitm_handleClientRead_def
      mitm_handleDecision_def mitm_handleUpstreamWrite_def mitm_handleUpstreamRead_def mitm_handleClientWrite_def)

section \<open>Phases\<close>

text \<open>
  One operation at a time carries the session on, but for the two handshakes, which run side by side
  and alone; application data is only read or written once both are done.
\<close>

definition mitm_inv :: "'p mitm_session \<Rightarrow> bool" where
  "mitm_inv s \<longleftrightarrow> length (mitm_mains s) \<le> 1 \<and> (mitm_handshakes s \<noteq> [] \<longrightarrow> mitm_mains s = [])
     \<and> distinct (mitm_handshakes s)
     \<and> (ms_clientHandshakeDone s \<longrightarrow> MClientHandshake \<notin> set (mitm_handshakes s))
     \<and> (ms_upstreamHandshakeDone s \<longrightarrow> MUpstreamHandshake \<notin> set (mitm_handshakes s))
     \<and> (\<forall>op \<in> set (mitm_mains s). if mitm_data_op op then ms_clientHandshakeDone s \<and> ms_upstreamHandshakeDone s
          else \<not> ms_clientHandshakeDone s \<and> \<not> ms_upstreamHandshakeDone s)
     \<and> (ms_clientHandshakeDone s \<or> ms_upstreamHandshakeDone s \<or> mitm_handshakes s \<noteq> []
          \<longrightarrow> ms_clientStream s \<noteq> None \<and> ms_upstreamStream s \<noteq> None)"

lemma mitm_inv_fields:
  "mitm_mains s' = mitm_mains s \<Longrightarrow> mitm_handshakes s' = mitm_handshakes s \<Longrightarrow>
   ms_clientHandshakeDone s' = ms_clientHandshakeDone s \<Longrightarrow> ms_upstreamHandshakeDone s' = ms_upstreamHandshakeDone s \<Longrightarrow>
   ms_clientStream s' = ms_clientStream s \<Longrightarrow> ms_upstreamStream s' = ms_upstreamStream s \<Longrightarrow> mitm_inv s' = mitm_inv s"
  by (simp add: mitm_inv_def)

lemma mitm_inv_frame [mitm_simps]:
  "mitm_inv (mitm_close s) = mitm_inv s" "mitm_inv (mitm_handleTimeout ec s) = mitm_inv s"
  "mitm_inv (mitm_resetTimer s) = mitm_inv s" "mitm_inv (mitm_doClientWrite s) = mitm_inv s"
  "mitm_inv (mitm_writeClient d s) = mitm_inv s" "mitm_inv (mitm_handleClientWrite ec s) = mitm_inv s"
  "mitm_inv (mitm_sendErrorResponse c t s) = mitm_inv s"
  by (rule mitm_inv_fields; simp add: mitm_handleTimeout_def mitm_resetTimer_def mitm_doClientWrite_def
      mitm_writeClient_def mitm_handleClientWrite_def mitm_sendErrorResponse_def Let_def is_handshake_def mitm_simps)+

text \<open>After the last outstanding operation: before (\<open>False\<close>) or after (\<open>True\<close>) the handshakes.\<close>

definition settled :: "bool \<Rightarrow> 'p mitm_session \<Rightarrow> bool" where
  "settled b s \<longleftrightarrow> mitm_mains s = [] \<and> mitm_handshakes s = []
     \<and> ms_clientHandshakeDone s = b \<and> ms_upstreamHandshakeDone s = b
     \<and> (b \<longrightarrow> ms_clientStream s \<noteq> None \<and> ms_upstreamStream s \<noteq> None)"

lemma settled_inv: "settled b s \<Longrightarrow> mitm_inv s"
  by (auto simp: settled_def mitm_inv_def)

lemma settled_frame [mitm_simps]:
  "settled b (s\<lparr>ms_tx := tx\<rparr>) = settled b s" "settled b (s\<lparr>ms_clientParser := p\<rparr>) = settled b s"
  "settled b (s\<lparr>ms_upstreamParser := p\<rparr>) = settled b s" "settled b (s\<lparr>ms_clientAccumulated := d\<rparr>) = settled b s"
  "settled b (s\<lparr>ms_upstreamAccumulated := d\<rparr>) = settled b s" "settled b (s\<lparr>ms_closeAfterWrite := c\<rparr>) = settled b s"
  "settled b (s\<lparr>ms_upstreamWriteQueue := q\<rparr>) = settled b s" "settled b (s\<lparr>ms_rawServerOpen := c\<rparr>) = settled b s"
  "settled b (mitm_emit e s) = settled b s" "settled b (mitm_resetTimer s) = settled b s"
  "settled b (mitm_writeClient d s) = settled b s"
  by (simp_all add: settled_def mitm_resetTimer_def mitm_writeClient_def mitm_doClientWrite_def Let_def is_handshake_def mitm_simps)

lemma settled_async:
  "settled True s \<Longrightarrow> mitm_data_op op \<Longrightarrow> mitm_inv (mitm_async op s)"
  "settled False s \<Longrightarrow> mitm_main op \<Longrightarrow> \<not> mitm_data_op op \<Longrightarrow> mitm_inv (mitm_async op s)"
  by (cases op; simp add: settled_def mitm_inv_def mitm_simps is_handshake_def)+

lemma settled_read:
  assumes "settled True s"
  shows "mitm_inv (mitm_readClient s)" "mitm_inv (mitm_readUpstream s)" "mitm_inv (mitm_writeUpstream d s)"
    "mitm_inv (mitm_doUpstreamWrite s)"
  using assms
  by (simp_all add: mitm_readClient_def mitm_readUpstream_def mitm_writeUpstream_def mitm_doUpstreamWrite_def Let_def
      settled_async settled_inv mitm_simps)

lemma settled_connecting:
  assumes "settled False s"
  shows "mitm_inv (mitm_handleResolve ec s)" "mitm_inv (mitm_handleConnected ec s)" "mitm_inv (mitm_handleEstablished en ec s)"
proof -
  show "mitm_inv (mitm_handleResolve ec s)" "mitm_inv (mitm_handleConnected ec s)"
    using assms settled_inv [OF assms]
    by (simp_all add: mitm_handleResolve_def mitm_handleConnected_def mitm_handleUpstreamConnect_def
        mitm_sendEstablishedResponse_def settled_async settled_inv mitm_simps)
  show "mitm_inv (mitm_handleEstablished en ec s)"
    using assms settled_inv [OF assms]
    by (simp add: mitm_handleEstablished_def startTlsHandshakes_def Let_def mitm_simps split: option.split)
      (simp add: mitm_inv_def settled_def is_handshake_def mitm_simps)
qed

lemma settled_relaying:
  assumes "settled True s"
  shows "mitm_inv (mitm_handleClientRead ll en ec data s)" "mitm_inv (mitm_handleDecision act req s)"
    "mitm_inv (mitm_handleUpstreamWrite ec s)" "mitm_inv (mitm_handleUpstreamRead ll ec data s)"
proof -
  have req: "mitm_inv (mitm_handle_request en req s)" if "settled True s" for req and s :: "'a mitm_session"
    using that by (simp add: mitm_handle_request_def Let_def settled_read settled_async mitm_simps)
  then show "mitm_inv (mitm_handleClientRead ll en ec data s)"
    using assms settled_inv [OF assms]
    by (simp add: mitm_handleClientRead_def Let_def settled_read settled_inv mitm_simps split: prod.split option.split)
  show "mitm_inv (mitm_handleDecision act req s)" "mitm_inv (mitm_handleUpstreamWrite ec s)"
    using assms settled_inv [OF assms]
    by (simp_all add: mitm_handleDecision_def mitm_handleUpstreamWrite_def Let_def settled_read settled_inv mitm_simps)
  have finished: "mitm_inv (mitm_response_done ll res s)" if "settled True s" for res and s :: "'a mitm_session"
    using that by (simp add: mitm_response_done_def Let_def settled_read settled_inv mitm_simps)
  have "mitm_inv (mitm_upstream_eof ll s)"
    using assms by (simp add: mitm_upstream_eof_def Let_def settled_inv mitm_simps split: prod.split option.split)
  with finished show "mitm_inv (mitm_handleUpstreamRead ll ec data s)"
    using assms settled_inv [OF assms]
    by (simp add: mitm_handleUpstreamRead_def Let_def settled_read settled_inv mitm_simps split: prod.split option.split)
qed

lemma mitm_remove1:
  "mitm_mains (s\<lparr>ms_pending := remove1 op (ms_pending s)\<rparr>) = (if mitm_main op then remove1 op (mitm_mains s) else mitm_mains s)"
  "mitm_handshakes (s\<lparr>ms_pending := remove1 op (ms_pending s)\<rparr>)
     = (if is_handshake op then remove1 op (mitm_handshakes s) else mitm_handshakes s)"
  by (simp_all add: mitm_mains_def mitm_handshakes_def filter_remove1 remove1_idem)

lemma mitm_inv_remove1:
  assumes "mitm_inv s"
  shows "mitm_inv (s\<lparr>ms_pending := remove1 op (ms_pending s)\<rparr>)" (is "mitm_inv ?s")
proof -
  have m: "set (mitm_mains ?s) \<subseteq> set (mitm_mains s)" "length (mitm_mains ?s) \<le> length (mitm_mains s)"
    using set_remove1_subset [of op "mitm_mains s"] by (simp_all add: mitm_remove1 length_remove1)
  have h: "set (mitm_handshakes ?s) \<subseteq> set (mitm_handshakes s)"
    "distinct (mitm_handshakes s) \<Longrightarrow> distinct (mitm_handshakes ?s)"
    using set_remove1_subset [of op "mitm_handshakes s"] by (simp_all add: mitm_remove1)
  have "mitm_mains s = [] \<Longrightarrow> mitm_mains ?s = []" "mitm_handshakes s = [] \<Longrightarrow> mitm_handshakes ?s = []"
    using m(1) h(1) by auto
  with assms m h show ?thesis
    unfolding mitm_inv_def by (simp add: subset_iff) (meson le_trans)
qed

lemma handshake_step:
  assumes inv: "mitm_inv s" and op: "op \<in> set (ms_pending s)" "is_handshake op"
  defines "s1 \<equiv> s\<lparr>ms_pending := remove1 op (ms_pending s)\<rparr>"
  shows "mitm_inv (mitm_complete ll en op r s1)"
proof -
  have mem: "op \<in> set (mitm_handshakes s)" using op by (simp add: mitm_handshakes_def)
  have inv1: "mitm_inv s1" unfolding s1_def by (rule mitm_inv_remove1 [OF inv])
  have none: "mitm_mains s1 = []" "op \<notin> set (mitm_handshakes s1)"
    and streams: "ms_clientStream s1 \<noteq> None" "ms_upstreamStream s1 \<noteq> None"
    using inv mem op by (auto simp: mitm_inv_def s1_def mitm_remove1)
  have "set (mitm_handshakes s1) \<subseteq> {MClientHandshake, MUpstreamHandshake}"
    by (auto simp: mitm_handshakes_def is_handshake_def)
  then have hs: "MClientHandshake \<notin> set (mitm_handshakes s1) \<Longrightarrow> MUpstreamHandshake \<notin> set (mitm_handshakes s1)
      \<Longrightarrow> mitm_handshakes s1 = []"
    by (cases "mitm_handshakes s1") auto
  from op(2) consider "op = MClientHandshake" | "op = MUpstreamHandshake" by (auto simp: is_handshake_def)
  then show ?thesis
  proof cases
    case 1
    then show ?thesis
      using inv1 none streams hs
      by (auto simp: handleClientHandshake_def onBothHandshakesComplete_def mitm_readClient_def Let_def
          mitm_inv_def is_handshake_def mitm_simps)
  next
    case 2
    then show ?thesis
      using inv1 none streams hs
      by (auto simp: handleUpstreamHandshake_def onBothHandshakesComplete_def mitm_readClient_def Let_def
          mitm_inv_def is_handshake_def mitm_simps)
  qed
qed

lemma main_step:
  assumes inv: "mitm_inv s" and op: "op \<in> set (ms_pending s)" "mitm_main op"
  shows "settled (mitm_data_op op) (s\<lparr>ms_pending := remove1 op (ms_pending s)\<rparr>)"
proof -
  have mem: "op \<in> set (mitm_mains s)" using op by (simp add: mitm_mains_def)
  with inv have one: "mitm_mains s = [op]" by (cases "mitm_mains s") (auto simp: mitm_inv_def)
  then show ?thesis
    using inv op(2) by (auto simp: mitm_inv_def settled_def mitm_remove1 is_handshake_def split: if_splits)
qed

lemma mitm_inv_run_op:
  assumes inv: "mitm_inv s" and op: "op \<in> set (ms_pending s)"
  shows "mitm_inv (mitm_run_op ll en op r s)"
proof (cases "mitm_main op")
  case True
  note st = main_step [OF inv op True]
  show ?thesis unfolding mitm_run_op_def
    using st True settled_connecting settled_relaying by (cases op) simp_all
next
  case False
  show ?thesis
  proof (cases "is_handshake op")
    case True
    then show ?thesis unfolding mitm_run_op_def by (rule handshake_step [OF inv op])
  next
    case other: False
    have "mitm_inv (s\<lparr>ms_pending := remove1 op (ms_pending s)\<rparr>)" by (rule mitm_inv_remove1 [OF inv])
    then show ?thesis
      using False other by (cases op) (simp_all add: mitm_run_op_def is_handshake_def mitm_simps)
  qed
qed

lemma mitm_inv_reachable: "mitm_reachable ll host port s \<Longrightarrow> mitm_inv s"
proof (induction rule: mitm_reachable.induct)
  case start
  show ?case
    by (simp add: mitm_start_def mitm_connectUpstream_def mitm_resetTimer_def mitm_inv_def is_handshake_def mitm_simps)
      (simp add: MitmSession_def mitm_mains_def mitm_handshakes_def)
qed (rule mitm_inv_run_op)

section \<open>Write queues\<close>

text \<open>Both queues keep the contract of theory WriteQueue while the session is open.\<close>

definition mitm_client_written :: "'p mitm_session \<Rightarrow> 'p mitm_session" where
  "mitm_client_written s = mitm_handleClientWrite Ec_ok
     (s\<lparr>ms_pending := remove1 (MClientWrite (hd (ms_clientWriteQueue s))) (ms_pending s)\<rparr>)"

definition mitm_upstream_written :: "'p mitm_session \<Rightarrow> 'p mitm_session" where
  "mitm_upstream_written s = mitm_handleUpstreamWrite Ec_ok
     (s\<lparr>ms_pending := remove1 (MUpstreamWrite (hd (ms_upstreamWriteQueue s))) (ms_pending s)\<rparr>)"

lemma to_client_remove1:
  "concat (map to_client_op (remove1 (MClientWrite d) xs)) = remove1 d (concat (map to_client_op xs))"
proof (induction xs)
  case (Cons x xs)
  then show ?case by (cases x) auto
qed simp

lemma to_upstream_remove1:
  "concat (map to_upstream_op (remove1 (MUpstreamWrite d) xs)) = remove1 d (concat (map to_upstream_op xs))"
proof (induction xs)
  case (Cons x xs)
  then show ?case by (cases x) auto
qed simp

interpretation mitm_client: write_queue ms_clientWriteQueue mitm_client_writes mitm_writeClient mitm_client_written
  "\<lambda>s. \<not> ms_isClosed s"
proof (unfold_locales, goal_cases)
  case (5 s d q)
  then have "mitm_client_writes (s\<lparr>ms_pending := remove1 (MClientWrite d) (ms_pending s)\<rparr>) = []"
    by (simp add: mitm_client_writes_def to_client_remove1)
  with 5 show ?case
    by (cases q) (simp_all add: mitm_client_written_def mitm_handleClientWrite_def mitm_doClientWrite_def Let_def mitm_simps)
qed (simp_all add: mitm_writeClient_def mitm_client_written_def mitm_handleClientWrite_def mitm_doClientWrite_def
    Let_def mitm_simps)

interpretation mitm_upstream: write_queue ms_upstreamWriteQueue mitm_upstream_writes mitm_writeUpstream
  mitm_upstream_written "\<lambda>s. \<not> ms_isClosed s"
proof (unfold_locales, goal_cases)
  case (5 s d q)
  then have "mitm_upstream_writes (s\<lparr>ms_pending := remove1 (MUpstreamWrite d) (ms_pending s)\<rparr>) = []"
    by (simp add: mitm_upstream_writes_def to_upstream_remove1)
  with 5 show ?case
    by (cases q) (simp_all add: mitm_upstream_written_def mitm_handleUpstreamWrite_def mitm_doUpstreamWrite_def
        mitm_readUpstream_def Let_def mitm_simps)
qed (simp_all add: mitm_writeUpstream_def mitm_upstream_written_def mitm_handleUpstreamWrite_def
    mitm_doUpstreamWrite_def mitm_readUpstream_def Let_def mitm_simps)

section \<open>Properties\<close>

text \<open>
  Closing is final. Once a TLS session is closed, the completion of any outstanding operation, with
  any result, changes nothing: no transaction is reported, nothing is written and nothing is started.
\<close>
theorem mitm_closed_is_final:
  assumes "ms_isClosed s"
  shows "mitm_run_op ll en op r s = s\<lparr>ms_pending := remove1 op (ms_pending s)\<rparr>"
  using assms by (simp add: mitm_run_op_def mitm_closed)


definition demo_mitm_env :: mitm_env where
  "demo_mitm_env = \<lparr>me_nextId = 1, me_intercept = False,
     me_getContext = (\<lambda>h. createSslContext demo_ssl (demo_gen h)), me_is_address = (\<lambda>_. False)\<rparr>"

lemma mitm_closed_is_final_witness:
  "mitm_run_op demo_ll demo_mitm_env MClientRead (io_ok ''GET'') (mitm_close (MitmSession demo_ll ''h'' 443))
    = (mitm_close (MitmSession demo_ll ''h'' 443))\<lparr>ms_pending := remove1 MClientRead (ms_pending (mitm_close (MitmSession demo_ll ''h'' 443)))\<rparr>"
  by (rule mitm_closed_is_final) (simp add: mitm_simps)

fun demo_mitm :: "mitm_op list \<Rightarrow> ll_event list list mitm_session \<Rightarrow> ll_event list list mitm_session option" where
  "demo_mitm [] s = Some s"
| "demo_mitm (op # ops) s =
     (if op \<in> set (ms_pending s) then demo_mitm ops (mitm_run_op demo_ll demo_mitm_env op (io_ok ''x'') s) else None)"

lemma demo_mitm_reachable:
  "demo_mitm ops s = Some s' \<Longrightarrow> mitm_reachable demo_ll h p s \<Longrightarrow> mitm_reachable demo_ll h p s'"
  by (induction ops s rule: demo_mitm.induct) (auto split: if_splits intro: mitm_reachable.step)

text \<open>A session that has forwarded a request: six operations and both handshakes, in this order.\<close>

definition demo_mitm_ops :: "mitm_op list" where
  "demo_mitm_ops = [MResolve ''h'' ''443'', MConnect, MEstablished (''HTTP/1.1 200 Connection Established'' @ crlf @ crlf),
     MUpstreamHandshake, MClientHandshake, MClientRead, MUpstreamWrite (serialize_request demo_request)]"

definition demo_mitm_session :: "ll_event list list mitm_session" where
  "demo_mitm_session = the (demo_mitm demo_mitm_ops (mitm_start (MitmSession demo_ll ''h'' 443)))"

lemma demo_mitm_run: "demo_mitm demo_mitm_ops (mitm_start (MitmSession demo_ll ''h'' 443)) \<noteq> None"
  "MUpstreamRead \<in> set (ms_pending demo_mitm_session)"
  by code_simp+


text \<open>
  The user's decision is carried out on the request as edited: forwarding sends its serialisation
  upstream, in order after what is queued, and nothing to the client; dropping sends nothing upstream,
  reports a 502 and makes it the last response the client gets.
\<close>
theorem mitm_decision_carried_out:
  assumes "\<not> ms_isClosed s" "ms_clientHandshakeDone s" "ms_clientStream s \<noteq> None"
  shows "ms_upstreamWriteQueue (mitm_handleDecision Forward req s) = ms_upstreamWriteQueue s @ [serialize_request req]
    \<and> ms_clientWriteQueue (mitm_handleDecision Forward req s) = ms_clientWriteQueue s
    \<and> ms_upstreamWriteQueue (mitm_handleDecision Drop req s) = ms_upstreamWriteQueue s
    \<and> mitm_upstream_writes (mitm_handleDecision Drop req s) = mitm_upstream_writes s
    \<and> ms_clientWriteQueue (mitm_handleDecision Drop req s)
        = ms_clientWriteQueue s @ [mitm_error_response 502 ''Request Dropped by BurpTUI'']
    \<and> ms_closeAfterWrite (mitm_handleDecision Drop req s)
    \<and> map_option rs_statusCode (tx_response (ms_tx (mitm_handleDecision Drop req s))) = Some 502"
  using assms
  by (simp add: mitm_handleDecision_def mitm_writeUpstream_def mitm_doUpstreamWrite_def mitm_sendErrorResponse_def
      mitm_writeClient_def mitm_doClientWrite_def mitm_resetTimer_def Let_def mitm_simps local_response_def)
    (simp add: mitm_upstream_writes_def mitm_emit_def mitm_async_def)

lemma mitm_decision_carried_out_witness:
  "let s = (MitmSession demo_ll ''h'' 443)\<lparr>ms_clientHandshakeDone := True, ms_clientStream := createSslContext demo_ssl (demo_gen ''h'')\<rparr>
   in ms_upstreamWriteQueue (mitm_handleDecision Forward demo_request s) = ms_upstreamWriteQueue s @ [serialize_request demo_request]
    \<and> ms_clientWriteQueue (mitm_handleDecision Forward demo_request s) = ms_clientWriteQueue s
    \<and> ms_upstreamWriteQueue (mitm_handleDecision Drop demo_request s) = ms_upstreamWriteQueue s
    \<and> mitm_upstream_writes (mitm_handleDecision Drop demo_request s) = mitm_upstream_writes s
    \<and> ms_clientWriteQueue (mitm_handleDecision Drop demo_request s)
        = ms_clientWriteQueue s @ [mitm_error_response 502 ''Request Dropped by BurpTUI'']
    \<and> ms_closeAfterWrite (mitm_handleDecision Drop demo_request s)
    \<and> map_option rs_statusCode (tx_response (ms_tx (mitm_handleDecision Drop demo_request s))) = Some 502"
  unfolding Let_def
  by (rule mitm_decision_carried_out)
    (simp_all add: MitmSession_def createSslContext_def demo_gen_def demo_ssl_def)

end
