(* ===== verification/TextEditor.thy ===== *)
theory TextEditor
  imports HttpMessage "HOL-Library.Monad_Syntax"
begin

text \<open>
  The text editor of \<open>src/src/tui/TextEditor.cpp\<close>, in which intercepted requests are edited: its
  lines, cursor, scrolling and mouse selection, and every event handler. Accesses that C++ leaves
  undefined or answers with \<open>std::out_of_range\<close> (\<open>lines_[i]\<close>, \<open>substr\<close>, \<open>insert\<close>, \<open>erase\<close> beyond the
  end) are \<open>None\<close>, so that a result \<open>Some\<close> says that none occurs. Row, column and scroll position,
  which the code keeps in \<open>int\<close> and never lets become negative, are natural numbers. Parameters of an
  event are what the interface library answers: whether the component has the focus, and whether
  copying to the clipboard succeeds. \<open>Render\<close> is modelled for
  its effect on the scrolling; what it draws is in theory Drawing.
\<close>

section \<open>State\<close>

record box =
  x_min :: int
  x_max :: int
  y_min :: int
  y_max :: int

record text_editor =
  te_title :: string
  te_lines :: "string list"
  te_row :: nat
  te_col :: nat
  te_scroll :: nat
  te_box :: box
  te_status :: string
  te_selecting :: bool
  te_hasSelection :: bool
  te_selStart :: "int \<times> int"
  te_selEnd :: "int \<times> int"
  te_copied :: "string list"

definition TextEditor :: "string \<Rightarrow> text_editor" where
  "TextEditor title = \<lparr>te_title = title, te_lines = [[]], te_row = 0, te_col = 0, te_scroll = 0,
     te_box = \<lparr>x_min = 0, x_max = 0, y_min = 0, y_max = 0\<rparr>, te_status = [], te_selecting = False,
     te_hasSelection = False, te_selStart = (-1, -1), te_selEnd = (-1, -1), te_copied = []\<rparr>"

section \<open>Checked accesses\<close>

definition line_at :: "string list \<Rightarrow> nat \<Rightarrow> string option" where
  "line_at ls i = (if i < length ls then Some (ls ! i) else None)"

definition str_from :: "string \<Rightarrow> nat \<Rightarrow> string option" where
  "str_from s i = (if i \<le> length s then Some (drop i s) else None)"

definition str_insert_at :: "string \<Rightarrow> nat \<Rightarrow> string \<Rightarrow> string option" where
  "str_insert_at s i t = (if i \<le> length s then Some (str_insert s i t) else None)"

definition str_erase_at :: "string \<Rightarrow> nat \<Rightarrow> string option" where
  "str_erase_at s i = (if i \<le> length s then Some (str_erase s i 1) else None)"

definition insert_line :: "string list \<Rightarrow> nat \<Rightarrow> string \<Rightarrow> string list option" where
  "insert_line ls i l = (if i \<le> length ls then Some (take i ls @ l # drop i ls) else None)"

definition erase_line :: "string list \<Rightarrow> nat \<Rightarrow> string list option" where
  "erase_line ls i = (if i < length ls then Some (take i ls @ drop (Suc i) ls) else None)"

section \<open>Text in and out\<close>

text \<open>The loop of \<open>SetText\<close> over the text without carriage returns, from position \<open>start\<close> on.\<close>

function split_lines :: "string \<Rightarrow> string list" where
  "split_lines s =
     (if s = [] then []
      else case str_find s [LF] of
             None \<Rightarrow> [s]
           | Some e \<Rightarrow>
               let rest = drop (e + 1) s
               in substr s 0 e # (if rest = [] then [[]] else split_lines rest))"
  by pat_completeness auto

termination
  by (relation "measure length") auto

declare split_lines.simps [simp del]

definition SetText :: "string \<Rightarrow> text_editor \<Rightarrow> text_editor" where
  "SetText text s =
     (let clean = filter (\<lambda>c. c \<noteq> CR) text;
          ls = split_lines clean
      in s\<lparr>te_lines := (if ls = [] then [[]] else ls), te_row := 0, te_col := 0, te_scroll := 0,
           te_status := [], te_hasSelection := False, te_selecting := False\<rparr>)"

fun join_crlf :: "string list \<Rightarrow> string" where
  "join_crlf [] = []"
| "join_crlf [l] = l"
| "join_crlf (l # l' # ls) = l @ crlf @ join_crlf (l' # ls)"

definition GetText :: "text_editor \<Rightarrow> string" where
  "GetText s = join_crlf (te_lines s)"

definition Clear :: "text_editor \<Rightarrow> text_editor" where
  "Clear s = s\<lparr>te_lines := [[]], te_row := 0, te_col := 0, te_scroll := 0, te_status := ''Cleared'',
     te_hasSelection := False, te_selecting := False\<rparr>"

text \<open>A call of \<open>Clipboard::copy\<close> is recorded with its text.\<close>

definition clipboard_copy :: "string \<Rightarrow> text_editor \<Rightarrow> text_editor" where
  "clipboard_copy t s = s\<lparr>te_copied := te_copied s @ [t]\<rparr>"

definition CopyToClipboard :: "bool \<Rightarrow> text_editor \<Rightarrow> bool \<times> text_editor" where
  "CopyToClipboard copies s =
     (let text = GetText s
      in if text = [] then (False, s)
         else if copies then (True, (clipboard_copy text s)\<lparr>te_status := ''Copied entire text ('' @ nat_to_string (length text) @ '' B)''\<rparr>)
         else (False, (clipboard_copy text s)\<lparr>te_status := ''Failed to copy''\<rparr>))"

section \<open>Selection\<close>

definition clamp :: "int \<Rightarrow> int \<Rightarrow> int" where
  "clamp hi x = max 0 (min hi x)"

text \<open>The lines \<open>r1\<close> to \<open>r2\<close>, the first from column \<open>c1\<close>, the last up to column \<open>c2\<close>.\<close>

fun selected_lines :: "string list \<Rightarrow> int \<Rightarrow> int \<Rightarrow> int \<Rightarrow> int \<Rightarrow> int list \<Rightarrow> string option" where
  "selected_lines ls r1 c1 r2 c2 [] = Some []"
| "selected_lines ls r1 c1 r2 c2 (r # rs) = do {
     line \<leftarrow> line_at ls (nat r);
     let start = (if r = r1 then clamp (int (length line)) c1 else 0);
     let end = (if r = r2 then clamp (int (length line)) c2 else int (length line));
     rest \<leftarrow> selected_lines ls r1 c1 r2 c2 rs;
     Some ((if start < end then substr line (nat start) (nat (end - start)) else [])
           @ (if r < r2 then crlf else []) @ rest)
   }"

definition GetSelectedText :: "text_editor \<Rightarrow> string option" where
  "GetSelectedText s =
     (if \<not> te_hasSelection s \<or> te_lines s = [] then Some []
      else let (r1, c1) = te_selStart s; (r2, c2) = te_selEnd s;
               (r1, c1, r2, c2) = (if r1 > r2 \<or> (r1 = r2 \<and> c1 > c2) then (r2, c2, r1, c1) else (r1, c1, r2, c2));
               r1 = clamp (int (length (te_lines s)) - 1) r1;
               r2 = clamp (int (length (te_lines s)) - 1) r2
           in selected_lines (te_lines s) r1 c1 r2 c2 [r1..r2])"

definition isWordChar :: "char \<Rightarrow> bool" where
  "isWordChar c \<longleftrightarrow> isalnum c \<or> c \<in> set ''_-./:=&?''"

text \<open>The word around a position; the two scans stop at the ends of the line.\<close>

definition GetWordAt :: "nat \<Rightarrow> nat \<Rightarrow> text_editor \<Rightarrow> string" where
  "GetWordAt row col s =
     (if row \<ge> length (te_lines s) then []
      else let line = te_lines s ! row
           in if col \<ge> length line then []
              else if \<not> isWordChar (line ! col) then []
              else rev (takeWhile isWordChar (rev (take col line))) @ takeWhile isWordChar (drop col line))"

section \<open>Scrolling and inserting\<close>

definition ensureCursorVisible :: "nat \<Rightarrow> text_editor \<Rightarrow> text_editor" where
  "ensureCursorVisible visibleHeight s =
     (if visibleHeight = 0 then s
      else let y = (if te_row s < te_scroll s then te_row s
                    else if te_row s \<ge> te_scroll s + visibleHeight then te_row s - visibleHeight + 1
                    else te_scroll s);
               maxScroll = length (te_lines s) - visibleHeight
           in s\<lparr>te_scroll := min maxScroll y\<rparr>)"

text \<open>Splitting the cursor's line at the cursor, as Return and a pasted line feed do.\<close>

definition break_line :: "text_editor \<Rightarrow> text_editor option" where
  "break_line s = do {
     line \<leftarrow> line_at (te_lines s) (te_row s);
     rem \<leftarrow> str_from line (te_col s);
     ls \<leftarrow> insert_line ((te_lines s)[te_row s := substr line 0 (te_col s)]) (te_row s + 1) rem;
     Some (s\<lparr>te_lines := ls, te_row := te_row s + 1, te_col := 0\<rparr>)
   }"

definition insert_at_cursor :: "string \<Rightarrow> text_editor \<Rightarrow> text_editor option" where
  "insert_at_cursor t s = do {
     line \<leftarrow> line_at (te_lines s) (te_row s);
     line' \<leftarrow> str_insert_at line (te_col s) t;
     Some (s\<lparr>te_lines := (te_lines s)[te_row s := line'], te_col := te_col s + length t\<rparr>)
   }"

fun insertString :: "string \<Rightarrow> text_editor \<Rightarrow> text_editor option" where
  "insertString [] s = Some s"
| "insertString (c # cs) s =
     (if c = CR then insertString cs s
      else do { s' \<leftarrow> (if c = LF then break_line s else insert_at_cursor [c] s); insertString cs s' })"

section \<open>Keys\<close>

datatype key =
    ArrowUp | ArrowDown | ArrowLeft | ArrowRight | Home | End | PageUp | PageDown
  | Return | Backspace | Delete | Tab

definition visible_height :: "text_editor \<Rightarrow> nat" where
  "visible_height s = nat (max 2 (y_max (te_box s) - y_min (te_box s) - 2))"

text \<open>Moving to another row keeps the column if the row is long enough.\<close>

definition goto_row :: "nat \<Rightarrow> text_editor \<Rightarrow> text_editor option" where
  "goto_row row s = do {
     line \<leftarrow> line_at (te_lines s) row;
     Some (ensureCursorVisible (visible_height s) (s\<lparr>te_row := row, te_col := min (te_col s) (length line)\<rparr>))
   }"

fun key_action :: "key \<Rightarrow> text_editor \<Rightarrow> text_editor option" where
  "key_action ArrowUp s = (if te_row s > 0 then goto_row (te_row s - 1) s else Some s)"
| "key_action ArrowDown s = (if te_row s + 1 < length (te_lines s) then goto_row (te_row s + 1) s else Some s)"
| "key_action ArrowLeft s =
     (if te_col s > 0 then Some (s\<lparr>te_col := te_col s - 1\<rparr>)
      else if te_row s > 0 then do {
        line \<leftarrow> line_at (te_lines s) (te_row s - 1);
        Some (ensureCursorVisible (visible_height s) (s\<lparr>te_row := te_row s - 1, te_col := length line\<rparr>)) }
      else Some s)"
| "key_action ArrowRight s = do {
     line \<leftarrow> line_at (te_lines s) (te_row s);
     if te_col s < length line then Some (s\<lparr>te_col := te_col s + 1\<rparr>)
     else if te_row s + 1 < length (te_lines s)
     then Some (ensureCursorVisible (visible_height s) (s\<lparr>te_row := te_row s + 1, te_col := 0\<rparr>))
     else Some s }"
| "key_action Home s = Some (s\<lparr>te_col := 0\<rparr>)"
| "key_action End s = do {
     line \<leftarrow> line_at (te_lines s) (te_row s);
     Some (s\<lparr>te_col := length line\<rparr>) }"
| "key_action PageUp s = goto_row (te_row s - 10) s"
| "key_action PageDown s = goto_row (min (length (te_lines s) - 1) (te_row s + 10)) s"
| "key_action Return s = do {
     s' \<leftarrow> break_line s;
     Some (ensureCursorVisible (visible_height s) s') }"
| "key_action Backspace s =
     (if te_col s > 0 then do {
        line \<leftarrow> line_at (te_lines s) (te_row s);
        line' \<leftarrow> str_erase_at line (te_col s - 1);
        Some (s\<lparr>te_lines := (te_lines s)[te_row s := line'], te_col := te_col s - 1\<rparr>) }
      else if te_row s > 0 then do {
        prev \<leftarrow> line_at (te_lines s) (te_row s - 1);
        line \<leftarrow> line_at (te_lines s) (te_row s);
        ls \<leftarrow> erase_line ((te_lines s)[te_row s - 1 := prev @ line]) (te_row s);
        Some (ensureCursorVisible (visible_height s)
          (s\<lparr>te_lines := ls, te_row := te_row s - 1, te_col := length prev\<rparr>)) }
      else Some s)"
| "key_action Delete s = do {
     line \<leftarrow> line_at (te_lines s) (te_row s);
     if te_col s < length line then do {
       line' \<leftarrow> str_erase_at line (te_col s);
       Some (s\<lparr>te_lines := (te_lines s)[te_row s := line']\<rparr>) }
     else if te_row s + 1 < length (te_lines s) then do {
       follow \<leftarrow> line_at (te_lines s) (te_row s + 1);
       ls \<leftarrow> erase_line ((te_lines s)[te_row s := line @ follow]) (te_row s + 1);
       Some (ensureCursorVisible (visible_height s) (s\<lparr>te_lines := ls\<rparr>)) }
     else Some s }"
| "key_action Tab s = insert_at_cursor ''    '' s"

section \<open>Events\<close>

datatype mouse_button = MouseLeft | MouseRight | WheelUp | WheelDown | OtherButton
datatype mouse_motion = Pressed | Released | Moved

datatype editor_event =
    MouseEvent int int mouse_button mouse_motion
  | KeyEvent key
  | CharacterEvent string
  | OtherEvent

definition contains_point :: "box \<Rightarrow> int \<Rightarrow> int \<Rightarrow> bool" where
  "contains_point b x y \<longleftrightarrow> x_min b \<le> x \<and> x \<le> x_max b \<and> y_min b \<le> y \<and> y \<le> y_max b"

definition target_row :: "text_editor \<Rightarrow> int \<Rightarrow> nat" where
  "target_row s y = nat (clamp (int (length (te_lines s)) - 1) (int (te_scroll s) + max 0 (y - y_min (te_box s) - 1)))"

definition target_col :: "text_editor \<Rightarrow> string \<Rightarrow> int \<Rightarrow> nat" where
  "target_col s line x = nat (clamp (int (length line)) (max 0 (x - x_min (te_box s) - 6)))"

text \<open>The end of a drag: a selection of at most one column is none, others are copied.\<close>

definition mouse_release :: "nat \<Rightarrow> nat \<Rightarrow> text_editor \<Rightarrow> text_editor option" where
  "mouse_release row col s =
     (if te_selecting s
      then let s1 = s\<lparr>te_selecting := False, te_selEnd := (int row, int col)\<rparr>
           in if fst (te_selStart s1) = fst (te_selEnd s1) \<and> \<bar>snd (te_selStart s1) - snd (te_selEnd s1)\<bar> \<le> 1
              then Some (s1\<lparr>te_hasSelection := False\<rparr>)
              else do {
                sel \<leftarrow> GetSelectedText s1;
                Some (if sel \<noteq> []
                      then (clipboard_copy sel s1)\<lparr>te_status := ''Copied ('' @ nat_to_string (length sel) @ '' B)''\<rparr>
                      else s1) }
      else Some s)"

definition mouse_copy :: "bool \<Rightarrow> nat \<Rightarrow> nat \<Rightarrow> text_editor \<Rightarrow> text_editor option" where
  "mouse_copy copies row col s =
     (if te_hasSelection s
      then do {
        sel \<leftarrow> GetSelectedText s;
        Some (if sel \<noteq> []
              then (clipboard_copy sel s)\<lparr>te_status := ''Copied selection ('' @ nat_to_string (length sel) @ '' B)''\<rparr>
              else s) }
      else let word = GetWordAt row col s
           in Some (if word \<noteq> [] then (clipboard_copy word s)\<lparr>te_status := ''Copied word: '' @ word\<rparr>
                    else snd (CopyToClipboard copies s)))"

definition on_mouse ::
  "bool \<Rightarrow> int \<Rightarrow> int \<Rightarrow> mouse_button \<Rightarrow> mouse_motion \<Rightarrow> text_editor \<Rightarrow> (bool \<times> text_editor) option" where
  "on_mouse copies x y button motion s =
     (if contains_point (te_box s) x y
      then do {
        let row = target_row s y;
        line \<leftarrow> line_at (te_lines s) row;
        let col = target_col s line x;
        if button = WheelUp then Some (True, s\<lparr>te_scroll := te_scroll s - 3\<rparr>)
        else if button = WheelDown
        then Some (True, s\<lparr>te_scroll := min (length (te_lines s) - visible_height s) (te_scroll s + 3)\<rparr>)
        else if button = MouseLeft \<and> motion = Pressed
        then Some (True, s\<lparr>te_row := row, te_col := col, te_selStart := (int row, int col), te_selEnd := (int row, int col),
                           te_selecting := True, te_hasSelection := True\<rparr>)
        else if te_selecting s \<and> button = MouseLeft
        then Some (True, s\<lparr>te_row := row, te_col := col, te_selEnd := (int row, int col)\<rparr>)
        else if button = MouseLeft \<and> motion = Released
        then do { s' \<leftarrow> mouse_release row col s; Some (True, s') }
        else if button = MouseRight \<and> motion = Pressed
        then do { s' \<leftarrow> mouse_copy copies row col s; Some (True, s') }
        else Some (False, s) }
      else if te_selecting s \<and> motion = Released then Some (True, s\<lparr>te_selecting := False\<rparr>)
      else Some (False, s))"

text \<open>The handler; \<open>focused\<close> and \<open>copies\<close> are the answers of the interface library.\<close>

fun OnEvent :: "bool \<Rightarrow> bool \<Rightarrow> editor_event \<Rightarrow> text_editor \<Rightarrow> (bool \<times> text_editor) option" where
  "OnEvent focused copies (MouseEvent x y button motion) s = on_mouse copies x y button motion s"
| "OnEvent focused copies (KeyEvent k) s =
     (if \<not> focused then Some (False, s)
      else do { s' \<leftarrow> key_action k s; Some (True, s'\<lparr>te_hasSelection := False\<rparr>) })"
| "OnEvent focused copies (CharacterEvent t) s =
     (if \<not> focused then Some (False, s)
      else do { s' \<leftarrow> insertString t s;
                Some (True, (ensureCursorVisible (visible_height s) s')\<lparr>te_hasSelection := False\<rparr>) })"
| "OnEvent focused copies OtherEvent s = Some (False, s)"

text \<open>Drawing scrolls to the cursor and records the box the lines were drawn in.\<close>

definition Render :: "box \<Rightarrow> text_editor \<Rightarrow> text_editor" where
  "Render b s =
     (let h = y_max (te_box s) - y_min (te_box s) + 1
      in (ensureCursorVisible (nat (max 2 (h - 2))) s)\<lparr>te_box := b\<rparr>)"

section \<open>The cursor as a split of the lines\<close>

text \<open>\<open>at_cursor s pre a b post\<close>: the cursor is in the line \<open>a @ b\<close>, behind \<open>a\<close>.\<close>

definition at_cursor :: "text_editor \<Rightarrow> string list \<Rightarrow> string \<Rightarrow> string \<Rightarrow> string list \<Rightarrow> bool" where
  "at_cursor s pre a b post \<longleftrightarrow>
     te_lines s = pre @ (a @ b) # post \<and> te_row s = length pre \<and> te_col s = length a"

definition cursor_inv :: "text_editor \<Rightarrow> bool" where
  "cursor_inv s \<longleftrightarrow> te_row s < length (te_lines s) \<and> te_col s \<le> length (te_lines s ! te_row s)"

definition clean_line :: "string \<Rightarrow> bool" where
  "clean_line l \<longleftrightarrow> CR \<notin> set l \<and> LF \<notin> set l"

definition editor_inv :: "text_editor \<Rightarrow> bool" where
  "editor_inv s \<longleftrightarrow> cursor_inv s \<and> (\<forall>l \<in> set (te_lines s). clean_line l)"

lemma at_cursorE:
  assumes "cursor_inv s"
  obtains pre a b post where "at_cursor s pre a b post"
proof -
  let ?l = "te_lines s ! te_row s"
  have "at_cursor s (take (te_row s) (te_lines s)) (take (te_col s) ?l) (drop (te_col s) ?l)
      (drop (Suc (te_row s)) (te_lines s))"
    using assms by (simp add: at_cursor_def cursor_inv_def id_take_nth_drop)
  then show thesis by (rule that)
qed

lemma at_cursor_inv: "at_cursor s pre a b post \<Longrightarrow> cursor_inv s"
  by (simp add: at_cursor_def cursor_inv_def)

text \<open>The text before and behind the cursor, lines separated by line feeds.\<close>

definition ended :: "string list \<Rightarrow> string" where
  "ended ls = concat (map (\<lambda>l. l @ [LF]) ls)"

definition started :: "string list \<Rightarrow> string" where
  "started ls = concat (map (\<lambda>l. LF # l) ls)"

lemma ended_simps [simp]: "ended [] = []" "ended (l # ls) = l @ LF # ended ls"
  "ended (ls @ ls') = ended ls @ ended ls'"
  by (simp_all add: ended_def)

lemma started_simps [simp]: "started [] = []" "started (l # ls) = LF # l @ started ls"
  by (simp_all add: started_def)

definition before_cursor :: "text_editor \<Rightarrow> string" where
  "before_cursor s = ended (take (te_row s) (te_lines s)) @ take (te_col s) (te_lines s ! te_row s)"

definition behind_cursor :: "text_editor \<Rightarrow> string" where
  "behind_cursor s = drop (te_col s) (te_lines s ! te_row s) @ started (drop (Suc (te_row s)) (te_lines s))"

lemma cursor_text:
  "at_cursor s pre a b post \<Longrightarrow> before_cursor s = ended pre @ a \<and> behind_cursor s = b @ started post"
  by (simp add: at_cursor_def before_cursor_def behind_cursor_def)

lemma checked_simps [simp]:
  "line_at (pre @ l # post) (length pre) = Some l"
  "line_at (pre @ l # l' # post) (Suc (length pre)) = Some l'"
  "str_from (a @ b) (length a) = Some b"
  "str_insert_at (a @ b) (length a) t = Some (a @ t @ b)"
  "str_erase_at (a @ c # b) (length a) = Some (a @ b)"
  "insert_line (pre @ l # post) (Suc (length pre)) l' = Some (pre @ l # l' # post)"
  "erase_line (pre @ l # l' # post) (Suc (length pre)) = Some (pre @ l # post)"
  by (simp_all add: line_at_def str_from_def str_insert_at_def str_insert_def str_erase_at_def str_erase_def
      insert_line_def erase_line_def nth_append)

lemma visible_simps [simp]:
  "te_lines (ensureCursorVisible h s) = te_lines s" "te_row (ensureCursorVisible h s) = te_row s"
  "te_col (ensureCursorVisible h s) = te_col s" "te_copied (ensureCursorVisible h s) = te_copied s"
  by (simp_all add: ensureCursorVisible_def Let_def)

lemma at_cursor_visible [simp]:
  "at_cursor (ensureCursorVisible h s) pre a b post = at_cursor s pre a b post"
  "at_cursor (s\<lparr>te_hasSelection := c\<rparr>) pre a b post = at_cursor s pre a b post"
  by (simp_all add: at_cursor_def)

section \<open>Editing at the cursor\<close>

lemma break_line_at:
  "at_cursor s pre a b post \<Longrightarrow> \<exists>s'. break_line s = Some s' \<and> at_cursor s' (pre @ [a]) [] b post"
  by (simp add: break_line_def at_cursor_def substr_def)

lemma insert_at:
  "at_cursor s pre a b post \<Longrightarrow> \<exists>s'. insert_at_cursor t s = Some s' \<and> at_cursor s' pre (a @ t) b post"
  by (simp add: insert_at_cursor_def at_cursor_def)

lemma key_Backspace_in:
  "at_cursor s pre (a @ [c]) b post \<Longrightarrow> \<exists>s'. key_action Backspace s = Some s' \<and> at_cursor s' pre a b post"
  by (simp add: at_cursor_def)

lemma key_Backspace_join:
  "at_cursor s (pre @ [p]) [] b post \<Longrightarrow> \<exists>s'. key_action Backspace s = Some s' \<and> at_cursor s' pre p b post"
  by (simp add: at_cursor_def)

lemma key_Backspace_start:
  "at_cursor s [] [] b post \<Longrightarrow> key_action Backspace s = Some s"
  by (simp add: at_cursor_def)

lemma key_Delete_in:
  "at_cursor s pre a (c # b) post \<Longrightarrow> \<exists>s'. key_action Delete s = Some s' \<and> at_cursor s' pre a b post"
  by (simp add: at_cursor_def)

lemma key_Delete_join:
  "at_cursor s pre a [] (f # post) \<Longrightarrow> \<exists>s'. key_action Delete s = Some s' \<and> at_cursor s' pre a f post"
  by (simp add: at_cursor_def)

lemma key_Delete_end:
  "at_cursor s pre a [] [] \<Longrightarrow> key_action Delete s = Some s"
  by (simp add: at_cursor_def)

lemma key_Left_in:
  "at_cursor s pre (a @ [c]) b post \<Longrightarrow> \<exists>s'. key_action ArrowLeft s = Some s' \<and> at_cursor s' pre a (c # b) post"
  by (simp add: at_cursor_def)

lemma key_Left_up:
  "at_cursor s (pre @ [p]) [] b post \<Longrightarrow> \<exists>s'. key_action ArrowLeft s = Some s' \<and> at_cursor s' pre p [] (b # post)"
  by (simp add: at_cursor_def)

lemma key_Left_start:
  "at_cursor s [] [] b post \<Longrightarrow> key_action ArrowLeft s = Some s"
  by (simp add: at_cursor_def)

lemma key_Right_in:
  "at_cursor s pre a (c # b) post \<Longrightarrow> \<exists>s'. key_action ArrowRight s = Some s' \<and> at_cursor s' pre (a @ [c]) b post"
  by (simp add: at_cursor_def)

lemma key_Right_down:
  "at_cursor s pre a [] (f # post) \<Longrightarrow> \<exists>s'. key_action ArrowRight s = Some s' \<and> at_cursor s' (pre @ [a]) [] f post"
  by (simp add: at_cursor_def)

lemma key_Right_end:
  "at_cursor s pre a [] [] \<Longrightarrow> key_action ArrowRight s = Some s"
  by (simp add: at_cursor_def)


text \<open>What the editing keys do to the text around the cursor.\<close>

fun edit :: "key \<Rightarrow> string \<times> string \<Rightarrow> string \<times> string" where
  "edit Return (u, v) = (u @ [LF], v)"
| "edit Backspace (u, v) = (butlast u, v)"
| "edit Delete (u, v) = (u, tl v)"
| "edit Tab (u, v) = (u @ ''    '', v)"
| "edit ArrowLeft (u, v) = (if u = [] then (u, v) else (butlast u, last u # v))"
| "edit ArrowRight (u, v) = (if v = [] then (u, v) else (u @ [hd v], tl v))"
| "edit _ (u, v) = (u, v)"

definition editing_key :: "key \<Rightarrow> bool" where
  "editing_key k \<longleftrightarrow> k \<in> {Return, Backspace, Delete, Tab, ArrowLeft, ArrowRight}"

definition around :: "text_editor \<Rightarrow> string \<times> string" where
  "around s = (before_cursor s, behind_cursor s)"

lemma around_at: "at_cursor s pre a b post \<Longrightarrow> around s = (ended pre @ a, b @ started post)"
  using cursor_text by (simp add: around_def)

lemma clean_append [simp]: "clean_line (a @ b) \<longleftrightarrow> clean_line a \<and> clean_line b"
  "clean_line (c # b) \<longleftrightarrow> c \<noteq> CR \<and> c \<noteq> LF \<and> clean_line b" "clean_line []"
  by (auto simp: clean_line_def)

lemma editor_inv_at:
  "at_cursor s pre a b post \<Longrightarrow>
     editor_inv s \<longleftrightarrow> (\<forall>l \<in> set pre. clean_line l) \<and> clean_line a \<and> clean_line b \<and> (\<forall>l \<in> set post. clean_line l)"
  using at_cursor_inv [of s pre a b post] by (auto simp: editor_inv_def at_cursor_def)

text \<open>A step leads from one split to another, with the text changed by \<open>e\<close> and lines kept clean.\<close>

definition steps_to :: "text_editor option \<Rightarrow> text_editor \<Rightarrow> string \<times> string \<Rightarrow> bool" where
  "steps_to r s uv \<longleftrightarrow> (\<exists>s'. r = Some s' \<and> cursor_inv s' \<and> around s' = uv \<and> (editor_inv s \<longrightarrow> editor_inv s'))"

lemma steps_toI:
  assumes "\<exists>s'. r = Some s' \<and> at_cursor s' pre' a' b' post'" "at_cursor s pre a b post"
    "(ended pre' @ a', b' @ started post') = uv"
    "(\<forall>l \<in> set pre. clean_line l) \<and> clean_line a \<and> clean_line b \<and> (\<forall>l \<in> set post. clean_line l) \<Longrightarrow>
       (\<forall>l \<in> set pre'. clean_line l) \<and> clean_line a' \<and> clean_line b' \<and> (\<forall>l \<in> set post'. clean_line l)"
  shows "steps_to r s uv"
  using assms editor_inv_at around_at at_cursor_inv unfolding steps_to_def by metis

lemma stays: "cursor_inv s \<Longrightarrow> steps_to (Some s) s (around s)"
  by (simp add: steps_to_def)

lemma break_line_steps: "cursor_inv s \<Longrightarrow> steps_to (break_line s) s (before_cursor s @ [LF], behind_cursor s)"
  by (elim at_cursorE, rule steps_toI [OF break_line_at]) (auto simp: cursor_text)

lemma insert_steps: "cursor_inv s \<Longrightarrow> clean_line t \<Longrightarrow> steps_to (insert_at_cursor t s) s (before_cursor s @ t, behind_cursor s)"
  by (elim at_cursorE, rule steps_toI [OF insert_at]) (auto simp: cursor_text)

lemma steps_to_Some:
  assumes "steps_to r s uv" obtains s' where "r = Some s'" "cursor_inv s'" "around s' = uv" "editor_inv s \<longrightarrow> editor_inv s'"
  using assms by (auto simp: steps_to_def)

lemma insertString_steps:
  "cursor_inv s \<Longrightarrow> steps_to (insertString t s) s (before_cursor s @ filter (\<lambda>c. c \<noteq> CR) t, behind_cursor s)"
proof (induction t arbitrary: s)
  case Nil
  then show ?case using stays [of s] by (simp add: around_def)
next
  case (Cons c cs)
  show ?case
  proof (cases "c = CR")
    case True
    then show ?thesis using Cons by simp
  next
    case False
    let ?r = "if c = LF then break_line s else insert_at_cursor [c] s"
    have "steps_to ?r s (before_cursor s @ [c], behind_cursor s)"
      using break_line_steps [OF Cons.prems] insert_steps [OF Cons.prems, of "[c]"] False by simp
    then obtain s' where s': "?r = Some s'" "cursor_inv s'" "around s' = (before_cursor s @ [c], behind_cursor s)"
      "editor_inv s \<longrightarrow> editor_inv s'"
      by (rule steps_to_Some)
    from Cons.IH [OF s'(2)] obtain s2 where s2: "insertString cs s' = Some s2" "cursor_inv s2"
      "around s2 = (before_cursor s' @ filter (\<lambda>c. c \<noteq> CR) cs, behind_cursor s')" "editor_inv s' \<longrightarrow> editor_inv s2"
      by (rule steps_to_Some)
    have "insertString (c # cs) s = Some s2" using False s'(1) s2(1) by (simp split: if_splits)
    with s' s2 False show ?thesis by (simp add: steps_to_def around_def)
  qed
qed

lemma steps_to_same: "r = Some s \<Longrightarrow> cursor_inv s \<Longrightarrow> around s = uv \<Longrightarrow> steps_to r s uv"
  by (simp add: steps_to_def)

lemma Backspace_steps:
  assumes "cursor_inv s" shows "steps_to (key_action Backspace s) s (butlast (before_cursor s), behind_cursor s)"
proof -
  from assms obtain pre a b post where cur: "at_cursor s pre a b post" by (rule at_cursorE)
  note texts = cursor_text [OF cur]
  show ?thesis
  proof (cases a rule: rev_cases)
    case (snoc a' c)
    then show ?thesis using cur texts
      by (intro steps_toI [OF key_Backspace_in cur [unfolded snoc]]) (auto simp: butlast_append)
  next
    case a: Nil
    show ?thesis
    proof (cases pre rule: rev_cases)
      case Nil
      then show ?thesis using cur a texts assms key_Backspace_start by (auto intro!: steps_to_same simp: around_def)
    next
      case (snoc pre' p)
      then show ?thesis using cur texts a
        by (intro steps_toI [OF key_Backspace_join cur [unfolded snoc a]]) (auto simp: butlast_append)
    qed
  qed
qed

lemma Delete_steps:
  assumes "cursor_inv s" shows "steps_to (key_action Delete s) s (before_cursor s, tl (behind_cursor s))"
proof -
  from assms obtain pre a b post where cur: "at_cursor s pre a b post" by (rule at_cursorE)
  note texts = cursor_text [OF cur]
  show ?thesis
  proof (cases b)
    case (Cons c b')
    then show ?thesis using cur texts by (intro steps_toI [OF key_Delete_in cur [unfolded Cons]]) auto
  next
    case b: Nil
    show ?thesis
    proof (cases post)
      case Nil
      then show ?thesis using cur b texts assms key_Delete_end by (auto intro!: steps_to_same simp: around_def)
    next
      case (Cons f post')
      then show ?thesis using cur texts b by (intro steps_toI [OF key_Delete_join cur [unfolded Cons b]]) auto
    qed
  qed
qed

lemma Left_steps:
  assumes "cursor_inv s" shows "steps_to (key_action ArrowLeft s) s (edit ArrowLeft (around s))"
proof -
  from assms obtain pre a b post where cur: "at_cursor s pre a b post" by (rule at_cursorE)
  note texts = cursor_text [OF cur]
  show ?thesis
  proof (cases a rule: rev_cases)
    case (snoc a' c)
    then show ?thesis using cur texts
      by (intro steps_toI [OF key_Left_in cur [unfolded snoc]]) (auto simp: butlast_append around_def)
  next
    case a: Nil
    show ?thesis
    proof (cases pre rule: rev_cases)
      case Nil
      then show ?thesis using cur a texts assms key_Left_start by (auto intro!: steps_to_same simp: around_def)
    next
      case (snoc pre' p)
      then show ?thesis using cur texts a
        by (intro steps_toI [OF key_Left_up cur [unfolded snoc a]]) (auto simp: butlast_append around_def)
    qed
  qed
qed

lemma Right_steps:
  assumes "cursor_inv s" shows "steps_to (key_action ArrowRight s) s (edit ArrowRight (around s))"
proof -
  from assms obtain pre a b post where cur: "at_cursor s pre a b post" by (rule at_cursorE)
  note texts = cursor_text [OF cur]
  show ?thesis
  proof (cases b)
    case (Cons c b')
    then show ?thesis using cur texts by (intro steps_toI [OF key_Right_in cur [unfolded Cons]]) (auto simp: around_def)
  next
    case b: Nil
    show ?thesis
    proof (cases post)
      case Nil
      then show ?thesis using cur b texts assms key_Right_end by (auto intro!: steps_to_same simp: around_def)
    next
      case (Cons f post')
      then show ?thesis using cur texts b by (intro steps_toI [OF key_Right_down cur [unfolded Cons b]]) (auto simp: around_def)
    qed
  qed
qed

lemma around_visible [simp]: "around (ensureCursorVisible h s) = around s" "around (s\<lparr>te_hasSelection := c\<rparr>) = around s"
  "cursor_inv (ensureCursorVisible h s) = cursor_inv s" "editor_inv (ensureCursorVisible h s) = editor_inv s"
  "cursor_inv (s\<lparr>te_hasSelection := c\<rparr>) = cursor_inv s" "editor_inv (s\<lparr>te_hasSelection := c\<rparr>) = editor_inv s"
  by (simp_all add: around_def before_cursor_def behind_cursor_def cursor_inv_def editor_inv_def)

lemma editing_steps:
  assumes "cursor_inv s" "editing_key k"
  shows "steps_to (key_action k s) s (edit k (around s))"
proof -
  have ret: "steps_to (key_action Return s) s (before_cursor s @ [LF], behind_cursor s)"
    by (rule steps_to_Some [OF break_line_steps [OF assms(1)]]) (simp add: steps_to_def)
  have tab: "steps_to (key_action Tab s) s (before_cursor s @ ''    '', behind_cursor s)"
    using insert_steps [OF assms(1), of "''    ''"] by simp
  from assms(2) show ?thesis
    using ret tab Backspace_steps [OF assms(1)] Delete_steps [OF assms(1)] Left_steps [OF assms(1)] Right_steps [OF assms(1)]
    by (auto simp: editing_key_def around_def simp del: key_action.simps)
qed

text \<open>The other keys move the cursor only.\<close>

lemma moving_steps:
  assumes "cursor_inv s" "\<not> editing_key k"
  shows "\<exists>s'. key_action k s = Some s' \<and> cursor_inv s' \<and> te_lines s' = te_lines s"
  using assms
  by (cases k) (auto simp: editing_key_def cursor_inv_def line_at_def goto_row_def)

lemma key_steps:
  assumes "cursor_inv s"
  shows "\<exists>s'. key_action k s = Some s' \<and> cursor_inv s' \<and> (editor_inv s \<longrightarrow> editor_inv s')"
proof (cases "editing_key k")
  case True
  then show ?thesis using editing_steps [OF assms True] by (auto simp: steps_to_def)
next
  case False
  then show ?thesis using moving_steps [OF assms False] by (auto simp: editor_inv_def)
qed


section \<open>Selecting with the mouse\<close>

lemma clamp_bounds: "0 \<le> hi \<Longrightarrow> 0 \<le> clamp hi x \<and> clamp hi x \<le> hi"
  by (simp add: clamp_def)

lemma selected_lines_Some:
  "\<forall>r \<in> set rs. nat r < length ls \<Longrightarrow> selected_lines ls r1 c1 r2 c2 rs \<noteq> None"
  by (induction rs) (auto simp: line_at_def Let_def)

lemma selection_Some:
  assumes "ls \<noteq> []"
  shows "\<exists>t. selected_lines ls r1 c1 r2 c2 [clamp (int (length ls) - 1) a..clamp (int (length ls) - 1) b] = Some t"
proof -
  from assms have hi: "0 \<le> int (length ls) - 1" by (cases ls) auto
  have "selected_lines ls r1 c1 r2 c2 [clamp (int (length ls) - 1) a..clamp (int (length ls) - 1) b] \<noteq> None"
    using clamp_bounds [OF hi, of a] clamp_bounds [OF hi, of b] by (intro selected_lines_Some) auto
  then show ?thesis by simp
qed

lemma GetSelectedText_Some: "\<exists>t. GetSelectedText s = Some t"
proof (cases "te_hasSelection s \<and> te_lines s \<noteq> []")
  case True
  with selection_Some show ?thesis by (auto simp: GetSelectedText_def Let_def split: prod.split)
qed (auto simp: GetSelectedText_def)

lemma target_bounds:
  assumes "cursor_inv s"
  shows "target_row s y < length (te_lines s)" "target_col s line x \<le> length line"
proof -
  have hi: "0 \<le> int (length (te_lines s)) - 1" using assms by (auto simp: cursor_inv_def)
  show "target_row s y < length (te_lines s)"
    using clamp_bounds [OF hi, of "int (te_scroll s) + max 0 (y - y_min (te_box s) - 1)"] hi
    by (simp add: target_row_def nat_less_iff)
  show "target_col s line x \<le> length line"
    using clamp_bounds [of "int (length line)" "max 0 (x - x_min (te_box s) - 6)"]
    by (simp add: target_col_def nat_le_iff)
qed

lemma copied_fields [simp]:
  "te_lines (clipboard_copy t s) = te_lines s" "te_row (clipboard_copy t s) = te_row s" "te_col (clipboard_copy t s) = te_col s"
  "te_lines (snd (CopyToClipboard b s)) = te_lines s" "te_row (snd (CopyToClipboard b s)) = te_row s"
  "te_col (snd (CopyToClipboard b s)) = te_col s"
  by (simp_all add: clipboard_copy_def CopyToClipboard_def Let_def)

lemma mouse_actions:
  "\<exists>s'. mouse_release row col s = Some s' \<and> te_lines s' = te_lines s \<and> te_row s' = te_row s \<and> te_col s' = te_col s"
  "\<exists>s'. mouse_copy b row col s = Some s' \<and> te_lines s' = te_lines s \<and> te_row s' = te_row s \<and> te_col s' = te_col s"
  using GetSelectedText_Some [of "s\<lparr>te_selecting := False, te_selEnd := (int row, int col)\<rparr>"] GetSelectedText_Some [of s]
  by (auto simp: mouse_release_def mouse_copy_def Let_def)

lemma on_mouse_safe:
  assumes "cursor_inv s"
  shows "\<exists>b s'. on_mouse copies x y button motion s = Some (b, s') \<and> cursor_inv s' \<and> te_lines s' = te_lines s"
proof (cases "contains_point (te_box s) x y")
  case True
  note t = target_bounds [OF assms]
  have l: "line_at (te_lines s) (target_row s y) = Some (te_lines s ! target_row s y)"
    using t(1) by (simp add: line_at_def)
  show ?thesis
    using assms t mouse_actions(1) [of "target_row s y" "target_col s (te_lines s ! target_row s y) x" s]
      mouse_actions(2) [of copies "target_row s y" "target_col s (te_lines s ! target_row s y) x" s]
    by (auto simp: on_mouse_def l True Let_def cursor_inv_def)
next
  case False
  then show ?thesis using assms by (auto simp: on_mouse_def cursor_inv_def)
qed

section \<open>Events\<close>

lemma OnEvent_safe:
  assumes "cursor_inv s"
  shows "\<exists>b s'. OnEvent focused copies e s = Some (b, s') \<and> cursor_inv s' \<and> (editor_inv s \<longrightarrow> editor_inv s')"
proof (cases e)
  case (MouseEvent x y button motion)
  then show ?thesis using on_mouse_safe [OF assms, of copies x y button motion] by (auto simp: editor_inv_def)
next
  case (KeyEvent k)
  then show ?thesis using key_steps [OF assms, of k] assms by auto
next
  case (CharacterEvent t)
  then show ?thesis using insertString_steps [OF assms, of t] assms by (auto simp: steps_to_def)
qed (use assms in auto)

text \<open>The operations a caller has: events, drawing, replacing or clearing the text, copying.\<close>

datatype editor_op = EdEvent bool bool editor_event | EdRender box | EdSetText string | EdClear | EdCopy bool

fun editor_step :: "editor_op \<Rightarrow> text_editor \<Rightarrow> text_editor option" where
  "editor_step (EdEvent focused copies e) s = map_option snd (OnEvent focused copies e s)"
| "editor_step (EdRender b) s = Some (Render b s)"
| "editor_step (EdSetText t) s = Some (SetText t s)"
| "editor_step EdClear s = Some (Clear s)"
| "editor_step (EdCopy b) s = Some (snd (CopyToClipboard b s))"

fun editor_run :: "editor_op list \<Rightarrow> text_editor \<Rightarrow> text_editor option" where
  "editor_run [] s = Some s"
| "editor_run (p # ps) s = do { s' \<leftarrow> editor_step p s; editor_run ps s' }"

lemma split_lines_text:
  "s \<noteq> [] \<Longrightarrow> \<exists>l ls. split_lines s = l # ls \<and> l @ started ls = s \<and> LF \<notin> set l \<and> (\<forall>k \<in> set ls. LF \<notin> set k)"
proof (induction s rule: split_lines.induct)
  case (1 s)
  show ?case
  proof (cases "str_find s [LF]")
    case None
    moreover from this have "LF \<notin> set s" by (simp add: str_find_char_None)
    ultimately show ?thesis using "1.prems" by (simp add: split_lines.simps [of s] None del: str_find_char_None)
  next
    case (Some e)
    from Some have e: "e < length s" "s ! e = LF" "LF \<notin> set (take e s)" by (simp_all add: str_find_char_Some)
    have s: "s = take e s @ LF # drop (Suc e) s" using e id_take_nth_drop by metis
    show ?thesis
    proof (cases "drop (Suc e) s = []")
      case True
      then show ?thesis using "1.prems" Some e s by (auto simp: split_lines.simps [of s] Let_def substr_def)
    next
      case False
      from "1.IH" [OF "1.prems" Some refl] False obtain l ls
        where "split_lines (drop (Suc e) s) = l # ls" "l @ started ls = drop (Suc e) s" "LF \<notin> set l"
          "\<forall>k \<in> set ls. LF \<notin> set k" by auto
      then show ?thesis using "1.prems" Some e s False by (simp add: split_lines.simps [of s] Let_def substr_def)
    qed
  qed
qed

lemma started_set: "c \<in> set l \<Longrightarrow> l \<in> set ls \<Longrightarrow> c \<in> set (started ls)"
  by (induction ls) auto

lemma SetText_lines:
  "\<exists>l ls. te_lines (SetText t s) = l # ls \<and> l @ started ls = filter (\<lambda>c. c \<noteq> CR) t
     \<and> clean_line l \<and> (\<forall>k \<in> set ls. clean_line k)"
proof (cases "filter (\<lambda>c. c \<noteq> CR) t = []")
  case True
  then show ?thesis by (simp add: SetText_def split_lines.simps)
next
  case False
  from split_lines_text [OF this] obtain l ls
    where ls: "split_lines (filter (\<lambda>c. c \<noteq> CR) t) = l # ls" "l @ started ls = filter (\<lambda>c. c \<noteq> CR) t"
      "LF \<notin> set l" "\<forall>k \<in> set ls. LF \<notin> set k" by blast
  have "CR \<notin> set (l @ started ls)" unfolding ls(2) by simp
  then have "CR \<notin> set l" "\<forall>k \<in> set ls. CR \<notin> set k" using started_set by auto
  with ls show ?thesis by (simp add: SetText_def Let_def clean_line_def)
qed

lemma editor_inv_SetText: "editor_inv (SetText t s)"
proof -
  obtain l ls where "te_lines (SetText t s) = l # ls" "clean_line l" "\<forall>k \<in> set ls. clean_line k"
    using SetText_lines [of t s] by blast
  moreover have "te_row (SetText t s) = 0" "te_col (SetText t s) = 0" by (simp_all add: SetText_def Let_def)
  ultimately show ?thesis by (simp add: editor_inv_def cursor_inv_def)
qed

lemma editor_step_inv: "editor_inv s \<Longrightarrow> \<exists>s'. editor_step p s = Some s' \<and> editor_inv s'"
proof (cases p)
  case (EdEvent f c e)
  then show "editor_inv s \<Longrightarrow> ?thesis" using OnEvent_safe [of s f c e] by (auto simp: editor_inv_def)
next
  case (EdRender b)
  have "editor_inv (t\<lparr>te_box := b\<rparr>) = editor_inv t" for t by (simp add: editor_inv_def cursor_inv_def)
  then show "editor_inv s \<Longrightarrow> ?thesis" by (simp add: EdRender Render_def Let_def)
next
  case EdClear
  then show ?thesis by (simp add: Clear_def editor_inv_def cursor_inv_def)
next
  case (EdCopy b)
  then show "editor_inv s \<Longrightarrow> ?thesis" by (simp add: editor_inv_def cursor_inv_def)
qed (simp add: editor_inv_SetText)

lemma editor_run_inv: "editor_inv s \<Longrightarrow> \<exists>s'. editor_run ps s = Some s' \<and> editor_inv s'"
proof (induction ps arbitrary: s)
  case (Cons p ps)
  from editor_step_inv [OF Cons.prems, of p] Cons.IH show ?case by auto
qed simp

lemma editor_inv_init: "editor_inv (TextEditor title)"
  by (simp add: TextEditor_def editor_inv_def cursor_inv_def)

section \<open>The text\<close>

lemma join_crlf_started: "join_crlf (l # ls) = l @ concat (map (\<lambda>k. crlf @ k) ls)"
  by (induction ls arbitrary: l) simp_all

lemma normalize_clean: "clean_line l \<Longrightarrow> normalize_crlf (l @ s) = l @ normalize_crlf s"
  by (induction l) auto

lemma normalize_started:
  "\<forall>k \<in> set ls. clean_line k \<Longrightarrow> normalize_crlf (started ls) = concat (map (\<lambda>k. crlf @ k) ls)"
  by (induction ls) (simp_all add: normalize_clean)

lemma normalize_filter: "normalize_crlf (filter (\<lambda>c. c \<noteq> CR) t) = normalize_crlf t"
  by (induction t) auto

lemma join_normalize:
  "clean_line l \<Longrightarrow> \<forall>k \<in> set ls. clean_line k \<Longrightarrow> join_crlf (l # ls) = normalize_crlf (l @ started ls)"
  by (simp only: join_crlf_started normalize_clean normalize_started)

lemma GetText_SetText: "GetText (SetText t s) = normalize_crlf t"
proof -
  obtain l ls where ls: "te_lines (SetText t s) = l # ls" "l @ started ls = filter (\<lambda>c. c \<noteq> CR) t"
    "clean_line l" "\<forall>k \<in> set ls. clean_line k" using SetText_lines by blast
  show ?thesis unfolding GetText_def ls(1) join_normalize [OF ls(3,4)] ls(2) by (rule normalize_filter)
qed

lemma ended_started:
  "ended pre @ l @ started post = (case pre @ l # post of x # xs \<Rightarrow> x @ started xs)"
proof (induction pre)
  case (Cons p pre)
  then show ?case by (cases pre) auto
qed simp

lemma GetText_around:
  assumes "editor_inv s"
  shows "GetText s = normalize_crlf (before_cursor s @ behind_cursor s)"
proof -
  from assms obtain pre a b post where cur: "at_cursor s pre a b post"
    by (auto simp: editor_inv_def elim: at_cursorE)
  obtain x xs where xs: "te_lines s = x # xs" using cur by (cases "te_lines s") (auto simp: at_cursor_def)
  have "before_cursor s @ behind_cursor s = ended pre @ (a @ b) @ started post" using cursor_text [OF cur] by simp
  also have "pre @ (a @ b) # post = x # xs" using cur xs by (simp add: at_cursor_def)
  then have "ended pre @ (a @ b) @ started post = x @ started xs" unfolding ended_started by simp
  finally have "before_cursor s @ behind_cursor s = x @ started xs" .
  moreover have "clean_line x" "\<forall>k \<in> set xs. clean_line k" using assms xs by (simp_all add: editor_inv_def)
  ultimately show ?thesis by (simp add: GetText_def xs join_normalize)
qed

section \<open>Properties\<close>

text \<open>
  C18: No sequence of events, drawings, replacements of the text and copies makes the editor access a line
  or a position that does not exist (C++ would have undefined behaviour or throw): every run of a new
  editor has a result, in which the cursor is at a position of a line and no line has a line end in it.
\<close>
theorem editor_never_out_of_range:
  "\<exists>s. editor_run ps (TextEditor title) = Some s \<and> editor_inv s"
  using editor_run_inv [OF editor_inv_init] .

text \<open>
  The text is what is around the cursor. Setting a text and reading it back normalises its line ends
  as \<open>ParseRawHttpRequest\<close> does; and in every reachable state the text read is the normalised
  concatenation of what is before and what is behind the cursor.
\<close>
theorem editor_text_normalised:
  "GetText (SetText t e) = normalize_crlf t
   \<and> (case editor_run ps (TextEditor title) of
        None \<Rightarrow> False | Some s \<Rightarrow> GetText s = normalize_crlf (before_cursor s @ behind_cursor s))"
proof -
  obtain s where "editor_run ps (TextEditor title) = Some s" "editor_inv s"
    using editor_run_inv [OF editor_inv_init] by blast
  then show ?thesis by (simp add: GetText_SetText GetText_around)
qed

text \<open>
  C17: In every reachable state of a focused editor, each editing key changes the text around the cursor
  as an editor of one string would (Return inserts a line feed, Backspace and Delete remove one
  character or line end, the horizontal arrows move over one), the other keys leave all lines as they
  are, and typed or pasted text is inserted before the cursor without its carriage returns.
\<close>
theorem editor_edits_as_text:
  "case editor_run ps (TextEditor title) of
     None \<Rightarrow> False
   | Some s \<Rightarrow>
       (case OnEvent True copies (KeyEvent k) s of
          None \<Rightarrow> False
        | Some (handled, s') \<Rightarrow> handled
            \<and> (if editing_key k then around s' = edit k (around s) else te_lines s' = te_lines s))
     \<and> (case OnEvent True copies (CharacterEvent t) s of
          None \<Rightarrow> False
        | Some (handled, s') \<Rightarrow> handled
            \<and> around s' = (before_cursor s @ filter (\<lambda>c. c \<noteq> CR) t, behind_cursor s))"
proof -
  obtain s where run: "editor_run ps (TextEditor title) = Some s" and inv: "cursor_inv s"
    using editor_run_inv [OF editor_inv_init] unfolding editor_inv_def by blast
  have "\<exists>s'. key_action k s = Some s' \<and> (if editing_key k then around s' = edit k (around s) else te_lines s' = te_lines s)"
    using editing_steps [OF inv, of k] moving_steps [OF inv, of k] by (auto simp: steps_to_def)
  moreover have "\<exists>s'. insertString t s = Some s' \<and> around s' = (before_cursor s @ filter (\<lambda>c. c \<noteq> CR) t, behind_cursor s)"
    using insertString_steps [OF inv, of t] by (auto simp: steps_to_def)
  ultimately show ?thesis by (auto simp: run)
qed

text \<open>
  Releasing the left button inside the editor never ends a selection: the branch for dragging, which
  comes first, takes the event, so that nothing is copied and the selection goes on.
\<close>
lemma release_taken_as_drag:
  assumes "cursor_inv s" "te_selecting s" "contains_point (te_box s) x y"
  shows "\<exists>s'. on_mouse copies x y MouseLeft Released s = Some (True, s') \<and> te_selecting s' \<and> te_copied s' = te_copied s"
proof -
  have "line_at (te_lines s) (target_row s y) = Some (te_lines s ! target_row s y)"
    using target_bounds(1) [OF assms(1), of y] by (simp add: line_at_def)
  with assms show ?thesis by (simp add: on_mouse_def Let_def)
qed


end
