(* ===== verification/HttpFormatter.thy ===== *)
theory HttpFormatter
  imports HttpMessage
begin

text \<open>
  The formatting of messages for display, \<open>src/src/tui/HttpFormatter.cpp\<close>. An element of the
  interface library is the list of the texts it shows side by side, a separator, or a column of elements; colours and layout are not
  modelled. Raw formatting, which fills the editor and the clipboard, is in the last section.
\<close>

datatype element = Line "string list" | Separator | Vbox "element list"

section \<open>Cleaning text\<close>

fun sanitize :: "nat \<Rightarrow> string \<Rightarrow> string" where
  "sanitize room [] = []"
| "sanitize room (c # cs) =
     (if room = 0 then []
      else if c = CR then sanitize room cs
      else if c = LF \<or> c = TAB \<or> (32 \<le> byte_of c \<and> byte_of c < 127) then c # sanitize (room - 1) cs
      else if 128 \<le> byte_of c then c # sanitize (room - 1) cs
      else CHR ''.'' # sanitize (room - 1) cs)"

definition SanitizeText :: "string \<Rightarrow> nat \<Rightarrow> string" where
  "SanitizeText input maxLen = sanitize maxLen input"

section \<open>Binary data\<close>

definition binary_types :: "string list" where
  "binary_types = [''image/'', ''audio/'', ''video/'', ''font/'', ''application/octet-stream'',
     ''application/zip'', ''application/gzip'', ''application/pdf'']"

definition IsBinaryData :: "string \<Rightarrow> string \<Rightarrow> bool" where
  "IsBinaryData data contentType \<longleftrightarrow>
     (if \<exists>t \<in> set binary_types. str_contains contentType t then True
      else let sample = take 512 data
           in if sample = [] then False
              else if \<exists>c \<in> set sample. byte_of c = 0 then True
              else length (filter (\<lambda>c. byte_of c < 9 \<or> (13 < byte_of c \<and> byte_of c < 32)) sample) * 100
                     div length sample > 8)"

definition hex_char :: "nat \<Rightarrow> char" where
  "hex_char d = (if d < 10 then to_byte (48 + d) else to_byte (87 + d))"

fun hex_digits :: "nat \<Rightarrow> string" where
  "hex_digits n = (if n < 16 then [hex_char n] else hex_digits (n div 16) @ [hex_char (n mod 16)])"

declare hex_digits.simps [simp del]

text \<open>\<open>%0wx\<close>: at least \<open>w\<close> lower case digits.\<close>

definition hex_padded :: "nat \<Rightarrow> nat \<Rightarrow> string" where
  "hex_padded w n = replicate (w - length (hex_digits n)) (CHR ''0'') @ hex_digits n"

definition hex_cell :: "string \<Rightarrow> nat \<Rightarrow> nat \<Rightarrow> nat \<Rightarrow> string" where
  "hex_cell data limit i j =
     (if i + j < limit then hex_padded 2 (byte_of (data ! (i + j))) @ '' '' else ''   '')
     @ (if j = 7 then '' '' else [])"

definition printable :: "char \<Rightarrow> char" where
  "printable c = (if 32 \<le> byte_of c \<and> byte_of c < 127 then c else CHR ''.'')"

definition hex_row :: "string \<Rightarrow> nat \<Rightarrow> nat \<Rightarrow> string" where
  "hex_row data limit i =
     hex_padded 8 i @ '': '' @ concat (map (hex_cell data limit i) [0..<16]) @ '' |''
     @ map printable (take 16 (drop i (take limit data))) @ ''|'' @ [LF]"

function hex_rows :: "string \<Rightarrow> nat \<Rightarrow> nat \<Rightarrow> string" where
  "hex_rows data limit i = (if i < limit then hex_row data limit i @ hex_rows data limit (i + 16) else [])"
  by pat_completeness auto

termination
  by (relation "measure (\<lambda>(data, limit, i). limit - i)") auto

declare hex_rows.simps [simp del]

definition FormatHexDump :: "string \<Rightarrow> nat \<Rightarrow> string" where
  "FormatHexDump data maxBytes =
     (let limit = min (length data) maxBytes
      in hex_rows data limit 0
         @ (if length data > limit
            then ''[ ... '' @ nat_to_string (length data - limit) @ '' additional binary bytes omitted ... ]'' @ [LF]
            else []))"

section \<open>Bodies\<close>

text \<open>
  The loop over the lines of a text body: at most \<open>k\<close> of them, and whether the stream is still good,
  after the read that made the loop stop.
\<close>

function body_lines :: "nat \<Rightarrow> string \<Rightarrow> string list \<times> bool" where
  "body_lines k s =
     (if s = [] then ([], False)
      else let line = takeWhile (\<lambda>c. c \<noteq> LF) s; rest = dropWhile (\<lambda>c. c \<noteq> LF) s
           in if k = 0 then ([], rest \<noteq> [])
              else case rest of
                     [] \<Rightarrow> ([SanitizeText (strip_cr line) 512], False)
                   | _ # r \<Rightarrow>
                       (case body_lines (k - 1) r of (ls, good) \<Rightarrow> (SanitizeText (strip_cr line) 512 # ls, good)))"
  by pat_completeness auto

termination
  by (relation "measure fst") auto

declare body_lines.simps [simp del]

definition FormatBodyLines :: "string \<Rightarrow> string \<Rightarrow> element list" where
  "FormatBodyLines body contentType =
     (if body = [] then [Line [''(Empty body)'']]
      else if IsBinaryData body contentType
      then Line [''[ Binary Payload: '' @ nat_to_string (length body) @ '' bytes | Content-Type: ''
              @ (if contentType = [] then ''unknown'' else contentType) @ '' ]'']
           # Line [[]] # map (\<lambda>l. Line [l]) (getlines (FormatHexDump body 1024))
      else case body_lines 1000 body of
             (ls, good) \<Rightarrow> map (\<lambda>l. Line [l]) ls
               @ (if good then [Line [''[ ... Remaining lines truncated for TUI display ... ]'']] else []))"

definition FormatBodyElement :: "string \<Rightarrow> string \<Rightarrow> element" where
  "FormatBodyElement body contentType = Vbox (FormatBodyLines body contentType)"

section \<open>Messages, line by line\<close>

definition FormatHttpRequestLines :: "http_request \<Rightarrow> bool \<Rightarrow> string \<Rightarrow> element list" where
  "FormatHttpRequestLines req isHttps host =
     [Line [rq_method req @ '' '', SanitizeText (rq_url req) 256 @ '' '', rq_version req], Separator,
      Line [''Host: '', host @ (if isHttps then '' (HTTPS)'' else '' (HTTP)'')]]
     @ map (\<lambda>h. Line [SanitizeText (fst h) 64 @ '': '', SanitizeText (snd h) 256])
         (filter (\<lambda>h. fst h \<noteq> ''Host'') (rq_headers req))
     @ (if rq_body req \<noteq> []
        then [Separator, Line [''--- Request Body ('' @ nat_to_string (length (rq_body req)) @ '' bytes) ---'']]
             @ FormatBodyLines (rq_body req) (request_header req ''Content-Type'')
        else [])"

definition FormatHttpResponseLines :: "http_response \<Rightarrow> element list" where
  "FormatHttpResponseLines res =
     [Line [rs_version res @ '' '', int_to_string (rs_statusCode res) @ '' '' @ SanitizeText (rs_statusText res) 64], Separator]
     @ map (\<lambda>h. Line [SanitizeText (fst h) 64 @ '': '', SanitizeText (snd h) 256]) (rs_headers res)
     @ (if rs_body res \<noteq> []
        then [Separator, Line [''--- Response Body ('' @ nat_to_string (length (rs_body res)) @ '' bytes) ---'']]
             @ FormatBodyLines (rs_body res) (response_header res ''Content-Type'')
        else [])"

definition FormatHttpRequest :: "http_request \<Rightarrow> bool \<Rightarrow> string \<Rightarrow> element" where
  "FormatHttpRequest req isHttps host = Vbox (FormatHttpRequestLines req isHttps host)"

definition FormatHttpResponse :: "http_response \<Rightarrow> element" where
  "FormatHttpResponse res = Vbox (FormatHttpResponseLines res)"

section \<open>Raw text\<close>

definition is_host_name :: "string \<Rightarrow> bool" where
  "is_host_name k \<longleftrightarrow> length k = 4
     \<and> k ! 0 \<in> {CHR ''H'', CHR ''h''} \<and> k ! 1 \<in> {CHR ''o'', CHR ''O''}
     \<and> k ! 2 \<in> {CHR ''s'', CHR ''S''} \<and> k ! 3 \<in> {CHR ''t'', CHR ''T''}"

definition host_value :: "http_request \<Rightarrow> string \<Rightarrow> string" where
  "host_value req host =
     (let h = (if host = [] then request_header req ''Host'' else host);
          h = (if starts_with h ''https://'' then drop 8 h else if starts_with h ''http://'' then drop 7 h else h);
          h = (if ends_with h ''/'' then butlast h else h)
      in case str_find h '' (HTTP'' of None \<Rightarrow> h | Some pos \<Rightarrow> substr h 0 pos)"

definition FormatHttpRequestRaw :: "http_request \<Rightarrow> bool \<Rightarrow> string \<Rightarrow> string" where
  "FormatHttpRequestRaw req isHttps host =
     (if rq_rawOverride req \<noteq> [] then erase_scheme_notes (rq_rawOverride req)
      else rq_method req @ '' '' @ rq_url req @ '' '' @ rq_version req @ crlf
        @ (if host_value req host \<noteq> [] then ''Host: '' @ host_value req host @ crlf else [])
        @ header_lines (filter (\<lambda>h. \<not> is_host_name (fst h)) (rq_headers req))
        @ crlf @ rq_body req)"

definition FormatHttpResponseRaw :: "http_response \<Rightarrow> string" where
  "FormatHttpResponseRaw res =
     rs_version res @ '' '' @ int_to_string (rs_statusCode res) @ '' '' @ rs_statusText res @ crlf
     @ header_lines (rs_headers res) @ crlf @ rs_body res"

section \<open>Lemmas\<close>

definition safe_char :: "char \<Rightarrow> bool" where
  "safe_char c \<longleftrightarrow> c = LF \<or> c = TAB \<or> (32 \<le> byte_of c \<and> byte_of c \<noteq> 127)"

lemma sanitize_length: "length (sanitize n s) \<le> n"
  by (induction n s rule: sanitize.induct) auto

lemma sanitize_safe: "\<forall>c \<in> set (sanitize n s). safe_char c"
  by (induction n s rule: sanitize.induct) (auto simp: safe_char_def byte_of_def)

lemma sanitize_map:
  "sanitize n s = take n (map (\<lambda>c. if safe_char c then c else CHR ''.'') (filter (\<lambda>c. c \<noteq> CR) s))"
proof (induction n s rule: sanitize.induct)
  case (2 n c cs)
  have "safe_char c \<longleftrightarrow> c = LF \<or> c = TAB \<or> 32 \<le> byte_of c \<and> byte_of c < 127 \<or> 128 \<le> byte_of c"
    by (auto simp: safe_char_def)
  with 2 show ?case by (cases n) auto
qed simp

text \<open>
  The Host line shows the connection's host name; without an override and without a scheme, slash or
  note in that name, the raw text is the request's serialisation with its Host headers replaced.
\<close>

definition plain_host :: "string \<Rightarrow> bool" where
  "plain_host h \<longleftrightarrow> h \<noteq> [] \<and> \<not> starts_with h ''https://'' \<and> \<not> starts_with h ''http://''
     \<and> \<not> ends_with h ''/'' \<and> \<not> sublist '' (HTTP'' h"

lemma host_value_plain:
  assumes "plain_host h"
  shows "host_value req h = h"
proof -
  have none: "str_find h '' (HTTP'' = None" using assms by (simp add: plain_host_def str_find_None_iff)
  show ?thesis using assms by (simp add: plain_host_def host_value_def Let_def none)
qed

lemma raw_plain:
  assumes "rq_rawOverride req = []" "plain_host h"
  shows "FormatHttpRequestRaw req isHttps h
    = serialize_request (req\<lparr>rq_headers := (''Host'', h) # filter (\<lambda>k. \<not> is_host_name (fst k)) (rq_headers req)\<rparr>)"
  using assms host_value_plain [OF assms(2)]
  by (simp add: FormatHttpRequestRaw_def serialize_request_def plain_host_def)

section \<open>Properties\<close>

text \<open>
  C40: What is put on the screen cannot drive the terminal: cleaned text has at most the length asked for,
  consists of line feeds, tabs, printable ASCII and bytes above 127 (no escape, no delete, no other
  control character), and is the text itself, up to carriage returns and length, when that is clean.
\<close>
theorem sanitized_text_is_safe:
  "length (SanitizeText s n) \<le> n \<and> list_all safe_char (SanitizeText s n)
   \<and> SanitizeText s n = take n (map (\<lambda>c. if safe_char c then c else CHR ''.'') (filter (\<lambda>c. c \<noteq> CR) s))"
  unfolding SanitizeText_def list_all_iff by (intro conjI sanitize_length sanitize_safe sanitize_map)

end
