(* ===== verification/ScrollableViewer.thy ===== *)
theory ScrollableViewer
  imports HttpFormatter TextEditor
begin

text \<open>
  The read-only viewer of \<open>src/src/tui/ScrollableViewer.cpp\<close>: its formatted lines, the raw text behind
  them, scrolling, mouse selection and every event handler, and the rows that drawing shows. As in the
  editor, an access that C++ leaves undefined or answers with an exception is \<open>None\<close>; row, column and
  scroll position are integers, as the code's \<open>int\<close>s (a viewer has fewer than \<open>2^31\<close> lines). What the
  interface library answers (focus, success of copying, the box of the last frame) is a parameter.
\<close>

section \<open>State\<close>

record viewer =
  vw_title :: string
  vw_rawText :: string
  vw_lines :: "element list"
  vw_rawLines :: "string list"
  vw_scroll :: int
  vw_max_scroll :: int
  vw_box :: box
  vw_status :: string
  vw_selecting :: bool
  vw_hasSelection :: bool
  vw_selStart :: "int \<times> int"
  vw_selEnd :: "int \<times> int"
  vw_copied :: "string list"

definition ScrollableViewer :: "string \<Rightarrow> viewer" where
  "ScrollableViewer title = \<lparr>vw_title = title, vw_rawText = [], vw_lines = [], vw_rawLines = [],
     vw_scroll = 0, vw_max_scroll = 0, vw_box = \<lparr>x_min = 0, x_max = 0, y_min = 0, y_max = 0\<rparr>,
     vw_status = [], vw_selecting = False, vw_hasSelection = False, vw_selStart = (-1, -1),
     vw_selEnd = (-1, -1), vw_copied = []\<rparr>"

section \<open>Contents\<close>

definition updateRawLines :: "viewer \<Rightarrow> viewer" where
  "updateRawLines s =
     (let ls = getlines (filter (\<lambda>c. c \<noteq> CR) (vw_rawText s))
      in s\<lparr>vw_rawLines := (if ls = [] then [[]] else ls)\<rparr>)"

definition SetContent :: "element list \<Rightarrow> string \<Rightarrow> viewer \<Rightarrow> viewer" where
  "SetContent ls rawText s =
     (updateRawLines (s\<lparr>vw_lines := ls, vw_rawText := rawText\<rparr>))
       \<lparr>vw_scroll := 0, vw_status := [], vw_hasSelection := False, vw_selecting := False\<rparr>"

definition SetRawText :: "string \<Rightarrow> string \<Rightarrow> viewer \<Rightarrow> viewer" where
  "SetRawText rawText contentType s =
     (updateRawLines (s\<lparr>vw_rawText := rawText, vw_lines := FormatBodyLines rawText contentType\<rparr>))
       \<lparr>vw_scroll := 0, vw_status := [], vw_hasSelection := False, vw_selecting := False\<rparr>"

section \<open>Scrolling and copying\<close>

definition ScrollTo :: "int \<Rightarrow> viewer \<Rightarrow> viewer" where
  "ScrollTo y s = s\<lparr>vw_scroll := max 0 (min (vw_max_scroll s) y)\<rparr>"

definition ScrollBy :: "int \<Rightarrow> viewer \<Rightarrow> viewer" where
  "ScrollBy delta s = ScrollTo (vw_scroll s + delta) s"

definition vw_clipboard :: "string \<Rightarrow> string \<Rightarrow> viewer \<Rightarrow> viewer" where
  "vw_clipboard t status s = s\<lparr>vw_copied := vw_copied s @ [t], vw_status := status\<rparr>"

definition vw_CopyToClipboard :: "bool \<Rightarrow> viewer \<Rightarrow> bool \<times> viewer" where
  "vw_CopyToClipboard copies s =
     (if vw_rawText s = [] then (False, s)
      else (copies, vw_clipboard (vw_rawText s)
              (if copies then ''Copied entire text ('' @ nat_to_string (length (vw_rawText s)) @ '' B)''
               else ''Failed to copy'') s))"

text \<open>The ends of the selection in the order of the text.\<close>

definition ordered_ends :: "int \<times> int \<Rightarrow> int \<times> int \<Rightarrow> (int \<times> int) \<times> (int \<times> int)" where
  "ordered_ends a b =
     (if fst a > fst b \<or> (fst a = fst b \<and> snd a > snd b) then (b, a) else (a, b))"

definition vw_GetSelectedText :: "viewer \<Rightarrow> string option" where
  "vw_GetSelectedText s =
     (if \<not> vw_hasSelection s \<or> vw_rawLines s = [] then Some []
      else let e = ordered_ends (vw_selStart s) (vw_selEnd s);
               r1 = clamp (int (length (vw_rawLines s)) - 1) (fst (fst e));
               r2 = clamp (int (length (vw_rawLines s)) - 1) (fst (snd e))
           in selected_lines (vw_rawLines s) r1 (snd (fst e)) r2 (snd (snd e)) [r1..r2])"

definition vw_GetWordAt :: "int \<Rightarrow> int \<Rightarrow> viewer \<Rightarrow> string" where
  "vw_GetWordAt row col s =
     (if row < 0 \<or> row \<ge> int (length (vw_rawLines s)) then []
      else let line = vw_rawLines s ! nat row
           in if col < 0 \<or> col \<ge> int (length line) then []
              else if \<not> isWordChar (line ! nat col) then []
              else rev (takeWhile isWordChar (rev (take (nat col) line))) @ takeWhile isWordChar (drop (nat col) line))"

section \<open>Events\<close>

definition vw_release :: "int \<Rightarrow> int \<Rightarrow> viewer \<Rightarrow> viewer option" where
  "vw_release row col s =
     (if vw_selecting s
      then let s1 = s\<lparr>vw_selecting := False, vw_selEnd := (row, col)\<rparr>
           in if fst (vw_selStart s1) = row \<and> \<bar>snd (vw_selStart s1) - col\<bar> \<le> 1
              then Some (s1\<lparr>vw_hasSelection := False\<rparr>)
              else do {
                sel \<leftarrow> vw_GetSelectedText s1;
                Some (if sel \<noteq> [] then vw_clipboard sel (''Copied ('' @ nat_to_string (length sel) @ '' B)'') s1 else s1) }
      else Some s)"

definition vw_copy :: "bool \<Rightarrow> int \<Rightarrow> int \<Rightarrow> viewer \<Rightarrow> viewer option" where
  "vw_copy copies row col s =
     (if vw_hasSelection s
      then do {
        sel \<leftarrow> vw_GetSelectedText s;
        Some (if sel \<noteq> []
              then vw_clipboard sel (''Copied selection ('' @ nat_to_string (length sel) @ '' B)'') s else s) }
      else let word = vw_GetWordAt row col s
           in Some (if word \<noteq> [] then vw_clipboard word (''Copied word: '' @ word) s
                    else snd (vw_CopyToClipboard copies s)))"

definition vw_mouse :: "bool \<Rightarrow> int \<Rightarrow> int \<Rightarrow> mouse_button \<Rightarrow> mouse_motion \<Rightarrow> viewer \<Rightarrow> (bool \<times> viewer) option" where
  "vw_mouse copies x y button motion s =
     (if contains_point (vw_box s) x y
      then let row = vw_scroll s + (y - y_min (vw_box s)); col = max 0 (x - x_min (vw_box s))
           in if button = WheelUp then Some (True, ScrollBy (-3) s)
              else if button = WheelDown then Some (True, ScrollBy 3 s)
              else if button = MouseLeft \<and> motion = Pressed
              then Some (True, s\<lparr>vw_selStart := (row, col), vw_selEnd := (row, col),
                                 vw_selecting := True, vw_hasSelection := True\<rparr>)
              else if vw_selecting s \<and> button = MouseLeft then Some (True, s\<lparr>vw_selEnd := (row, col)\<rparr>)
              else if button = MouseLeft \<and> motion = Released
              then do { s' \<leftarrow> vw_release row col s; Some (True, s') }
              else if button = MouseRight \<and> motion = Pressed
              then do { s' \<leftarrow> vw_copy copies row col s; Some (True, s') }
              else Some (False, s)
      else if vw_selecting s \<and> motion = Released then Some (True, s\<lparr>vw_selecting := False\<rparr>)
      else Some (False, s))"

text \<open>The keys, as the distance or position they scroll to.\<close>

definition vw_copy_key :: "bool \<Rightarrow> viewer \<Rightarrow> viewer option" where
  "vw_copy_key copies s =
     (if vw_hasSelection s
      then do {
        sel \<leftarrow> vw_GetSelectedText s;
        Some (vw_clipboard sel (''Copied selection ('' @ nat_to_string (length sel) @ '' B)'') s) }
      else Some (snd (vw_CopyToClipboard copies s)))"

fun vw_key :: "bool \<Rightarrow> editor_event \<Rightarrow> viewer \<Rightarrow> (bool \<times> viewer) option" where
  "vw_key copies (KeyEvent k) s =
     (case k of
        ArrowUp \<Rightarrow> Some (True, ScrollBy (-1) s)
      | ArrowDown \<Rightarrow> Some (True, ScrollBy 1 s)
      | PageUp \<Rightarrow> Some (True, ScrollBy (-12) s)
      | PageDown \<Rightarrow> Some (True, ScrollBy 12 s)
      | Home \<Rightarrow> Some (True, ScrollTo 0 s)
      | End \<Rightarrow> Some (True, ScrollTo (vw_max_scroll s) s)
      | _ \<Rightarrow> Some (False, s))"
| "vw_key copies (CharacterEvent t) s =
     (if t = ''k'' then Some (True, ScrollBy (-1) s)
      else if t = ''j'' then Some (True, ScrollBy 1 s)
      else if t = ''y'' \<or> t = ''c'' \<or> t = ''C'' then do { s' \<leftarrow> vw_copy_key copies s; Some (True, s') }
      else Some (False, s))"
| "vw_key copies _ s = Some (False, s)"

definition vw_OnEvent :: "bool \<Rightarrow> bool \<Rightarrow> editor_event \<Rightarrow> viewer \<Rightarrow> (bool \<times> viewer) option" where
  "vw_OnEvent focused copies e s =
     (case e of
        MouseEvent x y button motion \<Rightarrow> vw_mouse copies x y button motion s
      | _ \<Rightarrow> if focused then vw_key copies e s else Some (False, s))"

section \<open>Drawing\<close>

definition vw_visible_height :: "viewer \<Rightarrow> int" where
  "vw_visible_height s = max 2 (y_max (vw_box s) - y_min (vw_box s) + 1 - 2)"

text \<open>
  The row \<open>i\<close>: the formatted line, or, inside the selection, the raw line of the same number cut into
  the parts before, in and behind the selection.
\<close>

definition vw_row :: "viewer \<Rightarrow> int \<Rightarrow> element option" where
  "vw_row s i =
     (let e = ordered_ends (vw_selStart s) (vw_selEnd s)
      in if vw_hasSelection s \<and> i \<ge> fst (fst e) \<and> i \<le> fst (snd e) \<and> i < int (length (vw_rawLines s))
         then do {
           raw \<leftarrow> line_at (vw_rawLines s) (nat i);
           let start = (if i = fst (fst e) then clamp (int (length raw)) (snd (fst e)) else 0);
           let end = (if i = fst (snd e) then clamp (int (length raw)) (snd (snd e)) else int (length raw));
           Some (Line [substr raw 0 (nat start),
                       if start < end then substr raw (nat start) (nat (end - start)) else [],
                       if end < int (length raw) then drop (nat end) raw else []]) }
         else if i < int (length (vw_lines s)) then Some (vw_lines s ! nat i) else None)"

fun vw_rows :: "viewer \<Rightarrow> int list \<Rightarrow> element list option" where
  "vw_rows s [] = Some []"
| "vw_rows s (i # is) = do { r \<leftarrow> vw_row s i; rs \<leftarrow> vw_rows s is; Some (r # rs) }"

definition vw_pos_info :: "viewer \<Rightarrow> string" where
  "vw_pos_info s =
     (if vw_status s \<noteq> [] then vw_status s @ ''  '' else [])
     @ ''['' @ int_to_string (vw_scroll s + 1) @ ''/''
     @ int_to_string (max 1 (int (length (vw_lines s)))) @ '']''"

definition vw_Render :: "box \<Rightarrow> viewer \<Rightarrow> (viewer \<times> element list \<times> string) option" where
  "vw_Render b s =
     (let h = vw_visible_height s; total = int (length (vw_lines s)); maxs = max 0 (total - h);
          s1 = s\<lparr>vw_max_scroll := maxs, vw_scroll := max 0 (min maxs (vw_scroll s))\<rparr>
      in do {
        rows \<leftarrow> vw_rows s1 [vw_scroll s1 .. min total (vw_scroll s1 + h) - 1];
        Some (s1\<lparr>vw_box := b\<rparr>, if rows = [] then [Line [''(No content)'']] else rows, vw_pos_info s1) })"

section \<open>Runs\<close>

datatype viewer_op =
    VwEvent bool bool editor_event | VwRender box | VwContent "element list" string | VwRawText string string
  | VwScrollTo int | VwScrollBy int | VwCopy bool

fun viewer_step :: "viewer_op \<Rightarrow> viewer \<Rightarrow> viewer option" where
  "viewer_step (VwEvent focused copies e) s = map_option snd (vw_OnEvent focused copies e s)"
| "viewer_step (VwRender b) s = map_option fst (vw_Render b s)"
| "viewer_step (VwContent ls t) s = Some (SetContent ls t s)"
| "viewer_step (VwRawText t c) s = Some (SetRawText t c s)"
| "viewer_step (VwScrollTo y) s = Some (ScrollTo y s)"
| "viewer_step (VwScrollBy d) s = Some (ScrollBy d s)"
| "viewer_step (VwCopy copies) s = Some (snd (vw_CopyToClipboard copies s))"

fun viewer_run :: "viewer_op list \<Rightarrow> viewer \<Rightarrow> viewer option" where
  "viewer_run [] s = Some s"
| "viewer_run (p # ps) s = do { s' \<leftarrow> viewer_step p s; viewer_run ps s' }"

section \<open>Well-formedness\<close>

text \<open>
  The scroll position is within the range of the last frame, and the raw lines are the lines of the raw
  text (none at all before the first content is set).
\<close>

definition viewer_wf :: "viewer \<Rightarrow> bool" where
  "viewer_wf s \<longleftrightarrow> 0 \<le> vw_scroll s \<and> vw_scroll s \<le> vw_max_scroll s
     \<and> (vw_rawLines s = [] \<or> vw_rawLines s = vw_rawLines (updateRawLines s))
     \<and> (vw_rawLines s = [] \<longrightarrow> vw_rawText s = [])"

lemma raw_fields [simp]:
  "vw_rawLines (updateRawLines (s\<lparr>vw_scroll := a\<rparr>)) = vw_rawLines (updateRawLines s)"
  "vw_rawLines (updateRawLines (s\<lparr>vw_max_scroll := a\<rparr>)) = vw_rawLines (updateRawLines s)"
  "vw_rawLines (updateRawLines (s\<lparr>vw_box := b\<rparr>)) = vw_rawLines (updateRawLines s)"
  "vw_rawLines (updateRawLines (s\<lparr>vw_status := t\<rparr>)) = vw_rawLines (updateRawLines s)"
  "vw_rawLines (updateRawLines (s\<lparr>vw_copied := c\<rparr>)) = vw_rawLines (updateRawLines s)"
  "vw_rawLines (updateRawLines (s\<lparr>vw_selecting := x\<rparr>)) = vw_rawLines (updateRawLines s)"
  "vw_rawLines (updateRawLines (s\<lparr>vw_hasSelection := x\<rparr>)) = vw_rawLines (updateRawLines s)"
  "vw_rawLines (updateRawLines (s\<lparr>vw_selStart := p\<rparr>)) = vw_rawLines (updateRawLines s)"
  "vw_rawLines (updateRawLines (s\<lparr>vw_selEnd := p\<rparr>)) = vw_rawLines (updateRawLines s)"
  "vw_rawLines (updateRawLines (s\<lparr>vw_rawLines := l\<rparr>)) = vw_rawLines (updateRawLines s)"
  by (simp_all add: updateRawLines_def Let_def)

lemma viewer_wf_frame [simp]:
  "viewer_wf (s\<lparr>vw_box := b\<rparr>) = viewer_wf s" "viewer_wf (s\<lparr>vw_status := t\<rparr>) = viewer_wf s"
  "viewer_wf (s\<lparr>vw_copied := c\<rparr>) = viewer_wf s" "viewer_wf (s\<lparr>vw_selecting := x\<rparr>) = viewer_wf s"
  "viewer_wf (s\<lparr>vw_hasSelection := x\<rparr>) = viewer_wf s" "viewer_wf (s\<lparr>vw_selStart := p\<rparr>) = viewer_wf s"
  "viewer_wf (s\<lparr>vw_selEnd := p\<rparr>) = viewer_wf s"
  by (simp_all add: viewer_wf_def)

lemma viewer_wf_ScrollTo: "viewer_wf s \<Longrightarrow> viewer_wf (ScrollTo y s)"
  by (auto simp: viewer_wf_def ScrollTo_def)

lemma viewer_wf_copy [simp]:
  "viewer_wf (vw_clipboard t m s) = viewer_wf s"
  "viewer_wf (snd (vw_CopyToClipboard copies s)) = viewer_wf s"
  by (simp_all add: vw_clipboard_def vw_CopyToClipboard_def)

lemma updateRawLines_content:
  "vw_rawLines (updateRawLines s) \<noteq> []"
  "vw_rawLines (updateRawLines (updateRawLines s)) = vw_rawLines (updateRawLines s)"
  by (auto simp: updateRawLines_def Let_def)

lemma viewer_wf_content:
  "0 \<le> vw_max_scroll s \<Longrightarrow> viewer_wf (SetContent ls t s) \<and> viewer_wf (SetRawText t c s)"
  by (auto simp: viewer_wf_def SetContent_def SetRawText_def updateRawLines_def Let_def)

section \<open>Events are total\<close>

lemma vw_GetSelectedText_Some: "\<exists>t. vw_GetSelectedText s = Some t"
  using selection_Some [of "vw_rawLines s"] by (simp add: vw_GetSelectedText_def Let_def)

lemma vw_copying_total:
  "\<exists>s'. vw_release row col s = Some s' \<and> viewer_wf s' = viewer_wf s"
  "\<exists>s'. vw_copy copies row col s = Some s' \<and> viewer_wf s' = viewer_wf s"
  "\<exists>s'. vw_copy_key copies s = Some s' \<and> viewer_wf s' = viewer_wf s"
  using vw_GetSelectedText_Some [of s] vw_GetSelectedText_Some [of "s\<lparr>vw_selecting := False, vw_selEnd := (row, col)\<rparr>"]
  by (auto simp: vw_release_def vw_copy_def vw_copy_key_def Let_def)

lemma viewer_wf_ScrollBy: "viewer_wf s \<Longrightarrow> viewer_wf (ScrollBy d s)"
  by (simp add: ScrollBy_def viewer_wf_ScrollTo)

lemma vw_mouse_total:
  assumes "viewer_wf s"
  shows "\<exists>r. vw_mouse copies x y button motion s = Some r \<and> viewer_wf (snd r)"
  using assms vw_copying_total(1) [of "vw_scroll s + (y - y_min (vw_box s))" "max 0 (x - x_min (vw_box s))" s]
    vw_copying_total(2) [of copies "vw_scroll s + (y - y_min (vw_box s))" "max 0 (x - x_min (vw_box s))" s]
  by (auto simp: vw_mouse_def Let_def viewer_wf_ScrollBy)

lemma vw_key_total:
  assumes "viewer_wf s"
  shows "\<exists>r. vw_key copies e s = Some r \<and> viewer_wf (snd r)"
  using assms vw_copying_total(3) [of copies s]
  by (cases "(copies, e, s)" rule: vw_key.cases)
    (auto simp: viewer_wf_ScrollBy viewer_wf_ScrollTo split: key.splits)

lemma vw_OnEvent_total:
  assumes "viewer_wf s"
  shows "\<exists>r. vw_OnEvent focused copies e s = Some r \<and> viewer_wf (snd r)"
  using vw_mouse_total [OF assms] vw_key_total [OF assms] assms
  by (cases e) (auto simp: vw_OnEvent_def simp del: vw_key.simps)

section \<open>What is drawn\<close>

text \<open>The element shown for row \<open>i\<close>.\<close>

definition row_shown :: "viewer \<Rightarrow> int \<Rightarrow> element" where
  "row_shown s i = the (vw_row s i)"

lemma vw_row_Some: "0 \<le> i \<Longrightarrow> i < int (length (vw_lines s)) \<Longrightarrow> vw_row s i = Some (row_shown s i)"
  by (auto simp: row_shown_def vw_row_def line_at_def Let_def nat_less_iff)

lemma vw_rows_Some:
  "\<forall>i \<in> set is. 0 \<le> i \<and> i < int (length (vw_lines s)) \<Longrightarrow> vw_rows s is = Some (map (row_shown s) is)"
  by (induction "is") (simp_all add: vw_row_Some)

text \<open>The scroll position and the rows of a frame.\<close>

definition frame_scroll :: "viewer \<Rightarrow> int" where
  "frame_scroll s = max 0 (min (max 0 (int (length (vw_lines s)) - vw_visible_height s)) (vw_scroll s))"

definition frame_rows :: "viewer \<Rightarrow> int list" where
  "frame_rows s = [frame_scroll s .. min (int (length (vw_lines s))) (frame_scroll s + vw_visible_height s) - 1]"

lemma row_shown_fields [simp]: "row_shown (s\<lparr>vw_max_scroll := a, vw_scroll := b\<rparr>) i = row_shown s i"
  by (simp add: row_shown_def vw_row_def Let_def)

lemma frame_nonempty:
  fixes n h y :: int
  assumes "0 \<le> n" "2 \<le> h"
  shows "min n (max 0 (min (max 0 (n - h)) y) + h) - 1 < max 0 (min (max 0 (n - h)) y) \<longleftrightarrow> n = 0"
  using assms by (auto simp: min_def max_def)

lemma vw_Render_rows:
  "\<exists>info. vw_Render b s = Some
     (s\<lparr>vw_max_scroll := max 0 (int (length (vw_lines s)) - vw_visible_height s),
        vw_scroll := frame_scroll s, vw_box := b\<rparr>,
      if vw_lines s = [] then [Line [''(No content)'']] else map (row_shown s) (frame_rows s), info)"
proof -
  let ?n = "int (length (vw_lines s))" and ?h = "vw_visible_height s"
  let ?s = "s\<lparr>vw_max_scroll := max 0 (?n - ?h), vw_scroll := frame_scroll s\<rparr>"
  have h: "2 \<le> ?h" by (simp add: vw_visible_height_def)
  have "vw_rows ?s (frame_rows s) = Some (map (row_shown ?s) (frame_rows s))"
    by (intro vw_rows_Some) (auto simp: frame_rows_def frame_scroll_def)
  moreover have "frame_rows s = [] \<longleftrightarrow> ?n = 0"
    using frame_nonempty [of ?n ?h "vw_scroll s"] h by (simp add: frame_rows_def frame_scroll_def)
  then have "frame_rows s = [] \<longleftrightarrow> vw_lines s = []" by simp
  ultimately show ?thesis
    by (auto simp: vw_Render_def Let_def frame_rows_def [symmetric] frame_scroll_def [symmetric])
qed

lemma viewer_step_wf: "viewer_wf s \<Longrightarrow> \<exists>s'. viewer_step p s = Some s' \<and> viewer_wf s'"
proof (cases p)
  case (VwEvent f c e)
  then show "viewer_wf s \<Longrightarrow> ?thesis" using vw_OnEvent_total [of s f c e] by auto
next
  case (VwRender b)
  obtain info where "vw_Render b s = Some
     (s\<lparr>vw_max_scroll := max 0 (int (length (vw_lines s)) - vw_visible_height s),
        vw_scroll := frame_scroll s, vw_box := b\<rparr>,
      if vw_lines s = [] then [Line [''(No content)'']] else map (row_shown s) (frame_rows s), info)"
    using vw_Render_rows by blast
  then show "viewer_wf s \<Longrightarrow> ?thesis" by (simp add: VwRender viewer_wf_def frame_scroll_def)
next
  case (VwContent ls t)
  then show "viewer_wf s \<Longrightarrow> ?thesis" using viewer_wf_content [of s] by (simp add: viewer_wf_def)
next
  case (VwRawText t c)
  then show "viewer_wf s \<Longrightarrow> ?thesis" using viewer_wf_content [of s] by (simp add: viewer_wf_def)
qed (simp_all add: viewer_wf_ScrollTo viewer_wf_ScrollBy)

lemma viewer_run_wf: "viewer_wf s \<Longrightarrow> \<exists>s'. viewer_run ps s = Some s' \<and> viewer_wf s'"
proof (induction ps arbitrary: s)
  case (Cons p ps)
  from viewer_step_wf [OF Cons.prems, of p] Cons.IH show ?case by auto
qed simp

lemma viewer_wf_init: "viewer_wf (ScrollableViewer title)"
  by (simp add: viewer_wf_def ScrollableViewer_def)

text \<open>Highlighting cuts the raw line without changing it.\<close>

lemma highlighted_row:
  assumes "vw_row s i = Some (Line [before, sel, behind])" "vw_hasSelection s"
    "fst (fst (ordered_ends (vw_selStart s) (vw_selEnd s))) \<le> i" "i \<le> fst (snd (ordered_ends (vw_selStart s) (vw_selEnd s)))"
    "0 \<le> i" "i < int (length (vw_rawLines s))"
  shows "before @ sel @ behind = vw_rawLines s ! nat i"
proof -
  let ?raw = "vw_rawLines s ! nat i" and ?e = "ordered_ends (vw_selStart s) (vw_selEnd s)"
  define a where "a = (if i = fst (fst ?e) then clamp (int (length ?raw)) (snd (fst ?e)) else 0)"
  define z where "z = (if i = fst (snd ?e) then clamp (int (length ?raw)) (snd (snd ?e)) else int (length ?raw))"
  have le: "0 \<le> a" "a \<le> z" "z \<le> int (length ?raw)"
    by (auto simp: a_def z_def clamp_def ordered_ends_def)
  have "vw_row s i = Some (Line [take (nat a) ?raw, if a < z then substr ?raw (nat a) (nat (z - a)) else [],
      if z < int (length ?raw) then drop (nat z) ?raw else []])"
    using assms(2-6) by (simp add: vw_row_def line_at_def Let_def nat_less_iff substr_def a_def z_def)
  then have row: "before = take (nat a) ?raw" "sel = (if a < z then substr ?raw (nat a) (nat (z - a)) else [])"
    "behind = (if z < int (length ?raw) then drop (nat z) ?raw else [])"
    using assms(1) by simp_all
  have nz: "nat z = nat a + nat (z - a)" using le by simp
  have "sel @ behind = drop (nat a) ?raw"
  proof (cases "a < z")
    case True
    define d where "d = drop (nat a) ?raw"
    have "behind = drop (nat (z - a)) d" using row(3) le by (auto simp: d_def nz add.commute)
    moreover have "sel = take (nat (z - a)) d" using True row(2) by (simp add: d_def substr_def)
    ultimately show ?thesis by (simp add: d_def [symmetric])
  next
    case False
    then show ?thesis using le row by auto
  qed
  with row(1) show ?thesis by simp
qed

text \<open>
  Formatted lines and raw lines are numbered differently: the formatted lines of a request have a
  separator behind the request line, so that selecting the second row shows the Host line of the raw
  text where the separator was, and copies it.
\<close>

lemma selection_shows_other_line:
  fixes rq :: http_request and s :: viewer
  defines "rq \<equiv> HttpRequest\<lparr>rq_method := ''GET'', rq_url := ''/'', rq_version := ''HTTP/1.1''\<rparr>"
  defines "s \<equiv> (SetContent (FormatHttpRequestLines rq False ''h'') (FormatHttpRequestRaw rq False ''h'')
      (ScrollableViewer []))\<lparr>vw_hasSelection := True, vw_selStart := (1, 0), vw_selEnd := (1, 4)\<rparr>"
  shows "vw_lines s ! 1 = Separator" "vw_row s 1 = Some (Line [[], ''Host'', '': h''])"
    "vw_GetSelectedText s = Some ''Host''"
proof -
  have raw: "FormatHttpRequestRaw rq False ''h'' = ''GET / HTTP/1.1'' @ crlf @ ''Host: h'' @ crlf @ crlf"
    unfolding rq_def by code_simp
  show "vw_lines s ! 1 = Separator" by (simp add: s_def SetContent_def updateRawLines_def Let_def FormatHttpRequestLines_def)
  show "vw_row s 1 = Some (Line [[], ''Host'', '': h''])"
    by (simp add: s_def raw SetContent_def updateRawLines_def Let_def vw_row_def ordered_ends_def clamp_def line_at_def substr_def)
  show "vw_GetSelectedText s = Some ''Host''"
    by (simp add: s_def raw SetContent_def updateRawLines_def Let_def vw_GetSelectedText_def ordered_ends_def clamp_def line_at_def substr_def upto.simps)
qed

section \<open>Properties\<close>


lemma frame_reaches:
  fixes n h i :: int
  assumes "2 \<le> h" "0 \<le> i" "i < n"
  defines "y \<equiv> max 0 (min (max 0 (n - h)) (max 0 (min (max 0 (n - h)) i)))"
  shows "i \<in> {y .. min n (y + h) - 1}"
  using assms by (auto simp: min_def max_def)

lemma frame_after_scrolling:
  assumes "vw_max_scroll s = max 0 (int (length (vw_lines s)) - vw_visible_height s)"
    "0 \<le> i" "i < int (length (vw_lines s))"
  shows "i \<in> set (frame_rows (ScrollTo i s))"
proof -
  have h: "vw_visible_height (ScrollTo i s) = vw_visible_height s" "2 \<le> vw_visible_height s"
    by (simp_all add: vw_visible_height_def ScrollTo_def)
  have y: "frame_scroll (ScrollTo i s) = max 0 (min (max 0 (int (length (vw_lines s)) - vw_visible_height s))
      (max 0 (min (max 0 (int (length (vw_lines s)) - vw_visible_height s)) i)))"
    unfolding frame_scroll_def h(1) by (simp add: ScrollTo_def assms(1))
  have "vw_lines (ScrollTo i s) = vw_lines s" by (simp add: ScrollTo_def)
  then show ?thesis unfolding frame_rows_def y h(1) by (simp only: frame_reaches [OF h(2) assms(2,3)] set_upto)
qed

text \<open>A viewer drawn twice in the same box has the scroll range of that box.\<close>

definition settled_viewer :: "viewer \<Rightarrow> bool" where
  "settled_viewer s \<longleftrightarrow> vw_max_scroll s = max 0 (int (length (vw_lines s)) - vw_visible_height s)
     \<and> vw_scroll s = frame_scroll s"

lemma viewer_run_append: "viewer_run (ps @ qs) s = viewer_run ps s \<bind> viewer_run qs"
  by (induction ps arbitrary: s) (auto split: Option.bind_split)

lemma render_step: "\<exists>s'. viewer_step (VwRender b) s = Some s' \<and> vw_box s' = b \<and> vw_lines s' = vw_lines s
    \<and> vw_max_scroll s' = max 0 (int (length (vw_lines s)) - vw_visible_height s) \<and> vw_scroll s' = frame_scroll s"
proof -
  obtain info where "vw_Render b s = Some
     (s\<lparr>vw_max_scroll := max 0 (int (length (vw_lines s)) - vw_visible_height s),
        vw_scroll := frame_scroll s, vw_box := b\<rparr>,
      if vw_lines s = [] then [Line [''(No content)'']] else map (row_shown s) (frame_rows s), info)"
    using vw_Render_rows by blast
  then show ?thesis by simp
qed

lemma drawn_twice:
  obtains s where "viewer_run (ps @ [VwRender b, VwRender b]) (ScrollableViewer title) = Some s" "settled_viewer s"
proof -
  obtain t where t: "viewer_run ps (ScrollableViewer title) = Some t"
    using viewer_run_wf [OF viewer_wf_init] by blast
  obtain t1 where t1: "viewer_step (VwRender b) t = Some t1" "vw_box t1 = b" using render_step by blast
  obtain s where s: "viewer_step (VwRender b) t1 = Some s" "vw_box s = b" "vw_lines s = vw_lines t1"
    "vw_max_scroll s = max 0 (int (length (vw_lines t1)) - vw_visible_height t1)" "vw_scroll s = frame_scroll t1"
    using render_step by blast
  have "vw_visible_height s = vw_visible_height t1" using s(2) t1(2) by (simp add: vw_visible_height_def)
  then have "settled_viewer s" using s(3-5) by (simp add: settled_viewer_def frame_scroll_def)
  moreover have "viewer_run (ps @ [VwRender b, VwRender b]) (ScrollableViewer title) = Some s"
    using t t1(1) s(1) by (simp add: viewer_run_append del: viewer_step.simps)
  ultimately show thesis using that by blast
qed

lemma frame_rows_length: "int (length (frame_rows s)) \<le> vw_visible_height s"
  by (auto simp: frame_rows_def vw_visible_height_def)

lemma row_shown_plain: "\<not> vw_hasSelection s \<Longrightarrow> map (row_shown s) [0..int (length (vw_lines s)) - 1] = vw_lines s"
  by (intro nth_equalityI) (simp_all add: row_shown_def vw_row_def Let_def)

lemma row_shown_ScrollTo [simp]: "row_shown (ScrollTo y s) i = row_shown s i"
  by (simp add: row_shown_def vw_row_def ScrollTo_def Let_def)

text \<open>
  C35: A frame shows consecutive rows, as many as fit, and scrolling reaches all of them. In every
  reachable state a frame consists of the rows from the scroll position on, at most the visible height
  of them (or says that there is no content); without a selection row \<open>i\<close> is the formatted line \<open>i\<close>; and
  in a box that keeps its size, scrolling to a row brings it into the next frame.
\<close>
theorem viewer_shows_every_row:
  "case viewer_run (ps @ [VwRender b, VwRender b]) (ScrollableViewer title) of
     None \<Rightarrow> False
   | Some s \<Rightarrow>
       vw_scroll s = frame_scroll s
     \<and> (case vw_Render b s of
          None \<Rightarrow> False
        | Some (s', rows, info) \<Rightarrow>
            rows = (if vw_lines s = [] then [Line [''(No content)'']] else map (row_shown s) (frame_rows s))
            \<and> int (length rows) \<le> vw_visible_height s)
     \<and> (vw_hasSelection s \<or> map (row_shown s) [0..int (length (vw_lines s)) - 1] = vw_lines s)
     \<and> list_all (\<lambda>i. case vw_Render b (ScrollTo i s) of
          None \<Rightarrow> False | Some (s', rows, info) \<Rightarrow> row_shown s i \<in> set rows) [0..int (length (vw_lines s)) - 1]"
proof -
  obtain s where run: "viewer_run (ps @ [VwRender b, VwRender b]) (ScrollableViewer title) = Some s"
    and st: "settled_viewer s" by (rule drawn_twice)
  have "case vw_Render b (ScrollTo i s) of None \<Rightarrow> False | Some (s', rows, info) \<Rightarrow> row_shown s i \<in> set rows"
    if "0 \<le> i" "i < int (length (vw_lines s))" for i
  proof -
    have ne: "vw_lines (ScrollTo i s) \<noteq> []" using that by (auto simp: ScrollTo_def)
    have "i \<in> set (frame_rows (ScrollTo i s))" using frame_after_scrolling st that by (simp add: settled_viewer_def)
    then show ?thesis using vw_Render_rows [of b "ScrollTo i s"] ne by auto
  qed
  moreover have "case vw_Render b s of None \<Rightarrow> False | Some (s', rows, info) \<Rightarrow>
      rows = (if vw_lines s = [] then [Line [''(No content)'']] else map (row_shown s) (frame_rows s))
      \<and> int (length rows) \<le> vw_visible_height s"
    using vw_Render_rows [of b s] frame_rows_length [of s] by (auto simp: vw_visible_height_def)
  ultimately show ?thesis using st row_shown_plain [of s] by (auto simp: run settled_viewer_def list_all_iff)
qed

end
