(* ===== verification/RepeaterManager.thy ===== *)
theory RepeaterManager
  imports HttpMessage "HOL-Library.Monad_Syntax"
begin

text \<open>
  The repeater of \<open>src/src/tui/RepeaterManager.cpp\<close>: the request the user edits, where it goes, and the
  thread that sends it. Each method is one step of the state, as it takes the manager's mutex once
  (\<open>executeRequest\<close> twice, with nothing but computation on local copies between; the interface thread is
  its only caller). Callbacks and the start of the sending thread are effects, in order. What the
  network does to the thread (which call throws and with what text, what each read returns, the time
  taken) is the record \<open>exchange\<close>.
\<close>

section \<open>State\<close>

record repeater =
  rp_host :: string
  rp_port :: string
  rp_isHttps :: bool
  rp_rawRequest :: string
  rp_rawResponse :: string
  rp_statusText :: string
  rp_isSending :: bool
  rp_hasNotify :: bool
  rp_hasSwitchTab :: bool

definition RepeaterManager :: repeater where
  "RepeaterManager = \<lparr>rp_host = ''httpbin.org'', rp_port = ''443'', rp_isHttps = True,
     rp_rawRequest = ''GET /get HTTP/1.1'' @ crlf @ ''Host: httpbin.org'' @ crlf
       @ ''User-Agent: BurpTUI/0.1'' @ crlf @ ''Accept: */*'' @ crlf @ crlf,
     rp_rawResponse = ''(Send request to see real response here)'', rp_statusText = ''Ready'',
     rp_isSending = False, rp_hasNotify = False, rp_hasSwitchTab = False\<rparr>"

text \<open>What the sending thread captures.\<close>

record rp_job =
  jb_host :: string
  jb_port :: string
  jb_isHttps :: bool
  jb_request :: string

datatype rp_effect = RpNotify | RpSwitchTab int | RpSend rp_job

definition rp_notify :: "repeater \<Rightarrow> rp_effect list" where
  "rp_notify s = (if rp_hasNotify s then [RpNotify] else [])"

section \<open>Setting the request up\<close>

definition switchToRepeaterTab :: "repeater \<Rightarrow> rp_effect list" where
  "switchToRepeaterTab s = (if rp_hasSwitchTab s then [RpSwitchTab 2] else [])"

definition setTarget :: "string \<Rightarrow> string \<Rightarrow> bool \<Rightarrow> repeater \<Rightarrow> rp_effect list \<times> repeater" where
  "setTarget host port isHttps s =
     (let s' = s\<lparr>rp_host := host, rp_port := port, rp_isHttps := isHttps\<rparr> in (rp_notify s', s'))"

definition setRequest :: "string \<Rightarrow> string \<Rightarrow> bool \<Rightarrow> string \<Rightarrow> repeater \<Rightarrow> rp_effect list \<times> repeater" where
  "setRequest host port isHttps rawRequest s =
     (let s' = s\<lparr>rp_host := host, rp_port := port, rp_isHttps := isHttps, rp_rawRequest := rawRequest,
                 rp_statusText := ''Loaded request for '' @ host @ '':'' @ port\<rparr>
      in (rp_notify s' @ switchToRepeaterTab s', s'))"

definition setRawRequest :: "string \<Rightarrow> repeater \<Rightarrow> repeater" where
  "setRawRequest raw s = s\<lparr>rp_rawRequest := raw\<rparr>"

definition setRawResponse :: "string \<Rightarrow> repeater \<Rightarrow> repeater" where
  "setRawResponse raw s = s\<lparr>rp_rawResponse := raw\<rparr>"

definition rp_setNotifyCallback :: "bool \<Rightarrow> repeater \<Rightarrow> repeater" where
  "rp_setNotifyCallback b s = s\<lparr>rp_hasNotify := b\<rparr>"

definition setSwitchTabCallback :: "bool \<Rightarrow> repeater \<Rightarrow> repeater" where
  "setSwitchTabCallback b s = s\<lparr>rp_hasSwitchTab := b\<rparr>"

section \<open>Where to send\<close>

definition is_blank :: "char \<Rightarrow> bool" where
  "is_blank c \<longleftrightarrow> c = CHR '' '' \<or> c = TAB"

definition trim_blanks :: "string \<Rightarrow> string" where
  "trim_blanks s = rev (dropWhile is_blank (rev (dropWhile is_blank s)))"

definition strip_scheme :: "string \<Rightarrow> bool \<Rightarrow> string \<times> bool" where
  "strip_scheme host isHttps =
     (if starts_with host ''https://'' then (drop 8 host, True)
      else if starts_with host ''http://'' then (drop 7 host, False)
      else (host, isHttps))"

definition cut_path :: "string \<Rightarrow> string" where
  "cut_path host = (case str_find host ''/'' of None \<Rightarrow> host | Some i \<Rightarrow> substr host 0 i)"

definition cut_port :: "string \<Rightarrow> string \<Rightarrow> string \<times> string" where
  "cut_port host port =
     (case str_rfind_char host (CHR '':'') of
        Some i \<Rightarrow> if str_find host '']'' = None then (substr host 0 i, drop (i + 1) host) else (host, port)
      | None \<Rightarrow> (host, port))"

definition rp_target :: "string \<Rightarrow> string \<Rightarrow> bool \<Rightarrow> string \<times> string \<times> bool" where
  "rp_target host port isHttps =
     (let hs = strip_scheme (trim_blanks host) isHttps;
          hp = cut_port (cut_path (fst hs)) port
      in (fst hp, if snd hp = [] then (if snd hs then ''443'' else ''80'') else snd hp, snd hs))"

section \<open>What to send\<close>

text \<open>Insertion behind the first line.\<close>

definition insert_header :: "string \<Rightarrow> string \<Rightarrow> string" where
  "insert_header t s = (case str_find s crlf of None \<Rightarrow> s | Some i \<Rightarrow> str_insert s (i + 2) t)"

definition ensure_host :: "string \<Rightarrow> string \<Rightarrow> string" where
  "ensure_host host s =
     (if \<not> str_contains s ''Host:'' \<and> \<not> str_contains s ''host:''
      then insert_header (''Host: '' @ host @ crlf) s else s)"

definition ensure_connection :: "string \<Rightarrow> string" where
  "ensure_connection s =
     (if \<not> str_contains s ''Connection:'' \<and> \<not> str_contains s ''connection:''
      then insert_header (''Connection: close'' @ crlf) s else s)"

definition clean_request :: "string \<Rightarrow> string \<Rightarrow> string" where
  "clean_request host req =
     ensure_connection (ensure_host host (ensure_header_end (normalize_crlf (erase_scheme_notes req))))"

definition executeRequest :: "repeater \<Rightarrow> rp_effect list \<times> repeater" where
  "executeRequest s =
     (if rp_isSending s then ([], s)
      else let (host, port, isHttps) = rp_target (rp_host s) (rp_port s) (rp_isHttps s);
               req = clean_request host (rp_rawRequest s);
               s' = s\<lparr>rp_isSending := True, rp_host := host, rp_port := port, rp_isHttps := isHttps,
                      rp_statusText := ''Connecting to '' @ host @ '':'' @ port @ ''...''\<rparr>
           in (rp_notify s' @ [RpSend \<lparr>jb_host = host, jb_port = port, jb_isHttps = isHttps, jb_request = req\<rparr>], s'))"

section \<open>The sending thread\<close>

datatype read_result = Chunk string | ReadError

text \<open>The calls that may throw, each with the text of its exception, the reads and the time taken.\<close>

record exchange =
  ex_resolve :: "string option"
  ex_connect :: "string option"
  ex_handshake :: "string option"
  ex_write :: "string option"
  ex_reads :: "nat \<Rightarrow> read_result"
  ex_elapsed :: int

text \<open>The loop \<open>while (true)\<close> over the reads, from read \<open>i\<close> on; \<open>None\<close> if it never ends.\<close>

partial_function (option) read_loop :: "(nat \<Rightarrow> read_result) \<Rightarrow> nat \<Rightarrow> string \<Rightarrow> string option" where
  "read_loop reads i response =
     (case reads i of
        ReadError \<Rightarrow> Some response
      | Chunk buf \<Rightarrow> if buf = [] then Some response else read_loop reads (i + 1) (response @ buf))"

text \<open>The body of the \<open>try\<close> block: the response and the text of the exception, if any.\<close>

definition exchange_error :: "exchange \<Rightarrow> rp_job \<Rightarrow> string option" where
  "exchange_error ex job =
     (case ex_resolve ex of
        Some e \<Rightarrow> Some e
      | None \<Rightarrow>
          (case ex_connect ex of
             Some e \<Rightarrow> Some e
           | None \<Rightarrow>
               (case (if jb_isHttps job then ex_handshake ex else None) of
                  Some e \<Rightarrow> Some e
                | None \<Rightarrow> ex_write ex)))"

definition run_exchange :: "exchange \<Rightarrow> rp_job \<Rightarrow> (string \<times> string) option" where
  "run_exchange ex job =
     (case exchange_error ex job of
        Some e \<Rightarrow> Some ([], e)
      | None \<Rightarrow> map_option (\<lambda>r. (r, [])) (read_loop (ex_reads ex) 0 []))"

definition finish_request :: "exchange \<Rightarrow> rp_job \<Rightarrow> string \<times> string \<Rightarrow> repeater \<Rightarrow> rp_effect list \<times> repeater" where
  "finish_request ex job r s =
     (let s1 = s\<lparr>rp_isSending := False\<rparr>;
          s' = (if snd r \<noteq> []
                then s1\<lparr>rp_statusText := ''Error: '' @ snd r,
                        rp_rawResponse := ''HTTP Connection Failed: '' @ snd r @ [LF] @ ''Target: ''
                          @ (if jb_isHttps job then ''https://'' else ''http://'') @ jb_host job @ '':'' @ jb_port job\<rparr>
                else s1\<lparr>rp_statusText := ''Done ('' @ nat_to_string (length (fst r)) @ '' B in ''
                          @ int_to_string (ex_elapsed ex) @ '' ms)'',
                        rp_rawResponse := fst r\<rparr>)
      in (rp_notify s', s'))"

section \<open>Runs\<close>

text \<open>The manager with the jobs of the threads that run; a thread whose exchange ends finishes.\<close>

record rp_system =
  sy_manager :: repeater
  sy_jobs :: "rp_job list"

datatype rp_op =
    RpTarget string string bool | RpRequest string string bool string
  | RpRawRequest string | RpRawResponse string | RpNotifyCallback bool | RpSwitchCallback bool
  | RpExecute | RpFinish nat exchange

fun sent_jobs :: "rp_effect list \<Rightarrow> rp_job list" where
  "sent_jobs [] = []"
| "sent_jobs (RpSend j # es) = j # sent_jobs es"
| "sent_jobs (_ # es) = sent_jobs es"

fun rp_call :: "rp_op \<Rightarrow> repeater \<Rightarrow> rp_effect list \<times> repeater" where
  "rp_call (RpTarget h p t) s = setTarget h p t s"
| "rp_call (RpRequest h p t r) s = setRequest h p t r s"
| "rp_call (RpRawRequest r) s = ([], setRawRequest r s)"
| "rp_call (RpRawResponse r) s = ([], setRawResponse r s)"
| "rp_call (RpNotifyCallback b) s = ([], rp_setNotifyCallback b s)"
| "rp_call (RpSwitchCallback b) s = ([], setSwitchTabCallback b s)"
| "rp_call RpExecute s = executeRequest s"
| "rp_call (RpFinish i ex) s = ([], s)"

fun rp_step :: "rp_op \<Rightarrow> rp_system \<Rightarrow> rp_effect list \<times> rp_system" where
  "rp_step (RpFinish i ex) y =
     (if i < length (sy_jobs y)
      then (case run_exchange ex (sy_jobs y ! i) of
              None \<Rightarrow> ([], y)
            | Some r \<Rightarrow> let (es, s) = finish_request ex (sy_jobs y ! i) r (sy_manager y)
                        in (es, \<lparr>sy_manager = s, sy_jobs = take i (sy_jobs y) @ drop (i + 1) (sy_jobs y)\<rparr>))
      else ([], y))"
| "rp_step p y =
     (let (es, s) = rp_call p (sy_manager y)
      in (es, \<lparr>sy_manager = s, sy_jobs = sy_jobs y @ sent_jobs es\<rparr>))"

fun rp_run :: "rp_op list \<Rightarrow> rp_system \<Rightarrow> rp_system" where
  "rp_run [] y = y"
| "rp_run (p # ps) y = rp_run ps (snd (rp_step p y))"

definition rp_start :: rp_system where
  "rp_start = \<lparr>sy_manager = RepeaterManager, sy_jobs = []\<rparr>"

section \<open>Line ends and inserted headers\<close>

lemma crlf_ok_split: "crlf_ok (a @ crlf @ b) \<Longrightarrow> crlf_ok a \<and> crlf_ok b"
proof (induction a rule: crlf_ok.induct)
  case (2 c cs)
  then show ?case by (cases cs) (auto split: if_splits)
qed simp

lemma prefix_before: "LF \<notin> set p \<Longrightarrow> prefix p (x @ LF # y) = prefix p x"
proof (induction p arbitrary: x)
  case (Cons c p)
  then show ?case by (cases x) auto
qed simp

lemma sublist_across: "LF \<notin> set p \<Longrightarrow> sublist p (x @ LF # y) \<longleftrightarrow> sublist p x \<or> sublist p y"
proof (induction x)
  case Nil
  then have "prefix p (LF # y) = prefix p []" using prefix_before [of p "[]" y] by simp
  then show ?case by (auto simp: sublist_Cons_right)
next
  case (Cons c x)
  then show ?case using prefix_before [of p "c # x" y] by (auto simp: sublist_Cons_right)
qed

lemma insert_header_split:
  assumes "sublist crlf s"
  obtains a b where "s = a @ crlf @ b" "insert_header t s = a @ crlf @ t @ b" "str_find s crlf = Some (length a)"
proof -
  from assms obtain i where i: "str_find s crlf = Some i" using str_find_None_iff [of s crlf] by fastforce
  have len: "i + 2 \<le> length s" using str_find_Some_prefix [OF i] by simp
  have s: "s = take i s @ crlf @ drop (i + 2) s" using str_find_Some_split [OF i] by simp
  have "take (i + 2) s = take i s @ crlf" using len by (subst s) simp
  then have ins: "insert_header t s = take i s @ crlf @ t @ drop (i + 2) s"
    by (simp add: insert_header_def i str_insert_def)
  have "str_find s crlf = Some (length (take i s))" using i len by simp
  with s ins show thesis by (rule that)
qed

lemma header_end_rest:
  "str_find s crlf = Some i \<Longrightarrow> sublist (crlf @ crlf) s \<Longrightarrow>
     prefix crlf (drop (i + 2) s) \<or> sublist (crlf @ crlf) (drop (i + 2) s)"
proof (induction s arbitrary: i)
  case (Cons c s)
  show ?case
  proof (cases "prefix crlf (c # s)")
    case True
    then obtain r where r: "c = CR" "s = LF # r" by (cases s) auto
    with Cons.prems show ?thesis by (auto simp: sublist_Cons_right)
  next
    case False
    then have "\<not> prefix (crlf @ crlf) (c # s)" by (auto simp: prefix_def)
    with Cons.prems(2) have "sublist (crlf @ crlf) s" by (auto simp: sublist_Cons_right)
    moreover obtain j where "str_find s crlf = Some j" "i = Suc j" using Cons.prems(1) False by auto
    ultimately show ?thesis using Cons.IH by simp
  qed
qed simp

lemma sublist_of_append: "sublist p x \<Longrightarrow> sublist p (x @ y) \<and> sublist p (y @ x)"
  unfolding sublist_def by (metis append.assoc)

lemma insert_header_end:
  assumes "sublist (crlf @ crlf) s" "t = u @ crlf"
  shows "sublist (crlf @ crlf) (insert_header t s)"
proof -
  have "sublist crlf s" using assms(1) by (auto simp: sublist_def)
  then obtain a b where s: "s = a @ crlf @ b" "insert_header t s = a @ crlf @ t @ b" "str_find s crlf = Some (length a)"
    by (rule insert_header_split)
  from header_end_rest [OF s(3) assms(1)] have "prefix crlf b \<or> sublist (crlf @ crlf) b" by (simp add: s(1))
  then have "sublist (crlf @ crlf) (crlf @ b)"
  proof
    assume "prefix crlf b"
    then obtain r where "crlf @ b = [] @ (crlf @ crlf) @ r" by (auto simp: prefix_def)
    then show ?thesis unfolding sublist_def by blast
  next
    assume "sublist (crlf @ crlf) b"
    then show ?thesis using sublist_of_append by blast
  qed
  then have "sublist (crlf @ crlf) ((a @ crlf @ u) @ crlf @ b)" using sublist_of_append by blast
  moreover have "insert_header t s = (a @ crlf @ u) @ crlf @ b" by (simp only: s(2)) (simp add: assms(2))
  ultimately show ?thesis by simp
qed

lemma insert_header_mention:
  assumes "LF \<notin> set p" "sublist crlf s" "sublist p s \<or> sublist p t"
  shows "sublist p (insert_header t s)"
proof -
  obtain a b where s: "s = a @ crlf @ b" "insert_header t s = a @ crlf @ t @ b"
    using insert_header_split [OF assms(2), of t] by metis
  have "sublist p (a @ [CR] @ LF # b) \<longleftrightarrow> sublist p (a @ [CR]) \<or> sublist p b"
    using sublist_across [OF assms(1), of "a @ [CR]" b] by simp
  moreover have "sublist p (a @ [CR]) \<or> sublist p b \<or> sublist p t \<Longrightarrow> sublist p ((a @ [CR]) @ LF # (t @ b))"
    unfolding sublist_across [OF assms(1)] using sublist_of_append by blast
  moreover have "sublist p s = sublist p (a @ [CR] @ LF # b)" by (simp add: s(1))
  moreover have "insert_header t s = (a @ [CR]) @ LF # (t @ b)" by (simp add: s(2))
  ultimately show ?thesis using assms(3) by metis
qed

lemma insert_header_ok:
  assumes "crlf_ok s" "crlf_ok t"
  shows "crlf_ok (insert_header t s)"
proof (cases "sublist crlf s")
  case True
  then obtain a b where s: "s = a @ crlf @ b" "insert_header t s = a @ crlf @ t @ b"
    by (rule insert_header_split)
  have "crlf_ok a" "crlf_ok b" using assms(1) crlf_ok_split [of a b] unfolding s(1) by blast+
  then have "crlf_ok (a @ crlf @ t @ b)" using assms(2) by (intro crlf_ok_append) simp_all
  then show ?thesis by (simp only: s(2))
next
  case False
  then have "str_find s crlf = None" by (simp only: str_find_None_iff) simp
  then show ?thesis using assms(1) by (simp add: insert_header_def)
qed


section \<open>Cleaned requests\<close>

definition mentions :: "string \<Rightarrow> string \<Rightarrow> string \<Rightarrow> bool" where
  "mentions p q s \<longleftrightarrow> sublist p s \<or> sublist q s"

abbreviation mentions_host :: "string \<Rightarrow> bool" where "mentions_host \<equiv> mentions ''Host:'' ''host:''"
abbreviation mentions_connection :: "string \<Rightarrow> bool" where
  "mentions_connection \<equiv> mentions ''Connection:'' ''connection:''"

lemma ensure_host_alt:
  "ensure_host h s = (if mentions_host s then s else insert_header (''Host: '' @ h @ crlf) s)"
  by (simp add: ensure_host_def str_contains_iff mentions_def)

lemma ensure_connection_alt:
  "ensure_connection s = (if mentions_connection s then s else insert_header (''Connection: close'' @ crlf) s)"
  by (simp add: ensure_connection_def str_contains_iff mentions_def)

lemma mentions_insert:
  assumes "sublist crlf s" "LF \<notin> set p \<union> set q" "mentions p q s \<or> sublist p t"
  shows "mentions p q (insert_header t s)"
  using assms insert_header_mention [of p s t] insert_header_mention [of q s t] by (auto simp: mentions_def)

lemma header_end_crlf: "sublist (crlf @ crlf) s \<Longrightarrow> sublist crlf s"
  unfolding sublist_def by (metis append.assoc)

lemma starts_sublist: "sublist p (p @ x)"
  unfolding sublist_def by (metis append_Nil)

definition plain_line :: "string \<Rightarrow> bool" where
  "plain_line h \<longleftrightarrow> CR \<notin> set h \<and> LF \<notin> set h"

lemma ensure_host_facts:
  assumes "sublist (crlf @ crlf) s"
  shows "sublist (crlf @ crlf) (ensure_host h s)" "mentions_host (ensure_host h s)"
    "crlf_ok s \<Longrightarrow> plain_line h \<Longrightarrow> crlf_ok (ensure_host h s)"
    "mentions_connection s \<Longrightarrow> mentions_connection (ensure_host h s)"
proof -
  note line = header_end_crlf [OF assms]
  have t: "''Host: '' @ h @ crlf = (''Host: '' @ h) @ crlf" by simp
  show "sublist (crlf @ crlf) (ensure_host h s)"
    using assms insert_header_end [OF assms t] by (simp add: ensure_host_alt)
  have "sublist ''Host:'' (''Host: '' @ h @ crlf)" using starts_sublist [of "''Host:''" "'' '' @ h @ crlf"] by simp
  then show "mentions_host (ensure_host h s)"
    using mentions_insert [OF line, of "''Host:''" "''host:''" "''Host: '' @ h @ crlf"] by (simp add: ensure_host_alt)
  show "crlf_ok (ensure_host h s)" if "crlf_ok s" "plain_line h"
  proof -
    have "crlf_ok h" using that(2) by (simp add: plain_line_def crlf_ok_plain)
    then have "crlf_ok (''Host: '' @ h @ crlf)" by (intro crlf_ok_append) simp_all
    with that(1) show ?thesis by (simp add: ensure_host_alt insert_header_ok del: crlf_ok.simps)
  qed
  show "mentions_connection (ensure_host h s)" if "mentions_connection s"
    using that mentions_insert [OF line, of "''Connection:''" "''connection:''"] by (simp add: ensure_host_alt)
qed

lemma ensure_connection_facts:
  assumes "sublist (crlf @ crlf) s"
  shows "sublist (crlf @ crlf) (ensure_connection s)" "mentions_connection (ensure_connection s)"
    "crlf_ok s \<Longrightarrow> crlf_ok (ensure_connection s)" "mentions_host s \<Longrightarrow> mentions_host (ensure_connection s)"
proof -
  note line = header_end_crlf [OF assms]
  show "sublist (crlf @ crlf) (ensure_connection s)"
    using assms insert_header_end [OF assms, of "''Connection: close'' @ crlf" "''Connection: close''"] by (simp add: ensure_connection_alt)
  have "sublist ''Connection:'' (''Connection: close'' @ crlf)"
    using starts_sublist [of "''Connection:''" "'' close'' @ crlf"] by simp
  then show "mentions_connection (ensure_connection s)"
    using mentions_insert [OF line, of "''Connection:''" "''connection:''" "''Connection: close'' @ crlf"]
    by (simp add: ensure_connection_alt)
  show "crlf_ok (ensure_connection s)" if "crlf_ok s"
    using that by (simp add: ensure_connection_alt insert_header_ok)
  show "mentions_host (ensure_connection s)" if "mentions_host s"
    using that mentions_insert [OF line, of "''Host:''" "''host:''"] by (simp add: ensure_connection_alt)
qed

text \<open>What leaves: CRLF line ends only, an end of headers, a mention of Host and of Connection.\<close>

definition complete_request :: "string \<Rightarrow> string \<Rightarrow> bool" where
  "complete_request host s \<longleftrightarrow> sublist (crlf @ crlf) s \<and> mentions_host s \<and> mentions_connection s
     \<and> (plain_line host \<longrightarrow> crlf_ok s)"

lemma clean_request_complete: "complete_request host (clean_request host raw)"
proof -
  let ?s = "ensure_header_end (normalize_crlf (erase_scheme_notes raw))"
  note h = ensure_host_facts [where h = host, OF ensure_header_end_contains [of "normalize_crlf (erase_scheme_notes raw)"]]
  note c = ensure_connection_facts [OF h(1)]
  have "crlf_ok ?s" by (intro ensure_header_end_ok crlf_ok_normalize)
  then have "plain_line host \<Longrightarrow> crlf_ok (ensure_host host ?s)"
    using h(3) by blast
  with h(2) c show ?thesis by (simp add: complete_request_def clean_request_def)
qed

lemma complete_request_stays:
  assumes "complete_request host s" "crlf_ok s" "erase_scheme_notes s = s"
  shows "clean_request h' s = s"
proof -
  have "ensure_header_end s = s" using assms(1) by (simp add: complete_request_def ensure_header_end_def str_contains_iff)
  with assms show ?thesis
    by (simp add: clean_request_def normalize_crlf_id complete_request_def ensure_host_alt ensure_connection_alt)
qed

section \<open>Targets\<close>

text \<open>A target as users write it: blanks, a scheme, a name, a port, a path.\<close>

definition name_char :: "char \<Rightarrow> bool" where
  "name_char c \<longleftrightarrow> c \<notin> {CHR '':'', CHR ''/'', CHR '']''} \<and> \<not> is_blank c"

fun scheme_text :: "bool option \<Rightarrow> string" where
  "scheme_text None = []"
| "scheme_text (Some https) = (if https then ''https://'' else ''http://'')"

fun port_text :: "string option \<Rightarrow> string" where
  "port_text None = []"
| "port_text (Some p) = CHR '':'' # p"

fun path_text :: "string option \<Rightarrow> string" where
  "path_text None = []"
| "path_text (Some q) = CHR ''/'' # q"

definition target_text :: "bool option \<Rightarrow> string \<Rightarrow> string option \<Rightarrow> string option \<Rightarrow> string" where
  "target_text sc name po pa = scheme_text sc @ name @ port_text po @ path_text pa"

definition wf_target :: "bool option \<Rightarrow> string \<Rightarrow> string option \<Rightarrow> string option \<Rightarrow> bool" where
  "wf_target sc name po pa \<longleftrightarrow> name \<noteq> [] \<and> list_all name_char name
     \<and> (case po of None \<Rightarrow> True | Some p \<Rightarrow> p \<noteq> [] \<and> list_all name_char p)
     \<and> (case pa of None \<Rightarrow> True | Some q \<Rightarrow> q = [] \<or> \<not> is_blank (last q))"

lemma trim_blanks_text:
  assumes "list_all is_blank b1" "list_all is_blank b2" "x \<noteq> []" "\<not> is_blank (hd x)" "\<not> is_blank (last x)"
  shows "trim_blanks (b1 @ x @ b2) = x"
proof -
  have "dropWhile is_blank (b1 @ x @ b2) = x @ b2"
    using assms(1,3,4) by (cases x) (simp_all add: dropWhile_append list_all_iff)
  moreover have "dropWhile is_blank (rev (x @ b2)) = rev x"
    using assms(2,3,5) by (cases x rule: rev_cases) (simp_all add: dropWhile_append list_all_iff)
  ultimately show ?thesis by (simp add: trim_blanks_def)
qed

lemma scheme_stop:
  assumes "prefix ''https://'' s \<or> prefix ''http://'' s"
  shows "prefix ''://'' (dropWhile (\<lambda>c. c \<noteq> CHR '':'' \<and> c \<noteq> CHR ''/'') s)"
  using assms by (auto simp: prefix_def)

lemma no_scheme:
  assumes "wf_target None name po pa"
  shows "strip_scheme (target_text None name po pa) tls = (target_text None name po pa, tls)"
proof -
  let ?rest = "port_text po @ path_text pa" and ?stop = "\<lambda>c. c \<noteq> CHR '':'' \<and> c \<noteq> CHR ''/''"
  have "list_all name_char name" using assms by (simp add: wf_target_def)
  then have d: "dropWhile ?stop (name @ ?rest) = ?rest"
    by (cases po; cases pa; auto simp: list_all_iff name_char_def dropWhile_append)
  moreover have "\<not> prefix ''://'' ?rest"
  proof (cases po)
    case None
    then show ?thesis by (cases pa) simp_all
  next
    case (Some p)
    with assms obtain c p' where "p = c # p'" "name_char c" by (cases p) (auto simp: wf_target_def)
    then show ?thesis by (auto simp: Some name_char_def)
  qed
  ultimately have "\<not> prefix ''https://'' (name @ ?rest) \<and> \<not> prefix ''http://'' (name @ ?rest)"
    using scheme_stop [of "name @ ?rest"] unfolding d by blast
  then show ?thesis by (simp add: strip_scheme_def starts_with_def target_text_def)
qed

lemma strip_scheme_text:
  assumes "wf_target sc name po pa"
  shows "strip_scheme (target_text sc name po pa) tls = (target_text None name po pa, case sc of None \<Rightarrow> tls | Some b \<Rightarrow> b)"
proof (cases sc)
  case None
  then show ?thesis using no_scheme assms by simp
next
  case (Some b)
  then show ?thesis by (cases b) (simp_all add: strip_scheme_def starts_with_def target_text_def)
qed

lemma cut_path_text:
  assumes "wf_target sc name po pa"
  shows "cut_path (target_text None name po pa) = name @ port_text po"
proof -
  have no: "CHR ''/'' \<notin> set (name @ port_text po)"
    using assms by (cases po) (auto simp: wf_target_def name_char_def list_all_iff)
  show ?thesis
  proof (cases pa)
    case None
    have "str_find (name @ port_text po) ''/'' = None" using no by (simp only: str_find_char_None) simp
    then show ?thesis by (simp add: None target_text_def cut_path_def)
  next
    case (Some q)
    have "str_find ((name @ port_text po) @ CHR ''/'' # q) ''/'' = Some (length (name @ port_text po))"
      using no by (rule str_find_char_first)
    then show ?thesis by (simp add: Some target_text_def cut_path_def substr_def)
  qed
qed

lemma cut_port_text:
  assumes "wf_target sc name po pa"
  shows "cut_port (name @ port_text po) port = (name, case po of None \<Rightarrow> port | Some p \<Rightarrow> p)"
proof (cases po)
  case None
  have "CHR '':'' \<notin> set (rev name)" using assms by (auto simp: wf_target_def name_char_def list_all_iff)
  then have "str_find (rev name) '':'' = None" by (simp only: str_find_char_None) simp
  then show ?thesis by (simp add: None cut_port_def str_rfind_char_def)
next
  case (Some p)
  have "CHR '':'' \<notin> set (rev p)" "CHR '']'' \<notin> set (name @ CHR '':'' # p)"
    using assms by (auto simp: wf_target_def name_char_def list_all_iff Some)
  then have "str_find (rev p @ CHR '':'' # rev name) '':'' = Some (length p)"
    "str_find (name @ CHR '':'' # p) '']'' = None"
    using str_find_char_first [of "CHR '':''" "rev p"] by (simp_all add: str_find_char_None)
  then show ?thesis by (simp add: Some cut_port_def str_rfind_char_def substr_def)
qed

lemma target_text_ends:
  assumes "wf_target sc name po pa"
  shows "target_text sc name po pa \<noteq> [] \<and> \<not> is_blank (hd (target_text sc name po pa))
     \<and> \<not> is_blank (last (target_text sc name po pa))"
proof -
  have h: "\<not> is_blank (hd name)" "\<not> is_blank (last name)" "name \<noteq> []"
    using assms by (auto simp: wf_target_def list_all_iff name_char_def)
  have "\<not> is_blank (hd (target_text sc name po pa))"
    using h by (cases sc) (auto simp: target_text_def is_blank_def hd_append)
  moreover have "\<not> is_blank (last (target_text sc name po pa))"
  proof -
    have sl: "\<not> is_blank CHR ''/''" by (simp add: is_blank_def)
    have p: "p \<noteq> [] \<and> \<not> is_blank (last p)" if "po = Some p" for p
      using assms that by (auto simp: wf_target_def list_all_iff name_char_def)
    have q: "q = [] \<or> \<not> is_blank (last q)" if "pa = Some q" for q using assms that by (simp add: wf_target_def)
    have "last (target_text sc name po pa) = last (name @ port_text po @ path_text pa)" using h(3) by (simp add: target_text_def)
    also have "\<not> is_blank \<dots>"
      using h(2,3) p q sl by (cases po; cases pa) (auto simp only: port_text.simps path_text.simps append_Nil2 last_append
        last.simps list.simps split: if_splits)
    finally show ?thesis .
  qed
  ultimately show ?thesis using h(3) by (simp add: target_text_def)
qed

section \<open>Reading until the end\<close>

fun read_ends :: "read_result \<Rightarrow> bool" where
  "read_ends ReadError = True"
| "read_ends (Chunk buf) = (buf = [])"

fun read_data :: "read_result \<Rightarrow> string" where
  "read_data ReadError = []"
| "read_data (Chunk buf) = buf"

lemma read_loop_ends:
  assumes "read_loop reads i r = Some y"
  shows "\<exists>n. read_ends (reads n)"
proof (rule read_loop.raw_induct [where P = "\<lambda>reads i r y. \<exists>n. read_ends (reads n)", OF _ assms])
  fix f :: "(nat \<Rightarrow> read_result) \<Rightarrow> nat \<Rightarrow> string \<Rightarrow> string option"
    and reads :: "nat \<Rightarrow> read_result" and i :: nat and r y :: string
  assume "\<And>reads i r y. f reads i r = Some y \<Longrightarrow> \<exists>n. read_ends (reads n)"
    and "(case reads i of ReadError \<Rightarrow> Some r
          | Chunk buf \<Rightarrow> if buf = [] then Some r else f reads (i + 1) (r @ buf)) = Some y"
  then show "\<exists>n. read_ends (reads n)"
    by (cases "reads i") (auto split: if_splits intro: exI [of _ i])
qed

lemma read_loop_to:
  "(\<And>j. j < k \<Longrightarrow> \<not> read_ends (reads (i + j))) \<Longrightarrow> read_ends (reads (i + k)) \<Longrightarrow>
     read_loop reads i r = Some (r @ concat (map (\<lambda>j. read_data (reads j)) [i..<i + k]))"
proof (induction k arbitrary: i r)
  case 0
  then show ?case by (subst read_loop.simps) (cases "reads i", auto)
next
  case (Suc k)
  obtain buf where b: "reads i = Chunk buf" "buf \<noteq> []"
    using Suc.prems(1) [of 0] by (cases "reads i") auto
  have "read_loop reads (i + 1) (r @ buf)
      = Some ((r @ buf) @ concat (map (\<lambda>j. read_data (reads j)) [i + 1..<(i + 1) + k]))"
    using Suc.prems(1) [of "Suc _"] Suc.prems(2) by (intro Suc.IH) auto
  moreover have "[i..<i + Suc k] = i # [i + 1..<(i + 1) + k]" by (simp add: upt_rec)
  ultimately show ?case using b by (subst read_loop.simps) simp
qed

lemma read_loop_result:
  "read_loop reads 0 [] = (if \<exists>n. read_ends (reads n)
     then Some (concat (map (\<lambda>j. read_data (reads j)) [0..<LEAST n. read_ends (reads n)])) else None)"
proof (cases "\<exists>n. read_ends (reads n)")
  case True
  let ?n = "LEAST n. read_ends (reads n)"
  have "read_ends (reads ?n)" using True by (rule LeastI_ex)
  then have "read_loop reads 0 [] = Some ([] @ concat (map (\<lambda>j. read_data (reads j)) [0..<0 + ?n]))"
    by (intro read_loop_to) (auto dest: not_less_Least)
  then show ?thesis using True by simp
next
  case False
  then have "read_loop reads 0 [] = None" using read_loop_ends [of reads 0 "[]"] by (cases "read_loop reads 0 []") blast+
  then show ?thesis using False by simp
qed


section \<open>One request at a time\<close>

definition job_ok :: "rp_job \<Rightarrow> bool" where
  "job_ok job \<longleftrightarrow> jb_port job \<noteq> [] \<and> complete_request (jb_host job) (jb_request job)"

definition single_flight :: "rp_system \<Rightarrow> bool" where
  "single_flight y \<longleftrightarrow> (if rp_isSending (sy_manager y)
     then \<exists>job. sy_jobs y = [job] \<and> job_ok job else sy_jobs y = [])"

lemma sent_jobs_append [simp]: "sent_jobs (xs @ ys) = sent_jobs xs @ sent_jobs ys"
  by (induction xs rule: sent_jobs.induct) simp_all

lemma sent_notify [simp]: "sent_jobs (rp_notify s) = []" "sent_jobs (switchToRepeaterTab s) = []"
  by (simp_all add: rp_notify_def switchToRepeaterTab_def)

lemma target_port: "fst (snd (rp_target h p t)) \<noteq> []"
  by (simp add: rp_target_def Let_def)

lemma execute_idle:
  assumes "\<not> rp_isSending s"
  shows "rp_isSending (snd (executeRequest s)) \<and> (\<exists>job. sent_jobs (fst (executeRequest s)) = [job] \<and> job_ok job)"
  using assms target_port [of "rp_host s" "rp_port s" "rp_isHttps s"] clean_request_complete
  by (simp add: executeRequest_def Let_def job_ok_def split_beta)

lemma execute_busy: "rp_isSending s \<Longrightarrow> executeRequest s = ([], s)"
  by (simp add: executeRequest_def)

lemma finish_idle: "\<not> rp_isSending (snd (finish_request ex job r s))"
  by (simp add: finish_request_def Let_def)

lemma call_keeps_flight:
  assumes "single_flight y"
  shows "single_flight \<lparr>sy_manager = snd (rp_call p (sy_manager y)), sy_jobs = sy_jobs y @ sent_jobs (fst (rp_call p (sy_manager y)))\<rparr>"
proof (cases "p = RpExecute")
  case True
  then show ?thesis using assms execute_idle [of "sy_manager y"] execute_busy [of "sy_manager y"]
    by (cases "rp_isSending (sy_manager y)") (auto simp: single_flight_def)
next
  case False
  then have "rp_isSending (snd (rp_call p (sy_manager y))) = rp_isSending (sy_manager y)"
    "sent_jobs (fst (rp_call p (sy_manager y))) = []"
    by (cases p; simp add: setTarget_def setRequest_def setRawRequest_def setRawResponse_def
        rp_setNotifyCallback_def setSwitchTabCallback_def Let_def)+
  with assms show ?thesis by (simp add: single_flight_def)
qed

lemma step_call: "(\<And>i ex. p \<noteq> RpFinish i ex) \<Longrightarrow> snd (rp_step p y)
    = \<lparr>sy_manager = snd (rp_call p (sy_manager y)), sy_jobs = sy_jobs y @ sent_jobs (fst (rp_call p (sy_manager y)))\<rparr>"
  by (cases p) (auto simp: split_beta simp del: rp_call.simps)

lemma step_keeps_flight: "single_flight y \<Longrightarrow> single_flight (snd (rp_step p y))"
proof (cases "\<exists>i ex. p = RpFinish i ex")
  case True
  then show "single_flight y \<Longrightarrow> ?thesis"
    using finish_idle by (auto simp: single_flight_def split_beta split: option.split if_splits)
next
  case False
  then show "single_flight y \<Longrightarrow> ?thesis" using step_call [of p y] call_keeps_flight [of y p] by simp
qed

lemma run_keeps_flight: "single_flight y \<Longrightarrow> single_flight (rp_run ps y)"
  by (induction ps arbitrary: y) (simp_all add: step_keeps_flight del: rp_step.simps)

section \<open>Properties\<close>


text \<open>
  Targets are taken apart as URLs are: from a host field with blanks around it, an optional scheme, a
  name, an optional port and an optional path, the request goes to that name; at the port of the text, else
  that of the port field, else the scheme's; with the scheme of the text, else that of the checkbox.
\<close>
theorem repeater_target_parsed:
  assumes "wf_target sc name po pa" "list_all is_blank b1" "list_all is_blank b2"
  shows "rp_target (b1 @ target_text sc name po pa @ b2) port tls =
    (let t = (case sc of None \<Rightarrow> tls | Some b \<Rightarrow> b);
         q = (case po of None \<Rightarrow> port | Some q \<Rightarrow> q)
     in (name, if q = [] then (if t then ''443'' else ''80'') else q, t))"
proof -
  have "trim_blanks (b1 @ target_text sc name po pa @ b2) = target_text sc name po pa"
    using assms target_text_ends by (intro trim_blanks_text) blast+
  then show ?thesis
    by (simp add: rp_target_def strip_scheme_text [OF assms(1)] cut_path_text [OF assms(1)] cut_port_text [OF assms(1)])
qed

lemma repeater_target_parsed_witness:
  "rp_target ('' '' @ target_text (Some True) ''example.com'' (Some ''8443'') (Some ''a/b'') @ [TAB]) ''80'' False
     = (''example.com'', ''8443'', True)"
  by (subst repeater_target_parsed) (simp_all add: wf_target_def name_char_def is_blank_def)

text \<open>
  C27: The sending thread returns exactly when a call throws or some read fails or delivers nothing, and
  then with everything read before. A peer that keeps sending is read for ever, so that the
  flag stays set and no further request can be sent.
\<close>
theorem repeater_reads_until_close:
  "run_exchange ex job =
     (case exchange_error ex job of
        Some e \<Rightarrow> Some ([], e)
      | None \<Rightarrow>
          if \<exists>n. read_ends (ex_reads ex n)
          then Some (concat (map (\<lambda>i. read_data (ex_reads ex i)) [0..<LEAST n. read_ends (ex_reads ex n)]), [])
          else None)"
  by (simp add: run_exchange_def read_loop_result split: option.split)

text \<open>A port behind an address in brackets is not taken out of the host.\<close>

lemma bracketed_port_stays:
  "rp_target ''[::1]:8080'' ''443'' True = (''[::1]:8080'', ''443'', True)"
  by code_simp

text \<open>Sanitising the stored target again changes it when the host has several colons.\<close>

lemma target_not_stable:
  "rp_target ''a:1:2'' [] False = (''a:1'', ''2'', False)" "rp_target ''a:1'' ''2'' False = (''a'', ''1'', False)"
  by code_simp+

end
