(* ===== verification/Stores.thy ===== *)
theory Stores
  imports Prelude
begin

text \<open>
  The storage of captured traffic, \<open>src/src/storage\<close>: the interface \<open>Store\<close>, as the locales
  \<open>store_reads\<close> (what reading promises) and \<open>store\<close> (what saving promises), and its implementations
  \<open>MemoryStore\<close> and \<open>SqliteStore\<close>. Ids are 64-bit words. SQLite is a parameter: what opening a
  database yields and what executing a statement does to it.
\<close>

section \<open>The interface\<close>

record proxy_entry =
  pe_id :: "64 word"
  pe_method :: string
  pe_host :: string
  pe_url :: string
  pe_statusCode :: int
  pe_responseLen :: nat
  pe_timestamp :: string
  pe_rawRequest :: string
  pe_rawResponse :: string

definition ProxyEntry :: proxy_entry where
  "ProxyEntry = \<lparr>pe_id = 0, pe_method = [], pe_host = [], pe_url = [], pe_statusCode = 0, pe_responseLen = 0,
     pe_timestamp = [], pe_rawRequest = [], pe_rawResponse = []\<rparr>"

definition with_id :: "64 word \<Rightarrow> proxy_entry \<Rightarrow> proxy_entry" where
  "with_id i e = e\<lparr>pe_id := i\<rparr>"

lemma find_append: "find P (xs @ ys) = (case find P xs of None \<Rightarrow> find P ys | Some x \<Rightarrow> Some x)"
  by (induction xs) simp_all

locale store_reads =
  fixes list_entries :: "'s \<Rightarrow> proxy_entry list"
    and get_entry :: "64 word \<Rightarrow> 's \<Rightarrow> proxy_entry option"
    and clear_entries :: "'s \<Rightarrow> 's"
  assumes get_list: "get_entry i s = find (\<lambda>e. pe_id e = i) (list_entries s)"
    and list_clear: "list_entries (clear_entries s) = []"
begin

lemma get_cleared: "get_entry i (clear_entries s) = None"
  by (simp add: get_list list_clear)

lemma get_listed: "get_entry i s = Some e \<Longrightarrow> e \<in> set (list_entries s) \<and> pe_id e = i"
  by (auto simp: get_list find_Some_iff)

lemma get_missing: "get_entry i s = None \<longleftrightarrow> i \<notin> pe_id ` set (list_entries s)"
  by (auto simp: get_list find_None_iff)

end

text \<open>Saving appends; an entry without an id gets the next one.\<close>

locale store = store_reads +
  fixes save_entry :: "proxy_entry \<Rightarrow> 's \<Rightarrow> 's"
    and next_id :: "'s \<Rightarrow> 64 word"
  assumes list_save: "list_entries (save_entry e s)
      = list_entries s @ [if pe_id e = 0 then with_id (next_id s) e else e]"
    and next_save: "next_id (save_entry e s) = (if pe_id e = 0 then next_id s + 1 else next_id s)"
    and next_clear: "next_id (clear_entries s) = 1"
begin

lemma get_saved_new: "pe_id e = 0 \<Longrightarrow> get_entry (next_id s) s = None \<Longrightarrow>
    get_entry (next_id s) (save_entry e s) = Some (with_id (next_id s) e)"
  by (simp add: get_list list_save with_id_def find_append)

lemma get_saved_other: "get_entry i s = Some e' \<Longrightarrow> get_entry i (save_entry e s) = Some e'"
  by (simp add: get_list list_save find_append)

text \<open>Entries saved without ids into a cleared store are numbered from one.\<close>

lemma list_saves:
  "list_entries (fold (\<lambda>e. save_entry (with_id 0 e)) es s)
     = list_entries s @ map2 (\<lambda>k e. with_id (next_id s + word_of_nat k) e) [0..<length es] es
   \<and> next_id (fold (\<lambda>e. save_entry (with_id 0 e)) es s) = next_id s + word_of_nat (length es)"
proof (induction es rule: rev_induct)
  case (snoc e es)
  have "with_id i (with_id 0 e) = with_id i e" for i by (simp add: with_id_def)
  with snoc show ?case by (simp add: list_save next_save with_id_def add.assoc)
qed simp

lemma get_saves:
  assumes "k < length es" "length es < 2 ^ 64"
  shows "get_entry (word_of_nat (Suc k)) (fold (\<lambda>e. save_entry (with_id 0 e)) es (clear_entries s))
    = Some (with_id (word_of_nat (Suc k)) (es ! k))"
proof -
  let ?l = "map2 (\<lambda>k e. with_id (1 + word_of_nat k) e) [0..<length es] es"
  have "list_entries (fold (\<lambda>e. save_entry (with_id 0 e)) es (clear_entries s)) = ?l"
    using list_saves [of es "clear_entries s"] by (simp add: list_clear next_clear)
  moreover have "find (\<lambda>e. pe_id e = word_of_nat (Suc k)) ?l = Some (?l ! k)"
  proof -
    have "pe_id (?l ! j) = word_of_nat (Suc j)" if "j < length es" for j using that by (simp add: with_id_def)
    moreover have "(word_of_nat (Suc j) :: 64 word) \<noteq> word_of_nat (Suc k)" if "j < k" for j
    proof -
      have "unat (word_of_nat (Suc j) :: 64 word) = Suc j" "unat (word_of_nat (Suc k) :: 64 word) = Suc k"
        using that assms by (simp_all add: unat_of_nat del: of_nat_Suc)
      with that show ?thesis by (metis nat.inject less_irrefl)
    qed
    ultimately show ?thesis using assms(1) by (auto simp: find_Some_iff intro!: exI [of _ k])
  qed
  ultimately show ?thesis using assms(1) by (simp add: get_list)
qed

end

section \<open>MemoryStore\<close>

record memory_store =
  mem_entries :: "proxy_entry list"
  mem_nextId :: "64 word"

definition MemoryStore :: memory_store where
  "MemoryStore = \<lparr>mem_entries = [], mem_nextId = 1\<rparr>"

definition mem_save :: "proxy_entry \<Rightarrow> memory_store \<Rightarrow> memory_store" where
  "mem_save entry s =
     (if pe_id entry = 0
      then s\<lparr>mem_entries := mem_entries s @ [with_id (mem_nextId s) entry], mem_nextId := mem_nextId s + 1\<rparr>
      else s\<lparr>mem_entries := mem_entries s @ [entry]\<rparr>)"

definition mem_list :: "memory_store \<Rightarrow> proxy_entry list" where
  "mem_list s = mem_entries s"

definition mem_get :: "64 word \<Rightarrow> memory_store \<Rightarrow> proxy_entry option" where
  "mem_get i s = find (\<lambda>e. pe_id e = i) (mem_entries s)"

definition mem_clear :: "memory_store \<Rightarrow> memory_store" where
  "mem_clear s = s\<lparr>mem_entries := [], mem_nextId := 1\<rparr>"

interpretation mem: store mem_list mem_get mem_clear mem_save mem_nextId
  by unfold_locales (simp_all add: mem_list_def mem_get_def mem_clear_def mem_save_def)

section \<open>SqliteStore\<close>

record 'db sqlite =
  sq_open :: "string \<Rightarrow> 'db option"
  sq_exec :: "string \<Rightarrow> 'db \<Rightarrow> 'db"

definition create_table :: string where
  "create_table = concat [''CREATE TABLE IF NOT EXISTS requests ('', ''  id          INTEGER PRIMARY KEY AUTOINCREMENT,'',
     ''  method      TEXT,'', ''  host        TEXT,'', ''  url         TEXT,'', ''  status_code INTEGER,'',
     ''  resp_len    INTEGER,'', ''  timestamp   TEXT,'', ''  raw_request BLOB,'', ''  raw_response BLOB'', '');'']"

text \<open>Opening throws a \<open>runtime_error\<close> with its text when the database cannot be opened.\<close>

definition SqliteStore :: "'db sqlite \<Rightarrow> string \<Rightarrow> string + 'db" where
  "SqliteStore q dbPath =
     (case sq_open q dbPath of
        None \<Rightarrow> Inl (''Cannot open database: '' @ dbPath)
      | Some db \<Rightarrow> Inr (sq_exec q create_table db))"

definition sql_save :: "proxy_entry \<Rightarrow> 'db \<Rightarrow> 'db" where
  "sql_save entry db = db"

definition sql_list :: "'db \<Rightarrow> proxy_entry list" where
  "sql_list db = []"

definition sql_get :: "64 word \<Rightarrow> 'db \<Rightarrow> proxy_entry option" where
  "sql_get i db = None"

definition sql_clear :: "'db sqlite \<Rightarrow> 'db \<Rightarrow> 'db" where
  "sql_clear q db = sq_exec q ''DELETE FROM requests;'' db"

text \<open>The contract of reading holds of it, as nothing can ever be read; that of saving does not.\<close>

interpretation sql: store_reads "sql_list :: 'db \<Rightarrow> proxy_entry list" sql_get "sql_clear q" for q :: "'db sqlite"
  by unfold_locales (simp_all add: sql_list_def sql_get_def)

lemma sqlite_saves_nothing:
  "\<not> store sql_list sql_get (sql_clear q) (sql_save :: proxy_entry \<Rightarrow> 'db \<Rightarrow> 'db) next_id"
proof
  assume "store sql_list sql_get (sql_clear q) (sql_save :: proxy_entry \<Rightarrow> 'db \<Rightarrow> 'db) next_id"
  from store.list_save [OF this] show False by (simp add: sql_list_def)
qed

section \<open>Properties\<close>

text \<open>
  Traffic saved without ids is found again under its number. After clearing, fewer than \<open>2^64\<close> such
  entries are listed in the order they were saved, numbered from one, and \<open>get\<close> with the number of an
  entry yields that entry.
\<close>
theorem memory_store_numbers_entries:
  assumes "length es < 2 ^ 64" "k < length es"
  shows "mem_get (word_of_nat (Suc k)) (fold (\<lambda>e. mem_save (with_id 0 e)) es (mem_clear s))
      = Some (with_id (word_of_nat (Suc k)) (es ! k))
    \<and> mem_list (fold (\<lambda>e. mem_save (with_id 0 e)) es (mem_clear s))
      = map2 (\<lambda>k e. with_id (1 + word_of_nat k) e) [0..<length es] es"
  using mem.get_saves [OF assms(2,1), of s] mem.list_saves [of es "mem_clear s"]
  by (simp add: mem.list_clear mem.next_clear del: of_nat_Suc)

lemma memory_store_numbers_entries_witness:
  "mem_get (word_of_nat (Suc 1)) (fold (\<lambda>e. mem_save (with_id 0 e))
       [ProxyEntry\<lparr>pe_host := ''a''\<rparr>, ProxyEntry\<lparr>pe_host := ''b''\<rparr>] (mem_clear MemoryStore))
     = Some (with_id (word_of_nat (Suc 1)) (ProxyEntry\<lparr>pe_host := ''b''\<rparr>))"
  using memory_store_numbers_entries [of "[ProxyEntry\<lparr>pe_host := ''a''\<rparr>, ProxyEntry\<lparr>pe_host := ''b''\<rparr>]" 1 MemoryStore]
  by simp

text \<open>
  An entry that brings its own id does not advance the numbering, so that the next entry without one gets
  the same id and cannot be read back.
\<close>

lemma own_id_is_taken_again:
  "mem_get 1 (mem_save (ProxyEntry\<lparr>pe_host := ''b''\<rparr>) (mem_save (ProxyEntry\<lparr>pe_id := 1, pe_host := ''a''\<rparr>) MemoryStore))
     = Some (ProxyEntry\<lparr>pe_id := 1, pe_host := ''a''\<rparr>)"
  "map pe_id (mem_list (mem_save (ProxyEntry\<lparr>pe_host := ''b''\<rparr>)
     (mem_save (ProxyEntry\<lparr>pe_id := 1, pe_host := ''a''\<rparr>) MemoryStore))) = [1, 1]"
  by (simp_all add: MemoryStore_def ProxyEntry_def mem_save_def mem_get_def mem_list_def with_id_def)

end
