(* ===== verification/Utilities.thy ===== *)
theory Utilities
  imports Encoding
begin

text \<open>
  The helpers of \<open>src/src/util\<close>: \<open>StringUtils\<close>, the log (\<open>Logger\<close>) and the clipboard (\<open>Clipboard\<close>).
  Outside the program, and so parameters: the time of a log entry, whether a file can be opened, the
  results of \<open>pipe\<close>, \<open>fork\<close> and of each \<open>write\<close>, and the environment variable \<open>DISPLAY\<close>.
\<close>

section \<open>StringUtils\<close>

definition toLower :: "string \<Rightarrow> string" where
  "toLower s = map tolower s"

definition blanks :: string where
  "blanks = '' '' @ [TAB, CR, LF]"

text \<open>\<open>find_first_not_of\<close> and \<open>find_last_not_of\<close>.\<close>

definition first_not_of :: "string \<Rightarrow> string \<Rightarrow> nat option" where
  "first_not_of s cs =
     (let n = length (takeWhile (\<lambda>c. c \<in> set cs) s) in if n < length s then Some n else None)"

definition last_not_of :: "string \<Rightarrow> string \<Rightarrow> nat option" where
  "last_not_of s cs = map_option (\<lambda>i. length s - 1 - i) (first_not_of (rev s) cs)"

definition trim :: "string \<Rightarrow> string" where
  "trim s =
     (case first_not_of s blanks of
        None \<Rightarrow> []
      | Some b \<Rightarrow> (case last_not_of s blanks of None \<Rightarrow> drop b s | Some e \<Rightarrow> substr s b (e - b + 1)))"

function split_at :: "string \<Rightarrow> char \<Rightarrow> nat \<Rightarrow> string list" where
  "split_at s delim start =
     (case str_find_from s [delim] start of
        None \<Rightarrow> [drop start s]
      | Some pos \<Rightarrow> substr s start (pos - start) # split_at s delim (pos + 1))"
  by pat_completeness auto

termination
proof (relation "measure (\<lambda>(s, delim, start). Suc (length s) - start)", simp)
  fix s :: string and delim :: char and start pos :: nat
  assume "str_find_from s [delim] start = Some pos"
  then obtain i where "start \<le> length s" "str_find (drop start s) [delim] = Some i" "pos = start + i"
    by (auto simp: str_find_from_def split: if_splits)
  then show "((s, delim, pos + 1), (s, delim, start)) \<in> measure (\<lambda>(s, delim, start). Suc (length s) - start)"
    by (auto simp: str_find_char_Some)
qed

declare split_at.simps [simp del]

definition split_string :: "string \<Rightarrow> char \<Rightarrow> string list" where
  "split_string s delim = split_at s delim 0"

fun join_with :: "char \<Rightarrow> string list \<Rightarrow> string" where
  "join_with c [] = []"
| "join_with c [p] = p"
| "join_with c (p # q # ps) = p @ c # join_with c (q # ps)"

lemma split_at_ne: "split_at s c i \<noteq> []"
  by (subst split_at.simps) (simp split: option.split)

lemma split_at_parts:
  "i \<le> length s \<Longrightarrow> join_with c (split_at s c i) = drop i s \<and> (\<forall>p \<in> set (split_at s c i). c \<notin> set p)"
proof (induction s c i rule: split_at.induct)
  case (1 s c i)
  show ?case
  proof (cases "str_find (drop i s) [c]")
    case None
    then have "c \<notin> set (drop i s)" by (simp only: str_find_char_None) simp
    with None "1.prems" show ?thesis by (simp add: split_at.simps [of s c i] str_find_from_def)
  next
    case (Some k)
    then have k: "k < length s - i" "drop i s ! k = c" "c \<notin> set (take k (drop i s))" by (simp_all add: str_find_char_Some)
    have f: "str_find_from s [c] i = Some (i + k)" using Some "1.prems" by (simp add: str_find_from_def)
    have sp: "split_at s c i = take k (drop i s) # split_at s c (i + k + 1)"
      by (simp add: split_at.simps [of s c i] f substr_def)
    from "1.IH" [OF f] k have ih: "join_with c (split_at s c (i + k + 1)) = drop (i + k + 1) s"
      "\<forall>p \<in> set (split_at s c (i + k + 1)). c \<notin> set p" by auto
    have d: "drop i s = take k (drop i s) @ c # drop (i + k + 1) s"
      using k(1) id_take_nth_drop [of k "drop i s"] k(2) by (simp add: add.commute)
    obtain q qs where q: "split_at s c (i + k + 1) = q # qs" using split_at_ne by (metis list.exhaust)
    have "join_with c (split_at s c i) = take k (drop i s) @ c # drop (i + k + 1) s"
      using ih(1) unfolding sp q by simp
    with d ih(2) k(3) sp show ?thesis by (simp only: set_simps ball_simps insert_iff) auto
  qed
qed

text \<open>Splitting loses nothing: the parts contain no delimiter and joined by it are the text.\<close>

lemma split_join: "join_with c (split_string s c) = s \<and> (\<forall>p \<in> set (split_string s c). c \<notin> set p)"
  using split_at_parts [of 0 s c] by (simp add: split_string_def)

lemma first_not_of_dropWhile: "first_not_of s cs = Some b \<Longrightarrow> drop b s = dropWhile (\<lambda>c. c \<in> set cs) s"
  by (auto simp: first_not_of_def Let_def dropWhile_eq_drop split: if_splits)

section \<open>Logger\<close>

datatype log_level = DEBUG | INFO | WARN | ERROR

fun level_rank :: "log_level \<Rightarrow> nat" where
  "level_rank DEBUG = 0"
| "level_rank INFO = 1"
| "level_rank WARN = 2"
| "level_rank ERROR = 3"

text \<open>The enumerators are compared by their order.\<close>

instantiation log_level :: linorder
begin

definition "l \<le> l' \<longleftrightarrow> level_rank l \<le> level_rank l'"
definition "l < l' \<longleftrightarrow> level_rank l < level_rank l'"

instance
proof
  fix x y :: log_level
  show "x \<le> y \<Longrightarrow> y \<le> x \<Longrightarrow> x = y"
    by (cases x; cases y) (simp_all add: less_eq_log_level_def)
qed (auto simp: less_eq_log_level_def less_log_level_def)

end

record logger =
  lg_level :: log_level
  lg_file :: "string option"
  lg_written :: "(string \<times> string) list"

text \<open>The constructor and \<open>setLogFile\<close> open a file for appending, which may fail.\<close>

definition open_log :: "(string \<Rightarrow> bool) \<Rightarrow> string \<Rightarrow> logger \<Rightarrow> logger" where
  "open_log opens path s = s\<lparr>lg_file := (if opens path then Some path else None)\<rparr>"

definition Logger :: "(string \<Rightarrow> bool) \<Rightarrow> logger" where
  "Logger opens = open_log opens ''burptui.log'' \<lparr>lg_level = DEBUG, lg_file = None, lg_written = []\<rparr>"

definition setLevel :: "log_level \<Rightarrow> logger \<Rightarrow> logger" where
  "setLevel l s = s\<lparr>lg_level := l\<rparr>"

definition setLogFile :: "(string \<Rightarrow> bool) \<Rightarrow> string \<Rightarrow> logger \<Rightarrow> logger" where
  "setLogFile opens path s = open_log opens path s"

definition level_tag :: "log_level \<Rightarrow> string" where
  "level_tag l = (case l of DEBUG \<Rightarrow> ''DEBUG'' | WARN \<Rightarrow> ''WARN'' | ERROR \<Rightarrow> ''ERROR'' | INFO \<Rightarrow> ''INFO'')"

definition log_message :: "string \<Rightarrow> log_level \<Rightarrow> string \<Rightarrow> logger \<Rightarrow> logger" where
  "log_message time l msg s =
     (if l < lg_level s then s
      else case lg_file s of
             None \<Rightarrow> s
           | Some path \<Rightarrow>
               s\<lparr>lg_written := lg_written s @ [(path, time @ '' ['' @ level_tag l @ ''] '' @ msg @ [LF])]\<rparr>)"

text \<open>Only messages of the level or above are written.\<close>

lemma log_filters:
  "lg_file s = Some path \<Longrightarrow> l \<noteq> lg_level s \<Longrightarrow>
     lg_written (log_message time l msg s) = lg_written s \<longleftrightarrow> l < lg_level s"
  by (simp add: log_message_def)

section \<open>Clipboard\<close>

text \<open>
  Results of the system calls: whether there is a pipe; what \<open>fork\<close> returns in the parent; and what each
  \<open>write\<close> to the pipe returns.
\<close>

record clip_env =
  cl_pipe :: bool
  cl_fork :: bool
  cl_write :: "nat \<Rightarrow> int"
  cl_display :: "string option"

text \<open>The writing loop from call \<open>i\<close> on: the bytes that enter the pipe.\<close>

function write_loop :: "(nat \<Rightarrow> int) \<Rightarrow> string \<Rightarrow> nat \<Rightarrow> nat \<Rightarrow> string" where
  "write_loop w t i written =
     (if written < length t
      then if w i \<le> 0 then []
           else take (nat (w i)) (drop written t) @ write_loop w t (i + 1) (written + nat (w i))
      else [])"
  by pat_completeness auto

termination
  by (relation "measure (\<lambda>(w, t, i, written). length t - written)") auto

declare write_loop.simps [simp del]

text \<open>The command the detached grandchild becomes: the first that exists.\<close>

definition clip_commands :: "clip_env \<Rightarrow> string list list" where
  "clip_commands en =
     (case cl_display en of
        Some (c # d) \<Rightarrow> [[''xclip'', ''-selection'', ''clipboard''], [''xsel'', ''--clipboard'', ''--input'']]
      | _ \<Rightarrow> [[''wl-copy'']])"

datatype clip_effect = Terminal string | Piped "string list list" string

definition dispatchSystemClipboard :: "clip_env \<Rightarrow> string \<Rightarrow> clip_effect list" where
  "dispatchSystemClipboard en t =
     (if \<not> cl_pipe en then []
      else if \<not> cl_fork en then []
      else [Piped (clip_commands en) (if t \<noteq> [] then write_loop (cl_write en) t 0 0 else [])])"

definition osc52 :: "string \<Rightarrow> string" where
  "osc52 t = [CHR 0x1B] @ '']52;c;'' @ base64Encode t @ [CHR 0x07]"

definition clip_copy :: "clip_env \<Rightarrow> string \<Rightarrow> bool \<times> clip_effect list" where
  "clip_copy en t =
     (if t = [] then (False, [])
      else (True, Terminal (osc52 t) # dispatchSystemClipboard en t))"

lemma write_loop_step:
  "written < length t \<Longrightarrow> 0 < w i \<Longrightarrow>
     write_loop w t i written = take (nat (w i)) (drop written t) @ write_loop w t (i + 1) (written + nat (w i))"
  by (simp add: write_loop.simps [of w t i written])

lemma write_loop_stop: "\<not> (written < length t \<and> 0 < w i) \<Longrightarrow> write_loop w t i written = []"
  by (subst write_loop.simps) auto

lemma drop_cut: "drop i t = take k (drop i t) @ drop (i + k) t"
  using append_take_drop_id [of k "drop i t"] by (simp add: add.commute)

lemma write_loop_prefix: "prefix (write_loop w t i written) (drop written t)"
proof (induction w t i written rule: write_loop.induct)
  case (1 w t i written)
  show ?case
  proof (cases "written < length t \<and> 0 < w i")
    case True
    with "1.IH" have "prefix (write_loop w t (i + 1) (written + nat (w i))) (drop (written + nat (w i)) t)" by simp
    then have "prefix (take (nat (w i)) (drop written t) @ write_loop w t (i + 1) (written + nat (w i)))
        (take (nat (w i)) (drop written t) @ drop (written + nat (w i)) t)" by (rule same_prefix_prefix [THEN iffD2])
    then show ?thesis using True by (simp only: write_loop_step drop_cut [symmetric])
  qed (simp add: write_loop_stop)
qed

lemma write_loop_all: "(\<And>i. 0 < w i) \<Longrightarrow> write_loop w t i written = drop written t"
proof (induction w t i written rule: write_loop.induct)
  case (1 w t i written)
  show ?case
  proof (cases "written < length t")
    case True
    with 1 have "write_loop w t (i + 1) (written + nat (w i)) = drop (written + nat (w i)) t" by (simp add: not_le)
    then show ?thesis using True "1.prems" by (simp only: write_loop_step drop_cut [symmetric])
  qed (simp add: write_loop_stop)
qed

text \<open>The payload cannot end the escape sequence: it consists of printable characters.\<close>

definition b64_alphabet :: string where
  "b64_alphabet = kB64Chars @ ''=''"

lemma b64_reference_alphabet: "set (b64_reference s) \<subseteq> set b64_alphabet"
proof -
  have len: "length kB64Chars = 64" by (simp add: kB64Chars_def)
  have nth: "kB64Chars ! i \<in> set b64_alphabet" if "i < 64" for i
  proof -
    have "kB64Chars ! i \<in> set kB64Chars" by (rule nth_mem) (simp only: len that)
    then show ?thesis unfolding b64_alphabet_def set_append by (rule UnI1)
  qed
  have small: "byte_of c div 4 < 64" "byte_of c mod 4 * 16 < 64" "byte_of c mod 16 * 4 < 64" "byte_of c mod 64 < 64"
    "byte_of c mod 4 * 16 + byte_of d div 16 < 64" "byte_of c mod 16 * 4 + byte_of d div 64 < 64" for c d
  proof -
    have "byte_of c mod 4 < 4" "byte_of c mod 16 < 16" "byte_of c div 4 < 64" "byte_of d div 16 < 16" "byte_of d div 64 < 4"
      by (simp_all add: less_mult_imp_div_less)
    then show "byte_of c div 4 < 64" "byte_of c mod 4 * 16 < 64" "byte_of c mod 16 * 4 < 64" "byte_of c mod 64 < 64"
      "byte_of c mod 4 * 16 + byte_of d div 16 < 64" "byte_of c mod 16 * 4 + byte_of d div 64 < 64"
      by (linarith | simp)+
  qed
  have pad: "CHR ''='' \<in> set b64_alphabet" by (simp add: b64_alphabet_def)
  show ?thesis by (induction s rule: b64_reference.induct) (simp_all only: b64_reference.simps list.set set_append
        insert_subset Un_subset_iff empty_subsetI simp_thms nth small pad)
qed

lemma b64_alphabet_printable: "c \<in> set b64_alphabet \<Longrightarrow> 32 \<le> byte_of c \<and> byte_of c < 127"
proof -
  have "list_all (\<lambda>c. 32 \<le> byte_of c \<and> byte_of c < 127) b64_alphabet" by code_simp
  then show "c \<in> set b64_alphabet \<Longrightarrow> ?thesis" by (simp add: list_all_iff)
qed

section \<open>Properties\<close>

text \<open>
  Copying reaches its ends: for any text but the empty one the terminal gets exactly one OSC 52
  sequence, whose payload is printable (so that it cannot be ended early) and decodes to the text; and
  the loop that writes to the clipboard program ends whatever the writes return, having passed on a
  prefix of the text: all of it when no write fails.
\<close>
theorem clipboard_delivers:
  "clip_copy en [] = (False, [])
   \<and> (case clip_copy en (c # cs) of
        (ok, effects) \<Rightarrow> ok \<and> filter (\<lambda>e. case e of Terminal _ \<Rightarrow> True | _ \<Rightarrow> False) effects = [Terminal (osc52 (c # cs))])
   \<and> (\<exists>payload. osc52 t = [CHR 0x1B] @ '']52;c;'' @ payload @ [CHR 0x07] \<and> base64Decode payload = t
        \<and> list_all (\<lambda>c. 32 \<le> byte_of c \<and> byte_of c < 127) payload)
   \<and> prefix (write_loop w t 0 0) t
   \<and> (write_loop w t 0 0 = t \<or> (\<exists>i. w i \<le> 0))"
proof -
  have "list_all (\<lambda>c. 32 \<le> byte_of c \<and> byte_of c < 127) (base64Encode t)"
    using b64_reference_alphabet [of t] b64_alphabet_printable
    by (auto simp: list_all_iff base64Encode_reference)
  moreover have "write_loop w t 0 0 = t \<or> (\<exists>i. w i \<le> 0)"
    using write_loop_all [of w t 0 0] by (metis drop0 not_le)
  moreover have "prefix (write_loop w t 0 0) t" using write_loop_prefix [of w t 0 0] by simp
  ultimately show ?thesis
    by (auto simp: clip_copy_def dispatchSystemClipboard_def osc52_def base64_decode_encode)
qed

end
