(* ===== verification/HistoryTab.thy ===== *)
theory HistoryTab
  imports Queues ScrollableViewer RepeaterManager
begin

text \<open>
  The history of \<open>src/src/tui/HistoryTab.cpp\<close>: it drains the queue of transactions into the shared list
  of entries, keeps a menu label per entry and shows the selected entry in two viewers. The menu itself is
  a component of the interface library: it sets the selected index, which is a parameter of the events it
  handles. Calls of the repeater are effects.
\<close>

section \<open>Menu labels\<close>

definition pad_to :: "nat \<Rightarrow> string \<Rightarrow> string" where
  "pad_to n s = s @ replicate (n - length s) (CHR '' '')"

definition cut_to :: "nat \<Rightarrow> nat \<Rightarrow> string \<Rightarrow> string" where
  "cut_to n k s = (if length s > n then substr s 0 k @ ''...'' else s)"

definition BuildMenuLabel :: "http_transaction \<Rightarrow> string" where
  "BuildMenuLabel tx =
     (let idStr = pad_to 4 (CHR ''#'' # int_to_string (tx_id tx));
          meth = pad_to 7 (case tx_request tx of Some r \<Rightarrow> rq_method r | None \<Rightarrow> ''?'');
          statusStr = pad_to 3 (case tx_response tx of Some r \<Rightarrow> int_to_string (rs_statusCode r) | None \<Rightarrow> ''???'');
          proto = (if tx_is_https tx then ''HTTPS'' else ''HTTP '');
          host = pad_to 16 (cut_to 16 13 (tx_host tx));
          path = cut_to 22 19 (case tx_request tx of Some r \<Rightarrow> rq_url r | None \<Rightarrow> ''/'')
      in idStr @ '' '' @ meth @ '' ['' @ statusStr @ ''] '' @ proto @ '' '' @ host @ '' '' @ path)"

section \<open>State\<close>

record history =
  ht_queue :: "http_transaction tsqueue"
  ht_entries :: "http_transaction list"
  ht_labels :: "string list"
  ht_selected :: int
  ht_lastLoaded :: int
  ht_req :: viewer
  ht_res :: viewer

definition MakeHistoryTab :: "http_transaction tsqueue \<Rightarrow> http_transaction list \<Rightarrow> history" where
  "MakeHistoryTab queue entries = \<lparr>ht_queue = queue, ht_entries = entries, ht_labels = map BuildMenuLabel entries,
     ht_selected = 0, ht_lastLoaded = -1, ht_req = ScrollableViewer ''Request'', ht_res = ScrollableViewer ''Response''\<rparr>"

section \<open>Details\<close>

definition request_details :: "http_transaction \<Rightarrow> viewer \<Rightarrow> viewer" where
  "request_details tx v =
     (case tx_request tx of
        Some r \<Rightarrow> SetContent (FormatHttpRequestLines r (tx_is_https tx) (tx_host tx))
                    (FormatHttpRequestRaw r (tx_is_https tx) (tx_host tx)) v
      | None \<Rightarrow> SetContent [Line [''(No request data)'']] [] v)"

definition response_details :: "http_transaction \<Rightarrow> viewer \<Rightarrow> viewer" where
  "response_details tx v =
     (case tx_response tx of
        Some r \<Rightarrow> SetContent (FormatHttpResponseLines r) (FormatHttpResponseRaw r) v
      | None \<Rightarrow> SetContent [Line [''(Response pending...)'']] [] v)"

definition active_index :: "history \<Rightarrow> int" where
  "active_index s = (let n = int (length (ht_entries s)); i = (if ht_selected s < 0 then 0 else ht_selected s)
                     in if i \<ge> n then n - 1 else i)"

definition updateActiveDetails :: "history \<Rightarrow> history" where
  "updateActiveDetails s =
     (if ht_entries s = []
      then s\<lparr>ht_lastLoaded := -1, ht_req := SetContent [] [] (ht_req s), ht_res := SetContent [] [] (ht_res s)\<rparr>
      else let i = active_index s
           in if i \<noteq> ht_lastLoaded s
              then s\<lparr>ht_lastLoaded := i,
                     ht_req := request_details (ht_entries s ! nat i) (ht_req s),
                     ht_res := response_details (ht_entries s ! nat i) (ht_res s)\<rparr>
              else s)"

text \<open>The call of \<open>RepeaterManager::setRequest\<close> for the selected entry, if there is one.\<close>

definition sendToRepeater :: "history \<Rightarrow> (string \<times> string \<times> bool \<times> string) option" where
  "sendToRepeater s =
     (if ht_entries s = [] \<or> ht_selected s < 0 \<or> ht_selected s \<ge> int (length (ht_entries s)) then None
      else let tx = ht_entries s ! nat (ht_selected s)
           in case tx_request tx of
                None \<Rightarrow> None
              | Some r \<Rightarrow> Some (tx_host tx, int_to_string (tx_port tx), tx_is_https tx,
                             FormatHttpRequestRaw r (tx_is_https tx) (tx_host tx)))"

section \<open>Events\<close>

text \<open>
  \<open>HtPush\<close> is the network thread's push. \<open>HtMenu i\<close> is an event that the menu handles by selecting \<open>i\<close>:
  an arrow key when the menu has the focus, or a mouse event. \<open>HtRender\<close> draws into two boxes.
\<close>

datatype history_event =
    HtPush http_transaction | HtCustom | HtChar bool bool string | HtArrow int | HtMenu int
  | HtRequestEvent bool bool editor_event | HtResponseEvent bool bool editor_event | HtCopyRequest bool
  | HtCopyResponse bool | HtRender box box

definition drain :: "history \<Rightarrow> history" where
  "drain s =
     (let (newItems, q) = ts_tryPopAll (ht_queue s)
      in s\<lparr>ht_queue := q, ht_labels := ht_labels s @ map BuildMenuLabel newItems, ht_entries := ht_entries s @ newItems\<rparr>)"

definition copy_req :: "bool \<Rightarrow> history \<Rightarrow> history" where
  "copy_req copies s = s\<lparr>ht_req := snd (vw_CopyToClipboard copies (ht_req s))\<rparr>"

definition copy_res :: "bool \<Rightarrow> history \<Rightarrow> history" where
  "copy_res copies s = s\<lparr>ht_res := snd (vw_CopyToClipboard copies (ht_res s))\<rparr>"

definition on_char :: "bool \<Rightarrow> bool \<Rightarrow> string \<Rightarrow> history \<Rightarrow> history" where
  "on_char menuFocused copies t s =
     (if menuFocused \<and> t = ''j''
      then if ht_selected s + 1 < int (length (ht_entries s))
           then updateActiveDetails (s\<lparr>ht_selected := ht_selected s + 1\<rparr>) else s
      else if menuFocused \<and> t = ''k''
      then if ht_selected s > 0 then updateActiveDetails (s\<lparr>ht_selected := ht_selected s - 1\<rparr>) else s
      else if t = ''y'' \<and> \<not> menuFocused then copy_req copies s
      else if t = ''c'' \<and> \<not> menuFocused then copy_res copies s
      else s)"

fun history_step :: "history_event \<Rightarrow> history \<Rightarrow> history option" where
  "history_step (HtPush tx) s = Some (s\<lparr>ht_queue := ts_push tx (ht_queue s)\<rparr>)"
| "history_step HtCustom s = Some (updateActiveDetails (drain s))"
| "history_step (HtChar menuFocused copies t) s = Some (on_char menuFocused copies t s)"
| "history_step (HtArrow i) s = Some (updateActiveDetails (s\<lparr>ht_selected := i\<rparr>))"
| "history_step (HtMenu i) s = Some (s\<lparr>ht_selected := i\<rparr>)"
| "history_step (HtRequestEvent focused copies e) s =
     map_option (\<lambda>r. s\<lparr>ht_req := snd r\<rparr>) (vw_OnEvent focused copies e (ht_req s))"
| "history_step (HtResponseEvent focused copies e) s =
     map_option (\<lambda>r. s\<lparr>ht_res := snd r\<rparr>) (vw_OnEvent focused copies e (ht_res s))"
| "history_step (HtCopyRequest copies) s = Some (copy_req copies s)"
| "history_step (HtCopyResponse copies) s = Some (copy_res copies s)"
| "history_step (HtRender b1 b2) s =
     (let s1 = updateActiveDetails s
      in do { v1 \<leftarrow> vw_Render b1 (ht_req s1); v2 \<leftarrow> vw_Render b2 (ht_res s1);
              Some (s1\<lparr>ht_req := fst v1, ht_res := fst v2\<rparr>) })"

fun history_run :: "history_event list \<Rightarrow> history \<Rightarrow> history option" where
  "history_run [] s = Some s"
| "history_run (e # es) s = do { s' \<leftarrow> history_step e s; history_run es s' }"

text \<open>The effects of an event: at most one call of the repeater.\<close>

fun history_effects :: "history_event \<Rightarrow> history \<Rightarrow> (string \<times> string \<times> bool \<times> string) option" where
  "history_effects (HtChar menuFocused copies t) s =
     (if t = ''r'' \<or> t = ''R'' then sendToRepeater s else None)"
| "history_effects _ s = None"

section \<open>What a viewer shows\<close>

text \<open>Events, copying and drawing leave lines and raw text of a viewer alone.\<close>

definition same_content :: "viewer \<Rightarrow> viewer \<Rightarrow> bool" where
  "same_content v w \<longleftrightarrow> vw_lines v = vw_lines w \<and> vw_rawText v = vw_rawText w"

lemma same_content_simps [simp]:
  "same_content v v" "same_content (ScrollTo y v) v" "same_content (ScrollBy d v) v"
  "same_content (vw_clipboard t m v) v" "same_content (snd (vw_CopyToClipboard c v)) v"
  by (simp_all add: same_content_def ScrollTo_def ScrollBy_def vw_clipboard_def vw_CopyToClipboard_def)

lemma vw_release_content: "vw_release r c v = Some w \<Longrightarrow> same_content w v"
  by (auto simp: vw_release_def same_content_def vw_clipboard_def Let_def split: if_splits bind_splits)

lemma vw_copy_content: "vw_copy cp r c v = Some w \<Longrightarrow> same_content w v"
  by (auto simp: vw_copy_def Let_def split: if_splits bind_splits)

lemma vw_OnEvent_content: "vw_OnEvent f c e v = Some r \<Longrightarrow> same_content (snd r) v"
proof (cases e)
  case (MouseEvent x y button motion)
  then show "vw_OnEvent f c e v = Some r \<Longrightarrow> ?thesis"
    by (auto simp: vw_OnEvent_def vw_mouse_def Let_def split: if_splits bind_splits
        dest: vw_release_content vw_copy_content) (auto simp: same_content_def)
next
  case (KeyEvent k)
  then show "vw_OnEvent f c e v = Some r \<Longrightarrow> ?thesis"
    by (auto simp: vw_OnEvent_def split: if_splits key.splits)
next
  case (CharacterEvent t)
  then show "vw_OnEvent f c e v = Some r \<Longrightarrow> ?thesis"
    by (auto simp: vw_OnEvent_def vw_copy_key_def split: if_splits bind_splits)
qed (auto simp: vw_OnEvent_def split: if_splits)

lemma vw_Render_content: "vw_Render b v = Some r \<Longrightarrow> same_content (fst r) v"
  using vw_Render_rows [of b v] by (auto simp: same_content_def)

section \<open>Invariant\<close>

definition shows_entry :: "http_transaction \<Rightarrow> history \<Rightarrow> bool" where
  "shows_entry tx s \<longleftrightarrow> same_content (ht_req s) (request_details tx (ScrollableViewer []))
     \<and> same_content (ht_res s) (response_details tx (ScrollableViewer []))"

definition history_inv :: "history \<Rightarrow> bool" where
  "history_inv s \<longleftrightarrow> ht_labels s = map BuildMenuLabel (ht_entries s) \<and> viewer_wf (ht_req s) \<and> viewer_wf (ht_res s)
     \<and> (ht_lastLoaded s = -1 \<or> 0 \<le> ht_lastLoaded s \<and> ht_lastLoaded s < int (length (ht_entries s))
          \<and> shows_entry (ht_entries s ! nat (ht_lastLoaded s)) s)"

lemma viewer_max: "viewer_wf v \<Longrightarrow> 0 \<le> vw_max_scroll v"
  by (simp add: viewer_wf_def)

lemma SetContent_content [simp]: "vw_lines (SetContent ls t v) = ls" "vw_rawText (SetContent ls t v) = t"
  by (simp_all add: SetContent_def updateRawLines_def Let_def)

lemma details_content:
  "same_content (request_details tx v) (request_details tx w)" "same_content (response_details tx v) (response_details tx w)"
  by (simp_all add: same_content_def request_details_def response_details_def split: option.split)

lemma details_wf: "viewer_wf v \<Longrightarrow> viewer_wf (request_details tx v) \<and> viewer_wf (response_details tx v)"
  using viewer_wf_content [OF viewer_max] by (simp add: request_details_def response_details_def split: option.split)

lemma active_bounds: "ht_entries s \<noteq> [] \<Longrightarrow> 0 \<le> active_index s \<and> active_index s < int (length (ht_entries s))"
  by (simp add: active_index_def Let_def)

lemma active_fields [simp]:
  "active_index (s\<lparr>ht_req := v\<rparr>) = active_index s" "active_index (s\<lparr>ht_res := v\<rparr>) = active_index s"
  "active_index (s\<lparr>ht_lastLoaded := i\<rparr>) = active_index s"
  by (simp_all add: active_index_def)

text \<open>After an update the selected entry is shown.\<close>

lemma update_details:
  assumes "history_inv s"
  shows "history_inv (updateActiveDetails s)"
    and "ht_entries s \<noteq> [] \<Longrightarrow> shows_entry (ht_entries s ! nat (active_index s)) (updateActiveDetails s)"
    and "ht_entries (updateActiveDetails s) = ht_entries s" "ht_queue (updateActiveDetails s) = ht_queue s"
      "active_index (updateActiveDetails s) = active_index s"
proof -
  let ?i = "active_index s" and ?u = "updateActiveDetails s"
  have wf: "viewer_wf (ht_req s)" "viewer_wf (ht_res s)" using assms by (simp_all add: history_inv_def)
  have new: "shows_entry tx (s\<lparr>ht_lastLoaded := j, ht_req := request_details tx (ht_req s), ht_res := response_details tx (ht_res s)\<rparr>)"
    for tx j using details_content by (simp add: shows_entry_def)
  show shown: "shows_entry (ht_entries s ! nat ?i) ?u" if "ht_entries s \<noteq> []"
  proof (cases "?i = ht_lastLoaded s")
    case True
    then show ?thesis using assms that active_bounds [OF that]
      by (simp add: updateActiveDetails_def history_inv_def Let_def)
  next
    case False
    then show ?thesis using that new by (simp add: updateActiveDetails_def Let_def)
  qed
  show "ht_entries ?u = ht_entries s" "ht_queue ?u = ht_queue s" "active_index ?u = ?i"
    by (simp_all add: updateActiveDetails_def Let_def)
  show "history_inv ?u"
  proof (cases "ht_entries s = []")
    case True
    then show ?thesis using assms viewer_wf_content [OF viewer_max] wf
      by (simp add: updateActiveDetails_def history_inv_def)
  next
    case False
    have "?u = s \<or> ?u = s\<lparr>ht_lastLoaded := ?i, ht_req := request_details (ht_entries s ! nat ?i) (ht_req s),
        ht_res := response_details (ht_entries s ! nat ?i) (ht_res s)\<rparr>"
      using False by (auto simp: updateActiveDetails_def Let_def)
    then show ?thesis
    proof
      assume "?u = s" then show ?thesis using assms by simp
    next
      assume u: "?u = s\<lparr>ht_lastLoaded := ?i, ht_req := request_details (ht_entries s ! nat ?i) (ht_req s),
        ht_res := response_details (ht_entries s ! nat ?i) (ht_res s)\<rparr>"
      show ?thesis unfolding u using assms details_wf wf active_bounds [OF False] new
        by (simp add: history_inv_def)
    qed
  qed
qed

lemma same_content_trans: "same_content u v \<Longrightarrow> same_content v w \<Longrightarrow> same_content u w"
  by (simp add: same_content_def)

text \<open>Replacing a viewer by one with the same content, and selecting, keep the invariant.\<close>

lemma replace_viewer:
  assumes "history_inv s"
  shows "viewer_wf v \<Longrightarrow> same_content v (ht_req s) \<Longrightarrow> history_inv (s\<lparr>ht_req := v\<rparr>)
      \<and> (shows_entry tx s \<longrightarrow> shows_entry tx (s\<lparr>ht_req := v\<rparr>))"
    "viewer_wf v \<Longrightarrow> same_content v (ht_res s) \<Longrightarrow> history_inv (s\<lparr>ht_res := v\<rparr>)
      \<and> (shows_entry tx s \<longrightarrow> shows_entry tx (s\<lparr>ht_res := v\<rparr>))"
  using assms by (auto simp: history_inv_def shows_entry_def intro: same_content_trans)

lemma history_inv_fields [simp]:
  "history_inv (s\<lparr>ht_selected := i\<rparr>) = history_inv s" "history_inv (s\<lparr>ht_queue := q\<rparr>) = history_inv s"
  by (simp_all add: history_inv_def shows_entry_def)

lemma history_inv_drain:
  "history_inv s \<Longrightarrow> history_inv (drain s) \<and> ht_entries (drain s) @ ht_queue (drain s) = ht_entries s @ ht_queue s"
  by (auto simp: drain_def ts_tryPopAll_all history_inv_def shows_entry_def nth_append nat_less_iff)

lemma copy_viewers:
  assumes "history_inv s"
  shows "history_inv (copy_req c s)" "history_inv (copy_res c s)"
  using assms replace_viewer [OF assms] by (simp_all add: copy_req_def copy_res_def history_inv_def)

fun pushed :: "history_event list \<Rightarrow> http_transaction list" where
  "pushed [] = []"
| "pushed (HtPush tx # es) = tx # pushed es"
| "pushed (_ # es) = pushed es"

text \<open>Everything that was captured, in order: the entries and what is still queued.\<close>

definition captured :: "history \<Rightarrow> http_transaction list" where
  "captured s = ht_entries s @ ht_queue s"

lemma captured_update [simp]: "history_inv s \<Longrightarrow> captured (updateActiveDetails s) = captured s"
  using update_details(3,4) by (simp add: captured_def)

lemma captured_fields [simp]:
  "captured (s\<lparr>ht_selected := i\<rparr>) = captured s" "captured (s\<lparr>ht_req := v\<rparr>) = captured s"
  "captured (s\<lparr>ht_res := v\<rparr>) = captured s" "captured (copy_req c s) = captured s" "captured (copy_res c s) = captured s"
  by (simp_all add: captured_def copy_req_def copy_res_def)

definition keeps :: "http_transaction list \<Rightarrow> history \<Rightarrow> history option \<Rightarrow> bool" where
  "keeps new s r \<longleftrightarrow> (\<exists>s'. r = Some s' \<and> history_inv s' \<and> captured s' = captured s @ new)"

lemma keeps_char: "history_inv s \<Longrightarrow> keeps [] s (Some (on_char f c t s))"
  by (simp add: keeps_def on_char_def update_details(1) copy_viewers)

lemma keeps_event:
  assumes "history_inv s"
  shows "keeps [] s (history_step (HtRequestEvent f c e) s)" "keeps [] s (history_step (HtResponseEvent f c e) s)"
proof -
  have wf: "viewer_wf (ht_req s)" "viewer_wf (ht_res s)" using assms by (simp_all add: history_inv_def)
  obtain r1 r2 where r: "vw_OnEvent f c e (ht_req s) = Some r1" "viewer_wf (snd r1)"
    "vw_OnEvent f c e (ht_res s) = Some r2" "viewer_wf (snd r2)"
    using vw_OnEvent_total [OF wf(1), of f c e] vw_OnEvent_total [OF wf(2), of f c e] by blast
  show "keeps [] s (history_step (HtRequestEvent f c e) s)" "keeps [] s (history_step (HtResponseEvent f c e) s)"
    using replace_viewer(1) [OF assms r(2) vw_OnEvent_content [OF r(1)]]
      replace_viewer(2) [OF assms r(4) vw_OnEvent_content [OF r(3)]] r by (simp_all add: keeps_def)
qed

text \<open>A frame shows the selected entry.\<close>

lemma render_frame:
  assumes "history_inv s"
  obtains s' where "history_step (HtRender b1 b2) s = Some s'" "history_inv s'" "captured s' = captured s"
    "active_index s' = active_index s" "ht_entries s' = ht_entries s"
    "ht_entries s \<noteq> [] \<Longrightarrow> shows_entry (ht_entries s ! nat (active_index s)) s'"
proof -
  let ?u = "updateActiveDetails s" and ?tx = "ht_entries s ! nat (active_index s)"
  note u = update_details [OF assms]
  have wf: "viewer_wf (ht_req ?u)" "viewer_wf (ht_res ?u)" using u(1) by (simp_all add: history_inv_def)
  obtain v1 where v1: "vw_Render b1 (ht_req ?u) = Some v1" using vw_Render_rows by blast
  obtain v2 where v2: "vw_Render b2 (ht_res ?u) = Some v2" using vw_Render_rows by blast
  have w: "viewer_wf (fst v1)" "viewer_wf (fst v2)"
    using viewer_step_wf [OF wf(1), of "VwRender b1"] viewer_step_wf [OF wf(2), of "VwRender b2"] v1 v2 by simp_all
  note r1 = replace_viewer(1) [OF u(1) w(1) vw_Render_content [OF v1], of ?tx]
  have "same_content (fst v2) (ht_res (?u\<lparr>ht_req := fst v1\<rparr>))" using vw_Render_content [OF v2] by simp
  note r2 = replace_viewer(2) [OF conjunct1 [OF r1] w(2) this, of ?tx]
  let ?s = "?u\<lparr>ht_req := fst v1, ht_res := fst v2\<rparr>"
  have "history_step (HtRender b1 b2) s = Some ?s" using v1 v2 by (simp add: Let_def)
  moreover have "history_inv ?s" using r2 by simp
  moreover have "captured ?s = captured s" using assms by simp
  moreover have "active_index ?s = active_index s" "ht_entries ?s = ht_entries s" using u(3,5) by simp_all
  moreover have "ht_entries s \<noteq> [] \<Longrightarrow> shows_entry ?tx ?s" using u(2) r1 r2 by simp
  ultimately show thesis by (rule that)
qed

lemma history_step_keeps: "history_inv s \<Longrightarrow> keeps (pushed [e]) s (history_step e s)"
proof (cases e)
  case HtCustom
  then show "history_inv s \<Longrightarrow> ?thesis"
    using history_inv_drain [of s] update_details(1,3,4) [of "drain s"] by (simp add: keeps_def captured_def)
next
  case (HtRender b1 b2)
  show "history_inv s \<Longrightarrow> ?thesis"
    using render_frame [of s b1 b2] by (metis HtRender append_Nil2 keeps_def pushed.simps(1) pushed.simps(11))
next
  case (HtPush tx)
  then show "history_inv s \<Longrightarrow> ?thesis" by (simp add: keeps_def captured_def ts_push_def)
next
  case (HtChar f c t)
  then show "history_inv s \<Longrightarrow> ?thesis" by (simp add: keeps_char)
next
  case (HtRequestEvent f c e)
  then show "history_inv s \<Longrightarrow> ?thesis" using keeps_event(1) by simp
next
  case (HtResponseEvent f c e)
  then show "history_inv s \<Longrightarrow> ?thesis" using keeps_event(2) by simp
qed (simp_all add: keeps_def update_details(1) copy_viewers)

lemma history_run_keeps: "history_inv s \<Longrightarrow> keeps (pushed es) s (history_run es s)"
proof (induction es arbitrary: s)
  case (Cons e es)
  from history_step_keeps [OF Cons.prems, of e] obtain s'
    where s': "history_step e s = Some s'" "history_inv s'" "captured s' = captured s @ pushed [e]"
    by (auto simp: keeps_def)
  have "pushed (e # es) = pushed [e] @ pushed es" by (cases e) simp_all
  then show ?case using Cons.IH [OF s'(2)] s' by (auto simp: keeps_def simp del: history_step.simps)
qed (simp add: keeps_def)

lemma history_inv_init: "history_inv (MakeHistoryTab q tx)"
  by (simp add: history_inv_def MakeHistoryTab_def viewer_wf_init)

section \<open>Property\<close>

text \<open>
  C28: The history is complete and shows what is selected. After any sequence of pushes by the network
  thread and events of the interface, the entries followed by what is still queued are the captured
  transactions in order, none lost or duplicated; every entry has its label; and the next frame shows in
  its two viewers the request and the response of the selected entry.
\<close>
theorem history_complete_and_shown:
  "case history_run es (MakeHistoryTab queue entries) of
     None \<Rightarrow> False
   | Some s \<Rightarrow>
       ht_entries s @ ht_queue s = entries @ queue @ pushed es
     \<and> ht_labels s = map BuildMenuLabel (ht_entries s)
     \<and> (case history_step (HtRender b1 b2) s of
          None \<Rightarrow> False
        | Some s' \<Rightarrow> ht_entries s' = ht_entries s
            \<and> (ht_entries s = [] \<or> shows_entry (ht_entries s ! nat (active_index s)) s'))"
proof -
  obtain s where s: "history_run es (MakeHistoryTab queue entries) = Some s" "history_inv s"
    "captured s = captured (MakeHistoryTab queue entries) @ pushed es"
    using history_run_keeps [OF history_inv_init, of es queue entries] by (auto simp: keeps_def)
  obtain s' where "history_step (HtRender b1 b2) s = Some s'" "ht_entries s' = ht_entries s"
    "ht_entries s \<noteq> [] \<Longrightarrow> shows_entry (ht_entries s ! nat (active_index s)) s'"
    using render_frame [OF s(2), of b1 b2] by metis
  then show ?thesis using s by (auto simp: history_inv_def captured_def MakeHistoryTab_def simp del: history_step.simps)
qed

end
