(* ===== verification/ProxyTab.thy ===== *)
theory ProxyTab
  imports InterceptManager ScrollableViewer RepeaterManager
begin

text \<open>
  The proxy tab of \<open>src/src/tui/ProxyTab.cpp\<close>, where intercepted requests are shown, edited and decided.
  Its state holds the intercept manager, which the network thread shares, so that the tab's calls of it
  and the thread's are steps of one system; \<open>Forward\<close> makes two calls, which are separate steps. Calls
  of the repeater and decisions are effects. The entries are those of the history.
\<close>

section \<open>State\<close>

record proxy_tab =
  pt_manager :: intercept_manager
  pt_entries :: "http_transaction list"
  pt_toggleLabel :: string
  pt_lastDisplayedTxId :: int
  pt_lastInterceptId :: int
  pt_viewMode :: int
  pt_editor :: text_editor
  pt_req :: viewer
  pt_res :: viewer

definition MakeProxyTab :: "intercept_manager \<Rightarrow> http_transaction list \<Rightarrow> proxy_tab" where
  "MakeProxyTab manager entries = \<lparr>pt_manager = manager, pt_entries = entries, pt_toggleLabel = '' Intercept: OFF '',
     pt_lastDisplayedTxId = -1, pt_lastInterceptId = -1, pt_viewMode = 1,
     pt_editor = TextEditor ''Intercepted Request (Editable)'', pt_req = ScrollableViewer ''Latest Request'',
     pt_res = ScrollableViewer ''Latest Response''\<rparr>"

datatype proxy_effect =
    Managed im_effect
  | ToRepeater string string bool string

section \<open>Buttons\<close>

definition press_toggle :: "proxy_tab \<Rightarrow> proxy_effect list \<times> proxy_tab" where
  "press_toggle s =
     (let currentlyOn = isInterceptEnabled (pt_manager s);
          (es, im) = setInterceptEnabled (\<not> currentlyOn) (pt_manager s);
          s1 = s\<lparr>pt_manager := im\<rparr>
      in (map Managed es,
          if \<not> currentlyOn then s1\<lparr>pt_toggleLabel := '' Intercept: ON  '', pt_viewMode := 0\<rparr>
          else s1\<lparr>pt_toggleLabel := '' Intercept: OFF '', pt_viewMode := 1\<rparr>))"

text \<open>
  Forward, first part: \<open>*cur->request = ...\<close> replaces the request that the first item of the queue
  points to. Second part: \<open>forwardCurrent\<close>.
\<close>

definition replace_current :: "http_request \<Rightarrow> intercept_manager \<Rightarrow> intercept_manager" where
  "replace_current r im =
     (case im_queue im of [] \<Rightarrow> im | cur # q \<Rightarrow> im\<lparr>im_queue := cur\<lparr>it_request := r\<rparr> # q\<rparr>)"

definition apply_edit :: "proxy_tab \<Rightarrow> proxy_tab" where
  "apply_edit s =
     (case peekCurrent (pt_manager s) of
        None \<Rightarrow> s
      | Some cur \<Rightarrow> s\<lparr>pt_manager := replace_current (ParseRawHttpRequest (GetText (pt_editor s))) (pt_manager s)\<rparr>)"

definition decide_button :: "intercept_action \<Rightarrow> proxy_tab \<Rightarrow> proxy_effect list \<times> proxy_tab" where
  "decide_button a s =
     (let (ok, es, im) = (case a of Forward \<Rightarrow> forwardCurrent (pt_manager s) | Drop \<Rightarrow> dropCurrent (pt_manager s))
      in (map Managed es, s\<lparr>pt_manager := im\<rparr>))"

definition press_forward :: "proxy_tab \<Rightarrow> proxy_effect list \<times> proxy_tab" where
  "press_forward s = decide_button Forward (apply_edit s)"

definition press_drop :: "proxy_tab \<Rightarrow> proxy_effect list \<times> proxy_tab" where
  "press_drop s = decide_button Drop s"

definition press_to_repeater :: "proxy_tab \<Rightarrow> proxy_effect list" where
  "press_to_repeater s =
     (if isInterceptEnabled (pt_manager s)
      then (case peekCurrent (pt_manager s) of
              None \<Rightarrow> []
            | Some cur \<Rightarrow> [ToRepeater (it_host cur) (nat_to_string (unat (it_port cur))) (it_isHttps cur) (GetText (pt_editor s))])
      else if pt_entries s = [] then []
      else let latest = last (pt_entries s)
           in case tx_request latest of
                None \<Rightarrow> []
              | Some r \<Rightarrow> [ToRepeater (tx_host latest) (int_to_string (tx_port latest)) (tx_is_https latest)
                             (FormatHttpRequestRaw r (tx_is_https latest) (tx_host latest))])"

definition press_copy_req :: "bool \<Rightarrow> proxy_tab \<Rightarrow> proxy_tab" where
  "press_copy_req copies s =
     (if isInterceptEnabled (pt_manager s) then s\<lparr>pt_editor := snd (CopyToClipboard copies (pt_editor s))\<rparr>
      else s\<lparr>pt_req := snd (vw_CopyToClipboard copies (pt_req s))\<rparr>)"

definition press_copy_res :: "bool \<Rightarrow> proxy_tab \<Rightarrow> proxy_tab" where
  "press_copy_res copies s = s\<lparr>pt_res := snd (vw_CopyToClipboard copies (pt_res s))\<rparr>"

section \<open>Frames\<close>

text \<open>Loading: a new first item fills the editor, a new latest transaction the viewers.\<close>

definition load_intercepted :: "proxy_tab \<Rightarrow> proxy_tab" where
  "load_intercepted s =
     (case peekCurrent (pt_manager s) of
        None \<Rightarrow> s\<lparr>pt_lastInterceptId := -1\<rparr>
      | Some item \<Rightarrow>
          if it_id item \<noteq> pt_lastInterceptId s
          then s\<lparr>pt_lastInterceptId := it_id item,
                 pt_editor := SetText (FormatHttpRequestRaw (it_request item) (it_isHttps item) (it_host item)) (pt_editor s)\<rparr>
          else s)"

definition load_latest :: "proxy_tab \<Rightarrow> proxy_tab" where
  "load_latest s =
     (if pt_entries s = [] then s
      else let latest = last (pt_entries s)
           in if tx_id latest \<noteq> pt_lastDisplayedTxId s
              then s\<lparr>pt_lastDisplayedTxId := tx_id latest,
                     pt_req := (case tx_request latest of
                        None \<Rightarrow> pt_req s
                      | Some r \<Rightarrow> SetContent (FormatHttpRequestLines r (tx_is_https latest) (tx_host latest))
                          (FormatHttpRequestRaw r (tx_is_https latest) (tx_host latest)) (pt_req s)),
                     pt_res := (case tx_response latest of
                        None \<Rightarrow> pt_res s
                      | Some r \<Rightarrow> SetContent (FormatHttpResponseLines r) (FormatHttpResponseRaw r) (pt_res s))\<rparr>
              else s)"

text \<open>A frame: the label and the mode, loading, and the components drawn (their boxes are parameters).\<close>

definition pt_Render :: "box \<Rightarrow> box \<Rightarrow> proxy_tab \<Rightarrow> proxy_tab option" where
  "pt_Render b1 b2 s =
     (let on = isInterceptEnabled (pt_manager s);
          s1 = s\<lparr>pt_toggleLabel := (if on then '' Intercept: ON  '' else '' Intercept: OFF ''),
                 pt_viewMode := (if on then 0 else 1)\<rparr>
      in if on
         then (let s2 = load_intercepted s1
               in Some (if hasPending (pt_manager s2) then s2\<lparr>pt_editor := Render b1 (pt_editor s2)\<rparr> else s2))
         else if pt_entries s1 = [] then Some s1
         else let s2 = load_latest s1
              in do { v1 \<leftarrow> vw_Render b1 (pt_req s2); v2 \<leftarrow> vw_Render b2 (pt_res s2);
                      Some (s2\<lparr>pt_req := fst v1, pt_res := fst v2\<rparr>) })"

section \<open>Runs\<close>

text \<open>
  The network thread intercepts a request or withdraws one whose session has ended; the user types, moves
  or pastes in the editor; frames are drawn; buttons are pressed. \<open>PtApply\<close> and \<open>PtForward\<close> are the two
  calls of the Forward button, between which the network thread may run.
\<close>

datatype proxy_op =
    PtIntercept int bool string "16 word" http_request | PtRemove int | PtEntry http_transaction
  | PtEditor bool bool editor_event | PtRender box box
  | PtToggle | PtApply | PtForward | PtDrop | PtToRepeater | PtCopyReq bool | PtCopyRes bool

fun proxy_step :: "proxy_op \<Rightarrow> proxy_tab \<Rightarrow> (proxy_effect list \<times> proxy_tab) option" where
  "proxy_step (PtIntercept i h host port r) s =
     (let (es, im) = interceptRequest i h host port r (pt_manager s) in Some (map Managed es, s\<lparr>pt_manager := im\<rparr>))"
| "proxy_step (PtRemove i) s = (let (es, im) = removeById i (pt_manager s) in Some (map Managed es, s\<lparr>pt_manager := im\<rparr>))"
| "proxy_step (PtEntry tx) s = Some ([], s\<lparr>pt_entries := pt_entries s @ [tx]\<rparr>)"
| "proxy_step (PtEditor focused copies e) s =
     map_option (\<lambda>r. ([], s\<lparr>pt_editor := snd r\<rparr>)) (OnEvent focused copies e (pt_editor s))"
| "proxy_step (PtRender b1 b2) s = map_option (Pair []) (pt_Render b1 b2 s)"
| "proxy_step PtToggle s = Some (press_toggle s)"
| "proxy_step PtApply s = Some ([], apply_edit s)"
| "proxy_step PtForward s = Some (decide_button Forward s)"
| "proxy_step PtDrop s = Some (press_drop s)"
| "proxy_step PtToRepeater s = Some (press_to_repeater s, s)"
| "proxy_step (PtCopyReq copies) s = Some ([], press_copy_req copies s)"
| "proxy_step (PtCopyRes copies) s = Some ([], press_copy_res copies s)"

fun proxy_run :: "proxy_op list \<Rightarrow> proxy_tab \<Rightarrow> (proxy_effect list \<times> proxy_tab) option" where
  "proxy_run [] s = Some ([], s)"
| "proxy_run (p # ps) s = do { (es, s1) \<leftarrow> proxy_step p s; (es', s2) \<leftarrow> proxy_run ps s1; Some (es @ es', s2) }"

section \<open>Editing the first request\<close>

text \<open>What the user may do, and the network thread, while the first request stays the first.\<close>

fun quiet :: "proxy_op \<Rightarrow> bool" where
  "quiet (PtIntercept i h host port r) = True"
| "quiet (PtEntry tx) = True"
| "quiet (PtEditor focused copies e) = True"
| "quiet (PtRender b1 b2) = True"
| "quiet PtToRepeater = True"
| "quiet (PtCopyReq copies) = True"
| "quiet (PtCopyRes copies) = True"
| "quiet _ = False"

text \<open>What of it reaches the editor, and the requests that come in.\<close>

fun edits :: "proxy_op list \<Rightarrow> editor_op list" where
  "edits [] = []"
| "edits (PtEditor focused copies e # ps) = EdEvent focused copies e # edits ps"
| "edits (PtRender b1 b2 # ps) = EdRender b1 # edits ps"
| "edits (PtCopyReq copies # ps) = EdCopy copies # edits ps"
| "edits (_ # ps) = edits ps"

fun arrivals :: "proxy_op list \<Rightarrow> intercepted_request list" where
  "arrivals [] = []"
| "arrivals (PtIntercept i h host port r # ps) =
     \<lparr>it_id = i, it_isHttps = h, it_host = host, it_port = port, it_request = r\<rparr> # arrivals ps"
| "arrivals (_ # ps) = arrivals ps"

fun decisions :: "proxy_effect list \<Rightarrow> (intercepted_request \<times> intercept_action) list" where
  "decisions [] = []"
| "decisions (Managed (Decide item a) # es) = (item, a) # decisions es"
| "decisions (_ # es) = decisions es"

lemma decisions_append [simp]: "decisions (xs @ ys) = decisions xs @ decisions ys"
  by (induction xs rule: decisions.induct) simp_all

lemma decisions_notify [simp]: "decisions (map Managed (notify_effect im)) = []"
  by (simp add: notify_effect_def)

lemma decisions_repeater [simp]: "decisions (press_to_repeater s) = []"
  by (simp add: press_to_repeater_def Let_def split: option.split)

text \<open>The item is the first of the queue and in the editor.\<close>

definition loaded :: "intercepted_request \<Rightarrow> intercepted_request list \<Rightarrow> proxy_tab \<Rightarrow> bool" where
  "loaded item q s \<longleftrightarrow> im_enabled (pt_manager s) \<and> im_queue (pt_manager s) = item # q
     \<and> pt_lastInterceptId s = it_id item"

definition item_text :: "intercepted_request \<Rightarrow> string" where
  "item_text item = FormatHttpRequestRaw (it_request item) (it_isHttps item) (it_host item)"

lemma first_frame:
  assumes "im_enabled (pt_manager s)" "im_queue (pt_manager s) = item # q" "it_id item \<noteq> pt_lastInterceptId s"
  obtains s' where "proxy_step (PtRender b1 b2) s = Some ([], s')" "loaded item q s'"
    "pt_editor s' = Render b1 (SetText (item_text item) (pt_editor s))"
  using assms by (simp add: pt_Render_def load_intercepted_def isInterceptEnabled_def peekCurrent_def hasPending_def
      item_text_def loaded_def Let_def)

text \<open>A quiet step keeps the item loaded and does to the editor what it does to an editor alone.\<close>

lemma quiet_step:
  assumes "loaded item q s" "quiet p" "editor_run (edits [p]) (pt_editor s) = Some e"
  obtains es s' where "proxy_step p s = Some (es, s')" "loaded item (q @ arrivals [p]) s'" "pt_editor s' = e" "decisions es = []"
proof (cases p)
  case (PtIntercept i h host port r)
  then show thesis using assms that
    by (simp add: interceptRequest_def Let_def loaded_def)
next
  case (PtEditor f c ev)
  then obtain rr where "OnEvent f c ev (pt_editor s) = Some rr" "snd rr = e"
    using assms(3) by (auto split: bind_splits)
  then show thesis using assms(1) that PtEditor by (simp add: loaded_def)
next
  case (PtRender b1 b2)
  then show thesis using assms that
    by (simp add: pt_Render_def load_intercepted_def isInterceptEnabled_def peekCurrent_def hasPending_def loaded_def Let_def)
next
  case (PtCopyReq c)
  then show thesis using assms that by (simp add: press_copy_req_def loaded_def isInterceptEnabled_def)
next
  case (PtCopyRes c)
  then show thesis using assms that by (simp add: press_copy_res_def loaded_def)
qed (use assms that in \<open>simp_all add: loaded_def\<close>)

lemma edits_Cons: "edits (p # ps) = edits [p] @ edits ps"
  by (cases p) simp_all

lemma arrivals_Cons: "arrivals (p # ps) = arrivals [p] @ arrivals ps"
  by (cases p) simp_all

lemma editor_run_append: "editor_run (xs @ ys) e = Option.bind (editor_run xs e) (editor_run ys)"
  by (induction xs arbitrary: e) (auto split: Option.bind_split)

lemma quiet_run:
  assumes "loaded item q s" "list_all quiet ps" "editor_run (edits ps) (pt_editor s) = Some e"
  shows "\<exists>es s'. proxy_run ps s = Some (es, s') \<and> loaded item (q @ arrivals ps) s' \<and> pt_editor s' = e \<and> decisions es = []"
  using assms
proof (induction ps arbitrary: q s)
  case (Cons p ps)
  from Cons.prems(3) obtain e1 where e1: "editor_run (edits [p]) (pt_editor s) = Some e1" "editor_run (edits ps) e1 = Some e"
    unfolding edits_Cons [of p ps] editor_run_append by (auto simp: bind_eq_Some_conv)
  have "quiet p" "list_all quiet ps" using Cons.prems(2) by simp_all
  from quiet_step [OF Cons.prems(1) this(1) e1(1)] obtain es s1
    where s1: "proxy_step p s = Some (es, s1)" "loaded item (q @ arrivals [p]) s1" "pt_editor s1 = e1" "decisions es = []"
    by metis
  from Cons.IH [OF s1(2) \<open>list_all quiet ps\<close>] e1(2) s1(3) obtain es' s2
    where "proxy_run ps s1 = Some (es', s2)" "loaded item ((q @ arrivals [p]) @ arrivals ps) s2" "pt_editor s2 = e" "decisions es' = []"
    by blast
  then show ?case using s1 arrivals_Cons [of p ps] by (auto simp del: proxy_step.simps)
qed simp

lemma forward_loaded:
  assumes "loaded item q s"
  shows "\<exists>es s'. proxy_run [PtApply, PtForward] s = Some (es, s')
    \<and> decisions es = [(item\<lparr>it_request := ParseRawHttpRequest (GetText (pt_editor s))\<rparr>, Forward)]
    \<and> im_queue (pt_manager s') = q"
  using assms by (simp add: loaded_def apply_edit_def peekCurrent_def replace_current_def decide_button_def
      forwardCurrent_def decideCurrent_def Let_def)

lemma proxy_run_append:
  "proxy_run (ps @ qs) s = (case proxy_run ps s of None \<Rightarrow> None
     | Some (es, s1) \<Rightarrow> (case proxy_run qs s1 of None \<Rightarrow> None | Some (es', s2) \<Rightarrow> Some (es @ es', s2)))"
  by (induction ps arbitrary: s) (auto split: option.split Option.bind_split)

section \<open>Properties\<close>

text \<open>
  C13: What is forwarded is what was edited. When a new request is at the head of the queue, a frame loads it
  into the editor; and whatever is then typed, moved, pasted, copied and drawn, and whatever other
  requests come in, pressing Forward decides exactly this request, with the text of the editor read back
  as its request, and leaves the others in the queue, unedited and in order.
\<close>
theorem edited_request_is_forwarded:
  assumes "im_enabled (pt_manager s)" "im_queue (pt_manager s) = item # q" "it_id item \<noteq> pt_lastInterceptId s"
    and "list_all quiet ps"
  shows "case editor_run (edits ps) (Render b1 (SetText (item_text item) (pt_editor s))) of
      None \<Rightarrow> False
    | Some e \<Rightarrow>
        (case proxy_run (PtRender b1 b2 # ps @ [PtApply, PtForward]) s of
           None \<Rightarrow> False
         | Some (es, s') \<Rightarrow> decisions es = [(item\<lparr>it_request := ParseRawHttpRequest (GetText e)\<rparr>, Forward)]
             \<and> im_queue (pt_manager s') = q @ arrivals ps)"
proof -
  obtain s1 where s1: "proxy_step (PtRender b1 b2) s = Some ([], s1)" "loaded item q s1"
    "pt_editor s1 = Render b1 (SetText (item_text item) (pt_editor s))"
    using first_frame [OF assms(1-3), of b1 b2] by metis
  have "editor_inv (Render b1 (SetText (item_text item) (pt_editor s)))"
    using editor_step_inv [OF editor_inv_SetText, of "EdRender b1"] by simp
  from editor_run_inv [OF this, of "edits ps"] obtain e
    where e: "editor_run (edits ps) (Render b1 (SetText (item_text item) (pt_editor s))) = Some e" by blast
  with s1(3) quiet_run [OF s1(2) assms(4)] obtain es2 s2 where s2: "proxy_run ps s1 = Some (es2, s2)"
    "loaded item (q @ arrivals ps) s2" "pt_editor s2 = e" "decisions es2 = []" by metis
  from forward_loaded [OF s2(2)] s2(3) obtain es3 s3 where "proxy_run [PtApply, PtForward] s2 = Some (es3, s3)"
    "decisions es3 = [(item\<lparr>it_request := ParseRawHttpRequest (GetText e)\<rparr>, Forward)]"
    "im_queue (pt_manager s3) = q @ arrivals ps" by blast
  then show ?thesis using s1(1) s2(1,4) e by (simp add: proxy_run_append del: proxy_step.simps)
qed

definition demo_item :: intercepted_request where
  "demo_item = \<lparr>it_id = 7, it_isHttps = False, it_host = ''h.org'', it_port = 80, it_request = sample_request\<rparr>"

definition demo_tab :: proxy_tab where
  "demo_tab = MakeProxyTab (InterceptManager\<lparr>im_enabled := True, im_queue := [demo_item]\<rparr>) []"

definition demo_box :: box where
  "demo_box = \<lparr>x_min = 0, x_max = 79, y_min = 3, y_max = 20\<rparr>"

lemma edited_request_is_forwarded_witness:
  "case editor_run (edits [PtEditor True True (KeyEvent Return)]) (Render demo_box (SetText (item_text demo_item) (pt_editor demo_tab))) of
      None \<Rightarrow> False
    | Some e \<Rightarrow>
        (case proxy_run (PtRender demo_box demo_box # [PtEditor True True (KeyEvent Return)] @ [PtApply, PtForward]) demo_tab of
           None \<Rightarrow> False
         | Some (es, s') \<Rightarrow> decisions es = [(demo_item\<lparr>it_request := ParseRawHttpRequest (GetText e)\<rparr>, Forward)]
             \<and> im_queue (pt_manager s') = [] @ arrivals [PtEditor True True (KeyEvent Return)])"
  by (rule edited_request_is_forwarded) (simp_all add: demo_tab_def demo_item_def MakeProxyTab_def)

text \<open>
  The text of the editor is applied to whatever request is first when Forward is pressed: when the shown
  request has been withdrawn since the last frame, to the next one, which the user has not seen.
\<close>

lemma decisions_remove [simp]: "decisions (map Managed (fst (removeById i im))) = []"
  by (simp add: removeById_def Let_def)

lemma decisions_forward:
  "im_queue im = b # q \<Longrightarrow> decisions (map Managed (fst (snd (forwardCurrent im)))) = [(b, Forward)]"
  by (simp add: forwardCurrent_def decideCurrent_def Let_def)

lemma edit_reaches_next_request:
  assumes "im_queue (pt_manager s) = a # b # q" "it_id b \<noteq> it_id a"
  shows "\<exists>es s'. proxy_run [PtRemove (it_id a), PtApply, PtForward] s = Some (es, s')
    \<and> decisions es = [(b\<lparr>it_request := ParseRawHttpRequest (GetText (pt_editor s))\<rparr>, Forward)]"
  using assms removeById_queue [of "it_id a" "pt_manager s"]
  by (simp add: apply_edit_def peekCurrent_def replace_current_def decide_button_def split_beta decisions_forward)

text \<open>Between the two calls of Forward the first request may change, and another is forwarded unseen.\<close>

lemma forward_takes_next_request:
  assumes "im_queue (pt_manager s) = a # b # q" "it_id b \<noteq> it_id a"
  shows "\<exists>es s'. proxy_run [PtApply, PtRemove (it_id a), PtForward] s = Some (es, s') \<and> decisions es = [(b, Forward)]"
proof -
  define im where "im = replace_current (ParseRawHttpRequest (GetText (pt_editor s))) (pt_manager s)"
  have "im_queue (snd (removeById (it_id a) im)) = b # filter (\<lambda>item. it_id item \<noteq> it_id a) q"
    using assms unfolding removeById_queue by (simp add: im_def replace_current_def)
  moreover have "apply_edit s = s\<lparr>pt_manager := im\<rparr>" using assms by (simp add: apply_edit_def peekCurrent_def im_def)
  ultimately show ?thesis by (simp add: decide_button_def split_beta decisions_forward)
qed

section \<open>Forwarding without editing\<close>

text \<open>A request shown and read back: its Host line is the connection's host name, the rest is as it was.\<close>

definition with_host :: "string \<Rightarrow> http_request \<Rightarrow> http_request" where
  "with_host h r = r\<lparr>rq_headers := (''Host'', h) # filter (\<lambda>k. \<not> is_host_name (fst k)) (rq_headers r)\<rparr>"



text \<open>The port of a Host header is lost on the way through the editor.\<close>

lemma host_port_is_lost:
  "FormatHttpRequestRaw (HttpRequest\<lparr>rq_method := ''GET'', rq_url := ''/'', rq_headers := [(''Host'', ''h.org:8080'')]\<rparr>) False ''h.org''
     = ''GET / HTTP/1.1'' @ crlf @ ''Host: h.org'' @ crlf @ crlf"
  by code_simp

end
