(* ===== verification/RepeaterTab.thy ===== *)
theory RepeaterTab
  imports RepeaterManager ScrollableViewer
begin

text \<open>
  The repeater tab of \<open>src/src/tui/RepeaterTab.cpp\<close>: an editor for the request, fields for the target, the
  button that sends, a viewer for the response, and the synchronisation with the repeater manager, which
  other tabs and the sending thread change. The tab and the manager's system are one state here; the
  library's input fields and checkbox set the target fields.
\<close>

record repeater_tab =
  rt_system :: rp_system
  rt_host :: string
  rt_port :: string
  rt_isHttps :: bool
  rt_lastReq :: string
  rt_lastRes :: string
  rt_editor :: text_editor
  rt_viewer :: viewer

definition MakeRepeaterTab :: "rp_system \<Rightarrow> repeater_tab" where
  "MakeRepeaterTab y =
     (let m = sy_manager y
      in \<lparr>rt_system = y, rt_host = rp_host m, rt_port = rp_port m, rt_isHttps = rp_isHttps m,
          rt_lastReq = rp_rawRequest m, rt_lastRes = rp_rawResponse m,
          rt_editor = SetText (rp_rawRequest m) (TextEditor ''Request (Editable)''),
          rt_viewer = SetRawText (rp_rawResponse m) ''text/plain'' (ScrollableViewer ''Response (Scrollable)'')\<rparr>)"

definition manager_call :: "rp_op \<Rightarrow> repeater_tab \<Rightarrow> repeater_tab" where
  "manager_call p s = s\<lparr>rt_system := snd (rp_step p (rt_system s))\<rparr>"

definition press_send :: "repeater_tab \<Rightarrow> repeater_tab" where
  "press_send s =
     manager_call RpExecute
       (manager_call (RpRawRequest (GetText (rt_editor s)))
         (manager_call (RpTarget (rt_host s) (rt_port s) (rt_isHttps s)) s))"

definition syncWithManager :: "repeater_tab \<Rightarrow> repeater_tab" where
  "syncWithManager s =
     (let m = sy_manager (rt_system s);
          s1 = (if rp_rawRequest m \<noteq> rt_lastReq s
                then s\<lparr>rt_lastReq := rp_rawRequest m, rt_editor := SetText (rp_rawRequest m) (rt_editor s),
                       rt_host := rp_host m, rt_port := rp_port m, rt_isHttps := rp_isHttps m\<rparr>
                else s)
      in if rp_rawResponse m \<noteq> rt_lastRes s1
         then s1\<lparr>rt_lastRes := rp_rawResponse m, rt_viewer := SetRawText (rp_rawResponse m) ''text/plain'' (rt_viewer s1)\<rparr>
         else s1)"

text \<open>
  \<open>RtManager\<close> is a call of the manager by another tab or the end of a sending thread; \<open>RtFields\<close> is input
  into the target fields.
\<close>

datatype repeater_event =
    RtManager rp_op | RtFields string string bool | RtEditor bool bool editor_event
  | RtViewer bool bool editor_event | RtSend | RtCustom | RtRender box box | RtCopyReq bool | RtCopyRes bool

fun repeater_step :: "repeater_event \<Rightarrow> repeater_tab \<Rightarrow> repeater_tab option" where
  "repeater_step (RtManager p) s = Some (manager_call p s)"
| "repeater_step (RtFields h p t) s = Some (s\<lparr>rt_host := h, rt_port := p, rt_isHttps := t\<rparr>)"
| "repeater_step (RtEditor f c e) s = map_option (\<lambda>r. s\<lparr>rt_editor := snd r\<rparr>) (OnEvent f c e (rt_editor s))"
| "repeater_step (RtViewer f c e) s = map_option (\<lambda>r. s\<lparr>rt_viewer := snd r\<rparr>) (vw_OnEvent f c e (rt_viewer s))"
| "repeater_step RtSend s = Some (press_send s)"
| "repeater_step RtCustom s = Some (syncWithManager s)"
| "repeater_step (RtRender b1 b2) s =
     (let s1 = syncWithManager s
      in map_option (\<lambda>v. s1\<lparr>rt_editor := Render b1 (rt_editor s1), rt_viewer := fst v\<rparr>) (vw_Render b2 (rt_viewer s1)))"
| "repeater_step (RtCopyReq c) s = Some (s\<lparr>rt_editor := snd (CopyToClipboard c (rt_editor s))\<rparr>)"
| "repeater_step (RtCopyRes c) s = Some (s\<lparr>rt_viewer := snd (vw_CopyToClipboard c (rt_viewer s))\<rparr>)"

section \<open>Loading and sending\<close>

text \<open>Executing from rest starts one thread with the sanitised target and the completed request.\<close>

lemma execute_job:
  fixes m :: repeater
  defines "q \<equiv> rp_target (rp_host m) (rp_port m) (rp_isHttps m)"
  assumes "\<not> rp_isSending m"
  shows "sent_jobs (fst (executeRequest m)) = [\<lparr>jb_host = fst q, jb_port = fst (snd q), jb_isHttps = snd (snd q),
      jb_request = clean_request (fst q) (rp_rawRequest m)\<rparr>]"
  using assms by (simp add: executeRequest_def split_beta Let_def)

text \<open>
  When the text is the one loaded last, the target fields keep what they were, and Send goes to the old
  target: a request seen once over HTTPS and sent to the repeater again as seen over HTTP is sent over HTTPS.
\<close>

lemma same_text_keeps_target:
  fixes s :: repeater_tab
  assumes "raw = rt_lastReq s" "rp_rawResponse (sy_manager (rt_system s)) = rt_lastRes s"
  shows "rt_host (syncWithManager (manager_call (RpRequest h p t raw) s)) = rt_host s"
    "rt_port (syncWithManager (manager_call (RpRequest h p t raw) s)) = rt_port s"
    "rt_isHttps (syncWithManager (manager_call (RpRequest h p t raw) s)) = rt_isHttps s"
  using assms by (simp_all add: manager_call_def syncWithManager_def setRequest_def split_beta Let_def)

text \<open>The tab never breaks the manager's discipline of one request at a time.\<close>

lemma tab_keeps_flight:
  assumes "single_flight (rt_system s)" "repeater_step e s = Some s'"
  shows "single_flight (rt_system s')"
proof -
  have sync: "rt_system (syncWithManager s) = rt_system s" by (simp add: syncWithManager_def Let_def)
  show ?thesis using assms step_keeps_flight sync
    by (cases e) (auto simp: manager_call_def press_send_def Let_def simp del: rp_step.simps)
qed

section \<open>Property\<close>

text \<open>
  What is sent to the repeater is what the repeater sends. A request handed over by another tab, whose
  text is not the one loaded last, is loaded by the next synchronisation; pressing Send then starts one
  thread with its text, completed, for its own target, if no request is under way.
\<close>
theorem loaded_request_is_sent:
  assumes "raw \<noteq> rt_lastReq s" "\<not> rp_isSending (sy_manager (rt_system s))"
  shows "\<exists>job. sy_jobs (rt_system (press_send (syncWithManager (manager_call (RpRequest h p t raw) s)))) = sy_jobs (rt_system s) @ [job]
    \<and> (jb_host job, jb_port job, jb_isHttps job) = rp_target h p t
    \<and> jb_request job = clean_request (jb_host job) (normalize_crlf raw)"
  using assms by (simp add: press_send_def manager_call_def syncWithManager_def setRequest_def setTarget_def
      setRawRequest_def GetText_SetText split_beta Let_def execute_job)

lemma loaded_request_is_sent_witness:
  "\<exists>job. sy_jobs (rt_system (press_send (syncWithManager (manager_call
       (RpRequest ''h.org'' ''8080'' False (''GET / HTTP/1.1'' @ crlf @ crlf)) (MakeRepeaterTab rp_start))))) = [job]
    \<and> (jb_host job, jb_port job, jb_isHttps job) = (''h.org'', ''8080'', False)
    \<and> jb_request job = ''GET / HTTP/1.1'' @ crlf @ ''Connection: close'' @ crlf @ ''Host: h.org'' @ crlf @ crlf"
proof -
  let ?raw = "''GET / HTTP/1.1'' @ crlf @ crlf"
  have st: "?raw \<noteq> rt_lastReq (MakeRepeaterTab rp_start)" "\<not> rp_isSending (sy_manager (rt_system (MakeRepeaterTab rp_start)))"
    "sy_jobs (rt_system (MakeRepeaterTab rp_start)) = []"
    by (simp_all add: MakeRepeaterTab_def rp_start_def RepeaterManager_def)
  have t: "rp_target ''h.org'' ''8080'' False = (''h.org'', ''8080'', False)" by code_simp
  have r: "clean_request ''h.org'' (normalize_crlf ?raw)
      = ''GET / HTTP/1.1'' @ crlf @ ''Connection: close'' @ crlf @ ''Host: h.org'' @ crlf @ crlf" by code_simp
  from loaded_request_is_sent [OF st(1,2), of "''h.org''" "''8080''" False] t r st(3) show ?thesis by auto
qed

end
