(* ===== verification/TuiApp.thy ===== *)
theory TuiApp
  imports Queues HttpFormatter Encoding
begin

text \<open>
  The interface loop of \<open>src/src/tui/TuiApp.cpp\<close> and the decoder of \<open>src/src/tui/DecoderTab.cpp\<close>. First
  tabs and hotkeys; then the update protocol: network threads push a transaction and call the update
  trigger, which posts an event unless one is pending; the loop clears the flag and drains the queue.
  Its steps are those of the C++ memory operations: a push, the compare-and-exchange, the post, taking an
  event, clearing the flag, draining. The library's event queue is a list.
\<close>

section \<open>Hotkeys\<close>

datatype tui_event = Custom | CtrlQ | CtrlC | F1 | F2 | F3 | F4 | Typed string | OtherInput

record tui =
  ui_activeTab :: int
  ui_quit :: bool

definition buildLayout :: tui where
  "buildLayout = \<lparr>ui_activeTab = 0, ui_quit = False\<rparr>"

definition tabNames :: "string list" where
  "tabNames = ['' Proxy [F1] '', '' History [F2] '', '' Repeater [F3] '', '' Decoder [F4] '']"

text \<open>
  The handler: whether the event is consumed, whether the history tab is made to drain, and the state.
  \<open>consumed\<close> is the answer of the layout's own handlers.
\<close>

definition tui_fallback :: "tui_event \<Rightarrow> tui \<Rightarrow> bool \<times> bool \<times> tui" where
  "tui_fallback e s =
     (if e = Typed ''q'' \<or> e = Typed ''Q'' then (True, False, s\<lparr>ui_quit := True\<rparr>)
      else if e = Typed ''1'' then (True, False, s\<lparr>ui_activeTab := 0\<rparr>)
      else if e = Typed ''2'' then (True, True, s\<lparr>ui_activeTab := 1\<rparr>)
      else if e = Typed ''3'' then (True, False, s\<lparr>ui_activeTab := 2\<rparr>)
      else if e = Typed ''4'' then (True, False, s\<lparr>ui_activeTab := 3\<rparr>)
      else (False, False, s))"

definition tui_OnEvent :: "bool \<Rightarrow> tui_event \<Rightarrow> tui \<Rightarrow> bool \<times> bool \<times> tui" where
  "tui_OnEvent consumed e s =
     (case e of
        Custom \<Rightarrow> (False, True, s)
      | CtrlQ \<Rightarrow> (True, False, s\<lparr>ui_quit := True\<rparr>)
      | CtrlC \<Rightarrow> (True, False, s\<lparr>ui_quit := True\<rparr>)
      | F1 \<Rightarrow> (True, False, s\<lparr>ui_activeTab := 0\<rparr>)
      | F2 \<Rightarrow> (True, True, s\<lparr>ui_activeTab := 1\<rparr>)
      | F3 \<Rightarrow> (True, False, s\<lparr>ui_activeTab := 2\<rparr>)
      | F4 \<Rightarrow> (True, False, s\<lparr>ui_activeTab := 3\<rparr>)
      | _ \<Rightarrow> if consumed then (True, False, s) else tui_fallback e s)"

text \<open>The callback that the repeater calls to show itself.\<close>

definition switch_tab :: "int \<Rightarrow> tui \<Rightarrow> tui" where
  "switch_tab i s = s\<lparr>ui_activeTab := i\<rparr>"

text \<open>The active tab is one of the four, and only quit keys quit: typing in a focused editor never does.\<close>

lemma tui_OnEvent_tab:
  "0 \<le> ui_activeTab s \<and> ui_activeTab s < int (length tabNames) \<Longrightarrow>
     0 \<le> ui_activeTab (snd (snd (tui_OnEvent c e s))) \<and> ui_activeTab (snd (snd (tui_OnEvent c e s))) < int (length tabNames)"
  by (auto simp: tui_OnEvent_def tui_fallback_def tabNames_def split: tui_event.split)

lemma typing_never_quits: "ui_quit (snd (snd (tui_OnEvent True (Typed t) s))) = ui_quit s"
  by (simp add: tui_OnEvent_def)

section \<open>The update protocol\<close>

text \<open>A network thread between its push and the end of the trigger; the loop inside its handler.\<close>

datatype producer = Pushed | Won
datatype loop_phase = Waiting | Taken | Cleared

record 'a updates =
  up_queue :: "'a tsqueue"
  up_pending :: bool
  up_events :: "tui_event list"
  up_producers :: "producer list"
  up_phase :: loop_phase
  up_drained :: "'a list"
  up_ui :: tui

definition updates_start :: "'a updates" where
  "updates_start = \<lparr>up_queue = [], up_pending = False, up_events = [], up_producers = [], up_phase = Waiting,
     up_drained = [], up_ui = buildLayout\<rparr>"

definition drain_queue :: "'a updates \<Rightarrow> 'a updates" where
  "drain_queue s = (let (xs, q) = ts_tryPopAll (up_queue s) in s\<lparr>up_queue := q, up_drained := up_drained s @ xs\<rparr>)"

inductive update_step :: "'a updates \<Rightarrow> 'a updates \<Rightarrow> bool" where
  push: "update_step s (s\<lparr>up_queue := ts_push x (up_queue s), up_producers := Pushed # up_producers s\<rparr>)"
| exchange_wins: "up_producers s = ps @ Pushed # qs \<Longrightarrow> \<not> up_pending s \<Longrightarrow>
     update_step s (s\<lparr>up_pending := True, up_producers := ps @ Won # qs\<rparr>)"
| exchange_loses: "up_producers s = ps @ Pushed # qs \<Longrightarrow> up_pending s \<Longrightarrow>
     update_step s (s\<lparr>up_producers := ps @ qs\<rparr>)"
| post: "up_producers s = ps @ Won # qs \<Longrightarrow>
     update_step s (s\<lparr>up_events := up_events s @ [Custom], up_producers := ps @ qs\<rparr>)"
| input: "update_step s (s\<lparr>up_events := up_events s @ [e]\<rparr>)"
| switch: "update_step s (s\<lparr>up_ui := switch_tab 2 (up_ui s), up_events := up_events s @ [Custom]\<rparr>)"
| take_custom: "up_phase s = Waiting \<Longrightarrow> up_events s = Custom # es \<Longrightarrow>
     update_step s (s\<lparr>up_events := es, up_phase := Taken\<rparr>)"
| clear_flag: "up_phase s = Taken \<Longrightarrow> update_step s (s\<lparr>up_pending := False, up_phase := Cleared\<rparr>)"
| drained: "up_phase s = Cleared \<Longrightarrow> update_step s ((drain_queue s)\<lparr>up_phase := Waiting\<rparr>)"
| take_other: "up_phase s = Waiting \<Longrightarrow> up_events s = e # es \<Longrightarrow> e \<noteq> Custom \<Longrightarrow>
     tui_OnEvent c e (up_ui s) = (r, drains, ui) \<Longrightarrow>
     update_step s ((if drains then drain_queue s else s)\<lparr>up_events := es, up_ui := ui\<rparr>)"

inductive_cases update_stepE: "update_step s s'"

inductive update_reachable :: "'a updates \<Rightarrow> bool" where
  start: "update_reachable updates_start"
| step: "update_reachable s \<Longrightarrow> update_step s s' \<Longrightarrow> update_reachable s'"

text \<open>
  A pending flag is backed by a post to come, an event in the queue or the handler that will clear it; an
  item in the queue by a trigger to come, the flag, or the handler that will drain.
\<close>

definition flag_backed :: "'a updates \<Rightarrow> bool" where
  "flag_backed s \<longleftrightarrow> (up_pending s \<longrightarrow> Won \<in> set (up_producers s) \<or> Custom \<in> set (up_events s) \<or> up_phase s = Taken)"

definition item_backed :: "'a updates \<Rightarrow> bool" where
  "item_backed s \<longleftrightarrow> (up_queue s \<noteq> [] \<longrightarrow> Pushed \<in> set (up_producers s) \<or> up_pending s \<or> up_phase s = Taken \<or> up_phase s = Cleared)"

lemma drain_queue_simps [simp]:
  "up_queue (drain_queue s) = []" "up_pending (drain_queue s) = up_pending s" "up_events (drain_queue s) = up_events s"
  "up_producers (drain_queue s) = up_producers s" "up_phase (drain_queue s) = up_phase s" "up_ui (drain_queue s) = up_ui s"
  "up_drained (drain_queue s) = up_drained s @ up_queue s"
  by (simp_all add: drain_queue_def ts_tryPopAll_all)

lemma update_step_backed:
  "update_step s s' \<Longrightarrow> flag_backed s \<and> item_backed s \<Longrightarrow> flag_backed s' \<and> item_backed s'"
  by (induction rule: update_step.induct) (auto simp: flag_backed_def item_backed_def ts_push_def)

lemma update_reachable_backed: "update_reachable s \<Longrightarrow> flag_backed s \<and> item_backed s"
proof (induction rule: update_reachable.induct)
  case start
  show ?case by (simp add: flag_backed_def item_backed_def updates_start_def)
next
  case (step s s')
  then show ?case using update_step_backed by blast
qed

section \<open>The decoder\<close>

record decoder =
  dc_inputText :: string
  dc_outputText :: string
  dc_selectedMode :: int
  dc_lastInputText :: string
  dc_lastSelectedMode :: int

definition MakeDecoderTab :: decoder where
  "MakeDecoderTab = \<lparr>dc_inputText = [], dc_outputText = [], dc_selectedMode = 0, dc_lastInputText = [], dc_lastSelectedMode = -1\<rparr>"

definition transform :: "int \<Rightarrow> string \<Rightarrow> string option" where
  "transform mode s =
     (if mode = 0 then Some (base64Encode s) else if mode = 1 then Some (base64Decode s)
      else if mode = 2 then Some (urlEncode s) else if mode = 3 then Some (urlDecode s)
      else if mode = 4 then Some (hexEncode s) else if mode = 5 then Some (hexDecode s) else None)"

text \<open>A frame transforms when input or mode changed, and shows the output.\<close>

definition dc_Render :: "decoder \<Rightarrow> decoder \<times> element" where
  "dc_Render s =
     (let s' = (if dc_inputText s \<noteq> dc_lastInputText s \<or> dc_selectedMode s \<noteq> dc_lastSelectedMode s
                then s\<lparr>dc_lastInputText := dc_inputText s, dc_lastSelectedMode := dc_selectedMode s,
                       dc_outputText := (case transform (dc_selectedMode s) (dc_inputText s) of
                          None \<Rightarrow> dc_outputText s | Some t \<Rightarrow> t)\<rparr>
                else s)
      in (s', Vbox [FormatBodyElement (dc_outputText s') []]))"

datatype decoder_event = DcInput string | DcMode int | DcRender

fun decoder_run :: "decoder_event list \<Rightarrow> decoder \<Rightarrow> decoder" where
  "decoder_run [] s = s"
| "decoder_run (DcInput t # es) s = decoder_run es (s\<lparr>dc_inputText := t\<rparr>)"
| "decoder_run (DcMode m # es) s = decoder_run es (s\<lparr>dc_selectedMode := m\<rparr>)"
| "decoder_run (DcRender # es) s = decoder_run es (fst (dc_Render s))"

text \<open>The output last computed is that of the input and mode last seen.\<close>

definition decoder_inv :: "decoder \<Rightarrow> bool" where
  "decoder_inv s \<longleftrightarrow> (case transform (dc_lastSelectedMode s) (dc_lastInputText s) of
     None \<Rightarrow> True | Some t \<Rightarrow> dc_outputText s = t)"

lemma decoder_inv_fields [simp]:
  "decoder_inv (s\<lparr>dc_inputText := t\<rparr>) = decoder_inv s" "decoder_inv (s\<lparr>dc_selectedMode := m\<rparr>) = decoder_inv s"
  by (simp_all add: decoder_inv_def split: option.split)

lemma decoder_inv_render: "decoder_inv s \<Longrightarrow> decoder_inv (fst (dc_Render s))"
  by (simp add: decoder_inv_def dc_Render_def Let_def split: option.split)

lemma decoder_run_inv: "decoder_inv s \<Longrightarrow> decoder_inv (decoder_run es s)"
  by (induction es s rule: decoder_run.induct) (simp_all add: decoder_inv_render)

lemma decoder_shows_transform:
  assumes "transform m (dc_inputText s) = Some t" "dc_selectedMode s = m" "decoder_inv s"
  shows "dc_outputText (fst (dc_Render s)) = t"
  using assms decoder_inv_render [OF assms(3)] by (auto simp: decoder_inv_def dc_Render_def Let_def)

text \<open>Pasting an encoding and choosing the decoder gives the text back.\<close>

lemma decoder_undoes:
  assumes "k \<in> {0, 2, 4}" "transform k t = Some u" "decoder_inv s"
  shows "dc_outputText (decoder_run [DcInput u, DcMode (k + 1), DcRender] s) = t"
proof -
  have "transform (k + 1) u = Some t"
    using assms(1,2) b64.decode_encode url.decode_encode hex.decode_encode by (auto simp: transform_def)
  moreover have "decoder_inv (s\<lparr>dc_inputText := u, dc_selectedMode := k + 1\<rparr>)"
    using assms(3) by simp
  ultimately show ?thesis
    using decoder_shows_transform [of "k + 1" "s\<lparr>dc_inputText := u, dc_selectedMode := k + 1\<rparr>" t] by simp
qed

section \<open>Properties\<close>

text \<open>
  C25: No update is lost. However the pushes, triggers and posts of any number of network threads, the input
  events and the steps of the interface loop interleave: when no thread is inside its push and trigger
  and the loop waits for an event, a queued transaction has an update event waiting for it, so that the
  loop will drain it.
\<close>
theorem no_update_is_lost:
  assumes "update_reachable s" "up_producers s = []" "up_phase s = Waiting" "up_queue s \<noteq> []"
  shows "Custom \<in> set (up_events s)"
  using update_reachable_backed [OF assms(1)] assms(2-4) by (simp add: flag_backed_def item_backed_def)

definition demo_updates :: "nat updates" where
  "demo_updates = updates_start\<lparr>up_queue := [5], up_pending := True, up_events := [Custom]\<rparr>"

lemma demo_updates_reachable: "update_reachable demo_updates"
proof -
  let ?a = "updates_start :: nat updates"
  let ?b = "?a\<lparr>up_queue := ts_push 5 (up_queue ?a), up_producers := Pushed # up_producers ?a\<rparr>"
  let ?c = "?b\<lparr>up_pending := True, up_producers := [] @ Won # []\<rparr>"
  let ?d = "?c\<lparr>up_events := up_events ?c @ [Custom], up_producers := [] @ []\<rparr>"
  have "update_reachable ?b" by (rule update_reachable.step [OF update_reachable.start update_step.push])
  moreover have "update_step ?b ?c" by (rule update_step.exchange_wins) (simp_all add: updates_start_def)
  moreover have "update_step ?c ?d" by (rule update_step.post) simp
  ultimately have "update_reachable ?d" by (blast intro: update_reachable.step)
  then show ?thesis by (simp add: demo_updates_def updates_start_def ts_push_def)
qed

lemma no_update_is_lost_witness: "up_queue demo_updates = [5] \<and> Custom \<in> set (up_events demo_updates)"
  using no_update_is_lost [OF demo_updates_reachable] by (simp add: demo_updates_def updates_start_def)

end
