(* ===== verification/Certificates.thy ===== *)
theory Certificates
  imports CertCache "HOL-Library.Monad_Syntax"
begin

text \<open>
  The root certificate (\<open>src/src/proxy/SslInit.cpp\<close>) and the certificates minted with it
  (\<open>src/src/proxy/CertGenerator.cpp\<close>). A certificate is the record of the fields the code sets; keys are
  numbers. What OpenSSL does (whether calls succeed, the random serial number, the PEM text of certificates
  and keys and its reading) is the record \<open>crypto\<close>, what the file system allows the record \<open>fs_env\<close>;
  the files themselves are state.
\<close>

section \<open>Certificates, cryptography, files\<close>

type_synonym pkey = nat

record certificate =
  x_version :: nat
  x_serial :: "64 word"
  x_notBefore :: int
  x_notAfter :: int
  x_pubkey :: pkey
  x_subject :: "(string \<times> string) list"
  x_issuer :: "(string \<times> string) list"
  x_extensions :: "(string \<times> string) list"
  x_signedBy :: pkey

record crypto =
  cr_init :: bool
  cr_newKey :: "pkey option"
  cr_newCert :: bool
  cr_entry :: "string \<Rightarrow> string \<Rightarrow> bool"
  cr_extension :: "string \<Rightarrow> string \<Rightarrow> bool"
  cr_sign :: bool
  cr_random :: "64 word option"
  cr_hash :: "string \<Rightarrow> nat"
  cr_pemCert :: "certificate \<Rightarrow> string"
  cr_pemKey :: "pkey \<Rightarrow> string"
  cr_readCert :: "string \<Rightarrow> certificate option"
  cr_readKey :: "string \<Rightarrow> pkey option"
  cr_matches :: "certificate \<Rightarrow> pkey \<Rightarrow> bool"

text \<open>Creating a directory succeeds, fails or throws; a full disk leaves what is written empty.\<close>

record fs_env =
  en_createDir :: "string \<Rightarrow> bool option"
  en_reads :: "string \<Rightarrow> bool"
  en_writes :: "string \<Rightarrow> bool"
  en_full :: bool

record files =
  fs_dirs :: "string list"
  fs_files :: "string \<rightharpoonup> string"

definition path_join :: "string \<Rightarrow> string \<Rightarrow> string" where
  "path_join d f = (if d = [] \<or> last d = CHR ''/'' then d @ f else d @ ''/'' @ f)"

definition fs_exists :: "string \<Rightarrow> files \<Rightarrow> bool" where
  "fs_exists p fs \<longleftrightarrow> p \<in> set (fs_dirs fs) \<or> fs_files fs p \<noteq> None"

text \<open>\<open>BIO_new_file\<close> for reading, then \<open>PEM_read\<close>: no file, or its text; for writing, then \<open>PEM_write\<close>.\<close>

definition fs_read :: "fs_env \<Rightarrow> string \<Rightarrow> files \<Rightarrow> string option" where
  "fs_read en p fs = (if en_reads en p then fs_files fs p else None)"

definition fs_write :: "fs_env \<Rightarrow> string \<Rightarrow> string \<Rightarrow> files \<Rightarrow> files option" where
  "fs_write en p t fs = (if en_writes en p then Some (fs\<lparr>fs_files := (fs_files fs)(p \<mapsto> if en_full en then [] else t)\<rparr>) else None)"

section \<open>SslInit\<close>

record ssl_init =
  si_caCert :: "certificate option"
  si_caKey :: "pkey option"
  si_caDir :: string
  si_caCertPath :: string
  si_caKeyPath :: string
  si_initialized :: bool

definition SslInit :: ssl_init where
  "SslInit = \<lparr>si_caCert = None, si_caKey = None, si_caDir = [], si_caCertPath = [], si_caKeyPath = [],
     si_initialized = False\<rparr>"

definition initOpenSSL :: "crypto \<Rightarrow> bool" where
  "initOpenSSL cr = cr_init cr"

definition ensureCaDirectory :: "fs_env \<Rightarrow> string \<Rightarrow> files \<Rightarrow> bool \<times> files" where
  "ensureCaDirectory en dir fs =
     (if \<not> fs_exists dir fs
      then (case en_createDir en dir of
              Some True \<Rightarrow> (True, fs\<lparr>fs_dirs := dir # fs_dirs fs\<rparr>)
            | Some False \<Rightarrow> (False, fs)
            | None \<Rightarrow> (False, fs))
      else (True, fs))"

text \<open>The extensions that OpenSSL accepts are added, in order; the others are left out with a warning.\<close>

definition add_extensions :: "crypto \<Rightarrow> (string \<times> string) list \<Rightarrow> certificate \<Rightarrow> certificate" where
  "add_extensions cr xs c = c\<lparr>x_extensions := x_extensions c @ filter (\<lambda>x. cr_extension cr (fst x) (snd x)) xs\<rparr>"

text \<open>The entries of a name that OpenSSL accepts; what a call refuses (a CN over 64 characters) is left out silently.\<close>

definition add_entries :: "crypto \<Rightarrow> (string \<times> string) list \<Rightarrow> (string \<times> string) list" where
  "add_entries cr = filter (\<lambda>x. cr_entry cr (fst x) (snd x))"

definition c_str :: "string \<Rightarrow> string" where
  "c_str = takeWhile (\<lambda>c. c \<noteq> CHR 0x00)"

definition ca_name :: "(string \<times> string) list" where
  "ca_name = [(''C'', ''XX''), (''ST'', ''BurpTUI''), (''L'', ''Proxy''), (''O'', ''BurpTUI''), (''CN'', ''BurpTUI Root CA'')]"

definition root_certificate :: "crypto \<Rightarrow> pkey \<Rightarrow> certificate" where
  "root_certificate cr pkey =
     add_extensions cr [(''basicConstraints'', ''critical,CA:TRUE''), (''keyUsage'', ''critical,keyCertSign,cRLSign''),
         (''subjectKeyIdentifier'', ''hash'')]
       \<lparr>x_version = 2, x_serial = 1, x_notBefore = 0, x_notAfter = 10 * 365 * 24 * 60 * 60, x_pubkey = pkey,
        x_subject = add_entries cr ca_name, x_issuer = add_entries cr ca_name, x_extensions = [], x_signedBy = pkey\<rparr>"

definition generateRootCA :: "crypto \<Rightarrow> fs_env \<Rightarrow> string \<Rightarrow> string \<Rightarrow> ssl_init \<Rightarrow> files \<Rightarrow> bool \<times> ssl_init \<times> files" where
  "generateRootCA cr en certPath keyPath s fs =
     (case cr_newKey cr of
        None \<Rightarrow> (False, s, fs)
      | Some pkey \<Rightarrow>
          if \<not> cr_newCert cr then (False, s, fs)
          else if \<not> cr_sign cr then (False, s, fs)
          else let cert = root_certificate cr pkey
               in case fs_write en keyPath (cr_pemKey cr pkey) fs of
                    None \<Rightarrow> (False, s, fs)
                  | Some fs1 \<Rightarrow>
                      (case fs_write en certPath (cr_pemCert cr cert) fs1 of
                         None \<Rightarrow> (False, s, fs1)
                       | Some fs2 \<Rightarrow> (True, s\<lparr>si_caCert := Some cert, si_caKey := Some pkey\<rparr>, fs2)))"

definition loadRootCA :: "crypto \<Rightarrow> fs_env \<Rightarrow> string \<Rightarrow> string \<Rightarrow> ssl_init \<Rightarrow> files \<Rightarrow> bool \<times> ssl_init" where
  "loadRootCA cr en certPath keyPath s fs =
     (case fs_read en certPath fs of
        None \<Rightarrow> (False, s)
      | Some ctext \<Rightarrow>
          (case cr_readCert cr ctext of
             None \<Rightarrow> (False, s\<lparr>si_caCert := None\<rparr>)
           | Some cert \<Rightarrow>
               (case fs_read en keyPath fs of
                  None \<Rightarrow> (False, s\<lparr>si_caCert := None\<rparr>)
                | Some ktext \<Rightarrow>
                    (case cr_readKey cr ktext of
                       None \<Rightarrow> (False, s\<lparr>si_caCert := None, si_caKey := None\<rparr>)
                     | Some pkey \<Rightarrow>
                         if \<not> cr_matches cr cert pkey then (False, s\<lparr>si_caCert := None, si_caKey := None\<rparr>)
                         else (True, s\<lparr>si_caCert := Some cert, si_caKey := Some pkey\<rparr>)))))"

definition initialize :: "crypto \<Rightarrow> fs_env \<Rightarrow> string \<Rightarrow> ssl_init \<Rightarrow> files \<Rightarrow> bool \<times> ssl_init \<times> files" where
  "initialize cr en caDir s fs =
     (if si_initialized s then (True, s, fs)
      else let certPath = path_join caDir ''ca.crt''; keyPath = path_join caDir ''ca.key'';
               s1 = s\<lparr>si_caDir := caDir, si_caCertPath := certPath, si_caKeyPath := keyPath\<rparr>
           in if \<not> initOpenSSL cr then (False, s1, fs)
              else let (ok, fs1) = ensureCaDirectory en caDir fs
                   in if \<not> ok then (False, s1, fs1)
                      else let (ok, s2, fs2) =
                             (if fs_exists certPath fs1 \<and> fs_exists keyPath fs1
                              then let (ok, s2) = loadRootCA cr en certPath keyPath s1 fs1 in (ok, s2, fs1)
                              else generateRootCA cr en certPath keyPath s1 fs1)
                           in if \<not> ok then (False, s2, fs2) else (True, s2\<lparr>si_initialized := True\<rparr>, fs2))"

section \<open>CertGenerator\<close>

record cert_generator =
  cg_caKeyPath :: string
  cg_caCertPath :: string
  cg_localCaCert :: "certificate option"
  cg_localCaKey :: "pkey option"

definition CertGenerator :: "string \<Rightarrow> string \<Rightarrow> cert_generator" where
  "CertGenerator caKeyPath caCertPath =
     \<lparr>cg_caKeyPath = caKeyPath, cg_caCertPath = caCertPath, cg_localCaCert = None, cg_localCaKey = None\<rparr>"

text \<open>The fallback: what is not loaded yet is read from the given paths.\<close>

definition load_local :: "crypto \<Rightarrow> fs_env \<Rightarrow> files \<Rightarrow> cert_generator \<Rightarrow> cert_generator" where
  "load_local cr en fs g =
     (let g1 = (if cg_localCaCert g = None
                then g\<lparr>cg_localCaCert := Option.bind (fs_read en (cg_caCertPath g) fs) (cr_readCert cr)\<rparr> else g)
      in if cg_localCaKey g1 = None
         then g1\<lparr>cg_localCaKey := Option.bind (fs_read en (cg_caKeyPath g1) fs) (cr_readKey cr)\<rparr> else g1)"

definition signing_ca :: "crypto \<Rightarrow> fs_env \<Rightarrow> ssl_init \<Rightarrow> files \<Rightarrow> cert_generator
    \<Rightarrow> certificate option \<times> pkey option \<times> cert_generator" where
  "signing_ca cr en si fs g =
     (let caCert = (if si_initialized si then si_caCert si else None);
          caKey = (if si_initialized si then si_caKey si else None)
      in if (caCert = None \<or> caKey = None) \<and> cg_caCertPath g \<noteq> [] \<and> cg_caKeyPath g \<noteq> []
         then let g1 = load_local cr en fs g in (cg_localCaCert g1, cg_localCaKey g1, g1)
         else (caCert, caKey, g))"

definition leaf_extensions :: "string \<Rightarrow> (string \<times> string) list" where
  "leaf_extensions hostname =
     [(''basicConstraints'', ''critical,CA:FALSE''), (''keyUsage'', ''digitalSignature,keyEncipherment''),
      (''extendedKeyUsage'', ''serverAuth,clientAuth''), (''subjectAltName'', c_str (''DNS:'' @ hostname)),
      (''subjectKeyIdentifier'', ''hash''), (''authorityKeyIdentifier'', ''keyid:always,issuer'')]"

definition leaf_certificate :: "crypto \<Rightarrow> certificate \<Rightarrow> pkey \<Rightarrow> pkey \<Rightarrow> string \<Rightarrow> certificate" where
  "leaf_certificate cr caCert caKey leafKey hostname =
     add_extensions cr (leaf_extensions hostname)
       \<lparr>x_version = 2,
        x_serial = (case cr_random cr of Some n \<Rightarrow> n | None \<Rightarrow> word_of_nat (1000 + cr_hash cr hostname mod 1000000)),
        x_notBefore = -86400, x_notAfter = 365 * 86400, x_pubkey = leafKey,
        x_subject = add_entries cr [(''CN'', c_str hostname), (''O'', ''BurpTUI Dynamic CA'')], x_issuer = x_subject caCert,
        x_extensions = [], x_signedBy = caKey\<rparr>"

definition generate :: "crypto \<Rightarrow> fs_env \<Rightarrow> ssl_init \<Rightarrow> files \<Rightarrow> string \<Rightarrow> cert_generator \<Rightarrow> cert_key_pair \<times> cert_generator" where
  "generate cr en si fs hostname g =
     (if hostname = [] then (empty_pair, g)
      else let (caCert, caKey, g1) = signing_ca cr en si fs g
           in case (caCert, caKey) of
                (Some cc, Some ck) \<Rightarrow>
                  (case cr_newKey cr of
                     None \<Rightarrow> (empty_pair, g1)
                   | Some leafKey \<Rightarrow>
                       if \<not> cr_newCert cr then (empty_pair, g1)
                       else if \<not> cr_sign cr then (empty_pair, g1)
                       else let pair = \<lparr>certPem = cr_pemCert cr (leaf_certificate cr cc ck leafKey hostname),
                                        keyPem = cr_pemKey cr leafKey\<rparr>
                            in if certPem pair = [] \<or> keyPem pair = [] then (empty_pair, g1) else (pair, g1))
              | _ \<Rightarrow> (empty_pair, g1))"

section \<open>Lemmas on files and directories\<close>

lemma path_join_distinct [simp]: "path_join d ''ca.crt'' \<noteq> path_join d ''ca.key''"
  by (simp add: path_join_def)

lemma fs_write_dirs: "fs_write en p t fs = Some fs' \<Longrightarrow> fs_dirs fs' = fs_dirs fs"
  by (auto simp: fs_write_def split: if_splits)

lemma fs_write_files: "\<lbrakk>fs_write en p t fs = Some fs'; \<not> en_full en\<rbrakk> \<Longrightarrow> fs_files fs' = (fs_files fs)(p \<mapsto> t)"
  by (auto simp: fs_write_def split: if_splits)

lemma fs_write_exists: "fs_write en p t fs = Some fs' \<Longrightarrow> fs_exists q fs' \<longleftrightarrow> q = p \<or> fs_exists q fs"
  by (auto simp: fs_write_def fs_exists_def split: if_splits)

lemma ensureCaDirectory_exists: "ensureCaDirectory en dir fs = (True, fs') \<Longrightarrow> fs_exists dir fs'"
  by (auto simp: ensureCaDirectory_def fs_exists_def split: if_splits option.splits bool.splits)

lemma ensureCaDirectory_existing: "fs_exists dir fs \<Longrightarrow> ensureCaDirectory en dir fs = (True, fs)"
  by (simp add: ensureCaDirectory_def)

lemma load_local_loaded [simp]:
  "\<lbrakk>cg_localCaCert g \<noteq> None; cg_localCaKey g \<noteq> None\<rbrakk> \<Longrightarrow> load_local cr en fs g = g"
  by (auto simp: load_local_def Let_def)

section \<open>The root certificate over restarts\<close>

text \<open>
  What the code relies on in OpenSSL: the PEM text of a root certificate and of a key is read back as what was
  written, and the private key of a certificate matches it. Renewing the entropy changes none of this.
\<close>

definition pem_reads_back :: "crypto \<Rightarrow> bool" where
  "pem_reads_back cr \<longleftrightarrow>
     (\<forall>k. cr_readCert cr (cr_pemCert cr (root_certificate cr k)) = Some (root_certificate cr k)) \<and>
     (\<forall>k. cr_readKey cr (cr_pemKey cr k) = Some k) \<and> (\<forall>c k. cr_matches cr c k \<longleftrightarrow> x_pubkey c = k)"

definition renew_entropy :: "pkey option \<Rightarrow> 64 word option \<Rightarrow> crypto \<Rightarrow> crypto" where
  "renew_entropy k r cr = cr\<lparr>cr_newKey := k, cr_random := r\<rparr>"

lemma renew_entropy_simps [simp]:
  "cr_init (renew_entropy k r cr) = cr_init cr" "cr_newKey (renew_entropy k r cr) = k"
  "cr_readCert (renew_entropy k r cr) = cr_readCert cr" "cr_readKey (renew_entropy k r cr) = cr_readKey cr"
  "cr_matches (renew_entropy k r cr) = cr_matches cr" "cr_pemCert (renew_entropy k r cr) = cr_pemCert cr"
  "cr_pemKey (renew_entropy k r cr) = cr_pemKey cr" "cr_extension (renew_entropy k r cr) = cr_extension cr"
  by (simp_all add: renew_entropy_def)

lemma root_certificate_fields [simp]:
  "x_pubkey (root_certificate cr k) = k" "x_signedBy (root_certificate cr k) = k"
  "x_subject (root_certificate cr k) = add_entries cr ca_name"
  "x_issuer (root_certificate cr k) = add_entries cr ca_name"
  by (simp_all add: root_certificate_def add_extensions_def)

lemma loadRootCA_renew [simp]: "loadRootCA (renew_entropy k r cr) en cp kp s fs = loadRootCA cr en cp kp s fs"
  by (simp add: loadRootCA_def split: option.split)

text \<open>A successful load sets the certificate and key in the files and nothing else, whatever was loaded before.\<close>

lemma loadRootCA_ok_iff:
  "loadRootCA cr en cp kp s fs = (True, s') \<longleftrightarrow>
     (\<exists>ct kt c k. fs_read en cp fs = Some ct \<and> cr_readCert cr ct = Some c \<and> fs_read en kp fs = Some kt \<and>
        cr_readKey cr kt = Some k \<and> cr_matches cr c k \<and> s' = s\<lparr>si_caCert := Some c, si_caKey := Some k\<rparr>)"
  by (auto simp: loadRootCA_def split: option.splits)

lemma generateRootCA_ok_iff:
  "generateRootCA cr en cp kp s fs = (True, s', fs2) \<longleftrightarrow>
     (\<exists>k fs1. cr_newKey cr = Some k \<and> cr_newCert cr \<and> cr_sign cr \<and> fs_write en kp (cr_pemKey cr k) fs = Some fs1 \<and>
        fs_write en cp (cr_pemCert cr (root_certificate cr k)) fs1 = Some fs2 \<and>
        s' = s\<lparr>si_caCert := Some (root_certificate cr k), si_caKey := Some k\<rparr>)"
  by (auto simp: generateRootCA_def Let_def split: option.splits)

abbreviation with_paths :: "string \<Rightarrow> ssl_init \<Rightarrow> ssl_init" where
  "with_paths dir s \<equiv> s\<lparr>si_caDir := dir, si_caCertPath := path_join dir ''ca.crt'', si_caKeyPath := path_join dir ''ca.key''\<rparr>"

text \<open>What a start leaves: the directory, both files, and what loading them again yields.\<close>

lemma initialize_ok_cases:
  assumes "initialize cr en dir s fs = (True, s', fs')" and "\<not> si_initialized s"
  obtains (load) s2 where "cr_init cr" "ensureCaDirectory en dir fs = (True, fs')"
      "fs_exists (path_join dir ''ca.crt'') fs'" "fs_exists (path_join dir ''ca.key'') fs'"
      "loadRootCA cr en (path_join dir ''ca.crt'') (path_join dir ''ca.key'') (with_paths dir s) fs' = (True, s2)"
      "s' = s2\<lparr>si_initialized := True\<rparr>"
    | (create) s2 fs1 where "cr_init cr" "ensureCaDirectory en dir fs = (True, fs1)"
      "generateRootCA cr en (path_join dir ''ca.crt'') (path_join dir ''ca.key'') (with_paths dir s) fs1 = (True, s2, fs')"
      "s' = s2\<lparr>si_initialized := True\<rparr>"
  using assms by (auto simp: initialize_def Let_def initOpenSSL_def split: if_splits prod.splits)

lemma initialize_loads:
  assumes "cr_init cr" "\<not> si_initialized s" "fs_exists dir fs"
    and "fs_exists (path_join dir ''ca.crt'') fs" "fs_exists (path_join dir ''ca.key'') fs"
    and "loadRootCA cr en (path_join dir ''ca.crt'') (path_join dir ''ca.key'') (with_paths dir s) fs = (True, s2)"
  shows "initialize cr en dir s fs = (True, s2\<lparr>si_initialized := True\<rparr>, fs)"
  using assms by (simp add: initialize_def Let_def initOpenSSL_def ensureCaDirectory_existing)

lemma generated_ca_loads:
  assumes gen: "generateRootCA cr en cp kp s fs = (True, s2, fs2)" and "cp \<noteq> kp" "\<not> en_full en"
    and "en_reads en cp" "en_reads en kp" "pem_reads_back cr"
  shows "loadRootCA cr en cp kp s fs2 = (True, s2)"
proof -
  from gen obtain k fs1 where k: "fs_write en kp (cr_pemKey cr k) fs = Some fs1"
      "fs_write en cp (cr_pemCert cr (root_certificate cr k)) fs1 = Some fs2"
      "s2 = s\<lparr>si_caCert := Some (root_certificate cr k), si_caKey := Some k\<rparr>"
    by (auto simp: generateRootCA_ok_iff)
  have "fs_files fs2 = (fs_files fs)(kp \<mapsto> cr_pemKey cr k, cp \<mapsto> cr_pemCert cr (root_certificate cr k))"
    using k(1,2) \<open>\<not> en_full en\<close> by (simp add: fs_write_files)
  thus ?thesis
    using assms k(3) by (simp add: loadRootCA_ok_iff fs_read_def pem_reads_back_def)
qed

text \<open>
  C32: The root certificate survives restarts. When the first start of the proxy succeeds (by loading the
  files of an earlier run, or by creating directory, key and certificate), every later start that finds
  these files succeeds with the same certificate and key and writes nothing, although key generation would
  now give another key. Needed are readable files, a disk that was not full and PEM texts that read back.\<close>
theorem ca_survives_restart:
  assumes "initialize cr en dir SslInit fs = (True, s, fs1)" "\<not> en_full en" "pem_reads_back cr"
    and "en_reads en (path_join dir ''ca.crt'')" "en_reads en (path_join dir ''ca.key'')"
  shows "initialize (renew_entropy k r cr) en dir SslInit fs1 = (True, s, fs1)"
proof (rule initialize_ok_cases [OF assms(1)])
  show "\<not> si_initialized SslInit" by (simp add: SslInit_def)
next
  fix s2
  assume "cr_init cr" "ensureCaDirectory en dir fs = (True, fs1)" "s = s2\<lparr>si_initialized := True\<rparr>"
    "fs_exists (path_join dir ''ca.crt'') fs1" "fs_exists (path_join dir ''ca.key'') fs1"
    "loadRootCA cr en (path_join dir ''ca.crt'') (path_join dir ''ca.key'') (with_paths dir SslInit) fs1 = (True, s2)"
  thus ?thesis by (simp add: initialize_loads SslInit_def ensureCaDirectory_exists)
next
  fix s2 fs0
  assume create: "cr_init cr" "ensureCaDirectory en dir fs = (True, fs0)"
    "generateRootCA cr en (path_join dir ''ca.crt'') (path_join dir ''ca.key'') (with_paths dir SslInit) fs0 = (True, s2, fs1)"
    "s = s2\<lparr>si_initialized := True\<rparr>"
  from create(3) obtain k0 fsm where w: "fs_write en (path_join dir ''ca.key'') (cr_pemKey cr k0) fs0 = Some fsm"
      "fs_write en (path_join dir ''ca.crt'') (cr_pemCert cr (root_certificate cr k0)) fsm = Some fs1"
    by (auto simp: generateRootCA_ok_iff)
  have "loadRootCA cr en (path_join dir ''ca.crt'') (path_join dir ''ca.key'') (with_paths dir SslInit) fs1 = (True, s2)"
    using generated_ca_loads [OF create(3)] assms by simp
  thus ?thesis
    using create ensureCaDirectory_exists [OF create(2)]
    by (simp add: initialize_loads SslInit_def fs_write_exists [OF w(1)] fs_write_exists [OF w(2)])
qed

text \<open>An OpenSSL in miniature: the PEM text of a certificate has as many letters as its key says.\<close>

definition demo_base :: crypto where
  "demo_base = \<lparr>cr_init = True, cr_newKey = Some 5, cr_newCert = True, cr_entry = (\<lambda>_ v. length v \<le> 64),
     cr_extension = (\<lambda>_ _. True), cr_sign = True, cr_random = Some 77, cr_hash = length,
     cr_pemCert = (\<lambda>c. ''C'' @ replicate (x_pubkey c) CHR ''x''), cr_pemKey = (\<lambda>k. ''K'' @ replicate k CHR ''x''),
     cr_readCert = (\<lambda>_. None), cr_readKey = (\<lambda>t. if t = [] then None else Some (length t - 1)),
     cr_matches = (\<lambda>c k. x_pubkey c = k)\<rparr>"

definition demo_crypto :: crypto where
  "demo_crypto = demo_base\<lparr>cr_readCert := \<lambda>t. if t = [] then None else Some (root_certificate demo_base (length t - 1))\<rparr>"

definition demo_fs_env :: fs_env where
  "demo_fs_env = \<lparr>en_createDir = (\<lambda>_. Some True), en_reads = (\<lambda>_. True), en_writes = (\<lambda>_. True), en_full = False\<rparr>"

definition demo_files :: files where
  "demo_files = \<lparr>fs_dirs = [], fs_files = Map.empty\<rparr>"

lemma demo_pem_reads_back: "pem_reads_back demo_crypto"
  by (simp add: pem_reads_back_def demo_crypto_def demo_base_def root_certificate_def add_extensions_def add_entries_def)

lemma demo_initialize:
  "initialize demo_crypto demo_fs_env ''./ca'' SslInit demo_files =
     (True, fst (snd (initialize demo_crypto demo_fs_env ''./ca'' SslInit demo_files)),
      snd (snd (initialize demo_crypto demo_fs_env ''./ca'' SslInit demo_files)))"
  by (simp add: initialize_def Let_def initOpenSSL_def ensureCaDirectory_def fs_exists_def generateRootCA_def
      demo_crypto_def demo_base_def demo_fs_env_def demo_files_def SslInit_def fs_write_def path_join_def)

lemma ca_survives_restart_witness:
  "initialize (renew_entropy (Some 9) None demo_crypto) demo_fs_env ''./ca'' SslInit
       (snd (snd (initialize demo_crypto demo_fs_env ''./ca'' SslInit demo_files))) =
     (True, fst (snd (initialize demo_crypto demo_fs_env ''./ca'' SslInit demo_files)),
      snd (snd (initialize demo_crypto demo_fs_env ''./ca'' SslInit demo_files)))"
  by (rule ca_survives_restart [OF demo_initialize _ demo_pem_reads_back]) (simp_all add: demo_fs_env_def)

section \<open>Certificates for hosts\<close>

text \<open>After a successful start a certificate and its key are at hand, and they belong together.\<close>

lemma initialized_ca:
  assumes "initialize cr en dir SslInit fs = (True, s, fs1)" "pem_reads_back cr"
  obtains ca where "si_initialized s" "si_caCert s = Some ca" "si_caKey s = Some (x_pubkey ca)"
proof (rule initialize_ok_cases [OF assms(1)])
  show "\<not> si_initialized SslInit" by (simp add: SslInit_def)
next
  fix s2
  assume "s = s2\<lparr>si_initialized := True\<rparr>"
    "loadRootCA cr en (path_join dir ''ca.crt'') (path_join dir ''ca.key'') (with_paths dir SslInit) fs1 = (True, s2)"
  thus ?thesis using that assms(2) by (auto simp: loadRootCA_ok_iff pem_reads_back_def)
next
  fix s2 fs0
  assume "s = s2\<lparr>si_initialized := True\<rparr>"
    "generateRootCA cr en (path_join dir ''ca.crt'') (path_join dir ''ca.key'') (with_paths dir SslInit) fs0 = (True, s2, fs1)"
  then obtain k where "s = (with_paths dir SslInit)\<lparr>si_caCert := Some (root_certificate cr k), si_caKey := Some k, si_initialized := True\<rparr>"
    by (auto simp: generateRootCA_ok_iff)
  thus ?thesis using that [of "root_certificate cr k"] by simp
qed

lemma leaf_certificate_fields [simp]:
  "x_pubkey (leaf_certificate cr ca k lk h) = lk" "x_issuer (leaf_certificate cr ca k lk h) = x_subject ca"
  "x_signedBy (leaf_certificate cr ca k lk h) = k"
  "x_subject (leaf_certificate cr ca k lk h) = add_entries cr [(''CN'', c_str h), (''O'', ''BurpTUI Dynamic CA'')]"
  "x_extensions (leaf_certificate cr ca k lk h) = filter (\<lambda>x. cr_extension cr (fst x) (snd x)) (leaf_extensions h)"
  by (simp_all add: leaf_certificate_def add_extensions_def)

text \<open>With the certificate and key at hand, minting is a function of the key drawn.\<close>

lemma generate_initialized:
  assumes "si_initialized s" "si_caCert s = Some ca" "si_caKey s = Some (x_pubkey ca)" "hostname \<noteq> []"
  shows "generate (renew_entropy k r cr) en s fs hostname g =
    (case k of None \<Rightarrow> empty_pair
     | Some leafKey \<Rightarrow>
         let c = leaf_certificate (renew_entropy k r cr) ca (x_pubkey ca) leafKey hostname
         in if cr_newCert cr \<and> cr_sign cr \<and> cr_pemCert cr c \<noteq> [] \<and> cr_pemKey cr leafKey \<noteq> []
            then \<lparr>certPem = cr_pemCert cr c, keyPem = cr_pemKey cr leafKey\<rparr> else empty_pair, g)"
  using assms by (cases k) (simp_all add: generate_def signing_ca_def Let_def renew_entropy_def)

text \<open>A minted certificate verifies. Once the proxy has started, minting for a host name either yields an
  empty pair (exactly when OpenSSL cannot make, sign or write the certificate) or the PEM texts of one
  certificate and of its own key, where the certificate is issued by the name of the root certificate, signed
  with the key that the root certificate carries, valid from a day ago on for a year, no CA, and made out for
  the host in its alternative names when OpenSSL accepts the name. The generator's own state is left alone.\<close>

theorem minted_certificate_verifies:
  assumes "initialize cr en dir SslInit fs = (True, s, fs1)" "pem_reads_back cr" "hostname \<noteq> []"
  shows "\<exists>(ca :: certificate) (c :: certificate). si_caCert s = Some ca \<and> x_issuer c = x_subject ca \<and> x_signedBy c = x_pubkey ca \<and> x_pubkey c = leafKey \<and>
    x_notBefore c = -86400 \<and> x_notAfter c = 31536000 \<and> (''basicConstraints'', ''critical,CA:TRUE'') \<notin> set (x_extensions c) \<and>
    ((''subjectAltName'', c_str (''DNS:'' @ hostname)) \<in> set (x_extensions c) \<longleftrightarrow>
      cr_extension cr ''subjectAltName'' (c_str (''DNS:'' @ hostname))) \<and>
    generate (renew_entropy (Some leafKey) r cr) en s fs1 hostname g =
      (if cr_newCert cr \<and> cr_sign cr \<and> cr_pemCert cr c \<noteq> [] \<and> cr_pemKey cr leafKey \<noteq> []
       then \<lparr>certPem = cr_pemCert cr c, keyPem = cr_pemKey cr leafKey\<rparr> else empty_pair, g)"
proof -
  obtain ca where ca: "si_initialized s" "si_caCert s = Some ca" "si_caKey s = Some (x_pubkey ca)"
    using initialized_ca [OF assms(1,2)] .
  define c where "c = leaf_certificate (renew_entropy (Some leafKey) r cr) ca (x_pubkey ca) leafKey hostname"
  note generate_initialized [OF ca assms(3), where k = "Some leafKey" and r = r and cr = cr and en = en and fs = fs1 and g = g]
  moreover have "x_notBefore c = -86400" "x_notAfter c = 31536000"
    by (simp_all add: c_def leaf_certificate_def add_extensions_def)
  ultimately show ?thesis
    using ca(2) by (intro exI [of _ ca] exI [of _ c]) (simp add: c_def leaf_extensions_def Let_def)
qed

lemma minted_certificate_verifies_witness:
  "\<exists>ca. \<exists>c :: certificate. si_caCert (fst (snd (initialize demo_crypto demo_fs_env ''./ca'' SslInit demo_files))) = Some ca \<and>
     x_issuer c = x_subject ca \<and> x_signedBy c = x_pubkey ca \<and> x_pubkey c = 9"
proof -
  have "''example.org'' \<noteq> []" by simp
  from minted_certificate_verifies [OF demo_initialize demo_pem_reads_back this, of 9 None "CertGenerator [] []"]
  show ?thesis by blast
qed

text \<open>
  Two ways to lose the certificate. If only the certificate file is missing, its key is overwritten before the
  certificate is written, so that a failure there leaves the old key lost; and as the results of the writes
  are ignored, a start on a full disk succeeds with two empty files, on which every later start fails.\<close>

lemma failed_generation_loses_key:
  assumes "cr_newKey cr = Some k" "cr_newCert cr" "cr_sign cr" "en_writes en kp" "\<not> en_writes en cp" "\<not> en_full en"
    and "fs_files fs kp = Some old_key"
  shows "\<exists>fs'. generateRootCA cr en cp kp s fs = (False, s, fs') \<and> fs_files fs' kp = Some (cr_pemKey cr k)"
  using assms by (simp add: generateRootCA_def Let_def fs_write_def)

lemma loadRootCA_empty:
  assumes "fs_files fs cp = Some []" "cr_readCert cr [] = None"
  shows "\<exists>s2. loadRootCA cr en cp kp s fs = (False, s2)"
  by (cases "en_reads en cp") (simp_all add: loadRootCA_def fs_read_def assms)

lemma full_disk_start_is_fatal_later:
  assumes "initialize cr en dir SslInit fs = (True, s, fs1)" "en_full en" "cr_readCert cr [] = None"
    and "\<not> (fs_exists (path_join dir ''ca.crt'') fs1 \<and> fs_exists (path_join dir ''ca.key'') fs1 \<and>
           fst (loadRootCA cr en (path_join dir ''ca.crt'') (path_join dir ''ca.key'') (with_paths dir SslInit) fs1))"
  shows "fst (initialize cr en2 dir SslInit fs1) = False"
proof (rule initialize_ok_cases [OF assms(1)])
  show "\<not> si_initialized SslInit" by (simp add: SslInit_def)
next
  fix s2
  assume "loadRootCA cr en (path_join dir ''ca.crt'') (path_join dir ''ca.key'') (with_paths dir SslInit) fs1 = (True, s2)"
    "fs_exists (path_join dir ''ca.crt'') fs1" "fs_exists (path_join dir ''ca.key'') fs1"
  thus ?thesis using assms(4) by simp
next
  fix s2 fs0
  assume a: "ensureCaDirectory en dir fs = (True, fs0)"
    "generateRootCA cr en (path_join dir ''ca.crt'') (path_join dir ''ca.key'') (with_paths dir SslInit) fs0 = (True, s2, fs1)"
  then obtain k fsm where w: "fs_write en (path_join dir ''ca.key'') (cr_pemKey cr k) fs0 = Some fsm"
      "fs_write en (path_join dir ''ca.crt'') (cr_pemCert cr (root_certificate cr k)) fsm = Some fs1"
    by (auto simp: generateRootCA_ok_iff)
  have "fs_files fs1 (path_join dir ''ca.crt'') = Some []"
    using w(2) assms(2) by (auto simp: fs_write_def split: if_splits)
  then obtain s3 where "loadRootCA cr en2 (path_join dir ''ca.crt'') (path_join dir ''ca.key'') (with_paths dir SslInit) fs1 = (False, s3)"
    using loadRootCA_empty [OF _ assms(3)] by blast
  thus ?thesis
    using ensureCaDirectory_exists [OF a(1)]
    by (simp add: initialize_def Let_def ensureCaDirectory_existing fs_write_exists [OF w(1)] fs_write_exists [OF w(2)]
        SslInit_def split: prod.splits)
qed

end
