(* ===== verification/ProxyServer.thy ===== *)
theory ProxyServer
  imports Session
begin

text \<open>
  The listening server of \<open>src/src/proxy/ProxyServer.cpp\<close>: one acceptor, one \<open>io_context\<close> run by one
  thread, and the sessions made of accepted connections, which are those of theory Session. The thread that
  calls start and stop and the io thread are interleaved: stop is four steps and a join, the io thread runs one
  completion at a time while it is in \<open>run\<close> and the context has not been stopped. Resolving, binding and
  the creation of the thread are the parameters \<open>bind_env\<close>; an exception that leaves a session's handler ends
  \<open>run\<close>, as the thread's own handler only logs it.
\<close>

section \<open>State, construction, start\<close>

datatype acceptor = Acc_closed | Acc_open | Acc_bound | Acc_listening

datatype stop_phase = No_stop | Flag_cleared | Acceptor_closed | Guard_reset | Stop_requested

record 'p proxy_server =
  ps_host :: string
  ps_port :: "16 word"
  ps_defaultCertGen :: bool
  ps_certCache :: bool
  ps_acceptor :: acceptor
  ps_accepts :: nat
  ps_guard :: bool
  ps_stopped :: bool
  ps_loop :: bool
  ps_joinable :: bool
  ps_running :: bool
  ps_phase :: stop_phase
  ps_sessions :: "'p session list"

text \<open>Without a certificate cache the server makes its own, so that every session has one.\<close>

definition ProxyServer :: "string \<Rightarrow> 16 word \<Rightarrow> bool \<Rightarrow> 'p proxy_server" where
  "ProxyServer host port given =
     \<lparr>ps_host = host, ps_port = port, ps_defaultCertGen = (\<not> given), ps_certCache = True, ps_acceptor = Acc_closed,
      ps_accepts = 0, ps_guard = True, ps_stopped = False, ps_loop = False, ps_joinable = False, ps_running = False,
      ps_phase = No_stop, ps_sessions = []\<rparr>"

definition doAccept :: "'p proxy_server \<Rightarrow> 'p proxy_server" where
  "doAccept s = (if \<not> ps_running s then s else s\<lparr>ps_accepts := ps_accepts s + 1\<rparr>)"

text \<open>What the calls of start do: each succeeds or throws. Opening an open acceptor throws in any case.\<close>

record bind_env =
  bn_resolve :: "string \<Rightarrow> string \<Rightarrow> bool"
  bn_open :: bool
  bn_option :: bool
  bn_bind :: bool
  bn_listen :: bool
  bn_thread :: bool

definition start_failed :: "'p proxy_server \<Rightarrow> 'p proxy_server" where
  "start_failed s = s\<lparr>ps_running := False\<rparr>"

definition server_start :: "bind_env \<Rightarrow> 'p proxy_server \<Rightarrow> 'p proxy_server" where
  "server_start bn s =
     (if ps_running s then s
      else if \<not> bn_resolve bn (ps_host s) (nat_to_string (unat (ps_port s))) then start_failed s
      else if ps_acceptor s \<noteq> Acc_closed \<or> \<not> bn_open bn then start_failed s
      else let s1 = s\<lparr>ps_acceptor := Acc_open\<rparr>
           in if \<not> bn_option bn \<or> \<not> bn_bind bn then start_failed s1
              else let s2 = s1\<lparr>ps_acceptor := Acc_bound\<rparr>
                   in if \<not> bn_listen bn then start_failed s2
                      else let s3 = doAccept (s2\<lparr>ps_acceptor := Acc_listening, ps_running := True\<rparr>)
                           in if \<not> bn_thread bn then start_failed s3
                              else s3\<lparr>ps_joinable := True, ps_loop := \<not> ps_stopped s3\<rparr>)"

text \<open>The completion of an accept, with a connection or an error.\<close>

definition handleAccept :: "'p llhttp \<Rightarrow> bool \<Rightarrow> 'p proxy_server \<Rightarrow> 'p proxy_server" where
  "handleAccept ll ok s =
     (let s1 = s\<lparr>ps_accepts := ps_accepts s - 1\<rparr>;
          s2 = (if ok then s1\<lparr>ps_sessions := ps_sessions s1 @ [session_start (Session ll (ps_certCache s1))]\<rparr> else s1)
      in doAccept s2)"

section \<open>Stop\<close>

definition stop_begin :: "'p proxy_server \<Rightarrow> 'p proxy_server" where
  "stop_begin s = (if \<not> ps_running s then s else s\<lparr>ps_running := False, ps_phase := Flag_cleared\<rparr>)"

definition stop_close :: "'p proxy_server \<Rightarrow> 'p proxy_server" where
  "stop_close s = s\<lparr>ps_acceptor := Acc_closed, ps_phase := Acceptor_closed\<rparr>"

definition stop_reset :: "'p proxy_server \<Rightarrow> 'p proxy_server" where
  "stop_reset s = s\<lparr>ps_guard := False, ps_phase := Guard_reset\<rparr>"

definition stop_io :: "'p proxy_server \<Rightarrow> 'p proxy_server" where
  "stop_io s = s\<lparr>ps_stopped := True, ps_phase := Stop_requested\<rparr>"

definition stop_join :: "'p proxy_server \<Rightarrow> 'p proxy_server" where
  "stop_join s = s\<lparr>ps_joinable := False, ps_phase := No_stop\<rparr>"

definition loop_exit :: "'p proxy_server \<Rightarrow> 'p proxy_server" where
  "loop_exit s = s\<lparr>ps_loop := False\<rparr>"

text \<open>The whole call, when the io thread is between two completions.\<close>

definition server_stop :: "'p proxy_server \<Rightarrow> 'p proxy_server" where
  "server_stop s = (if \<not> ps_running s then s
     else stop_join (loop_exit (stop_io (stop_reset (stop_close (stop_begin s))))))"

section \<open>Steps\<close>

inductive server_step :: "'p llhttp \<Rightarrow> 'p proxy_server \<Rightarrow> 'p proxy_server \<Rightarrow> bool" for ll where
  start: "ps_phase s = No_stop \<Longrightarrow> server_step ll s (server_start bn s)"
| stop: "ps_phase s = No_stop \<Longrightarrow> server_step ll s (stop_begin s)"
| stop2: "ps_phase s = Flag_cleared \<Longrightarrow> server_step ll s (stop_close s)"
| stop3: "ps_phase s = Acceptor_closed \<Longrightarrow> server_step ll s (stop_reset s)"
| stop4: "ps_phase s = Guard_reset \<Longrightarrow> server_step ll s (stop_io s)"
| join: "ps_phase s = Stop_requested \<Longrightarrow> \<not> ps_loop s \<Longrightarrow> server_step ll s (stop_join s)"
| accept: "ps_loop s \<Longrightarrow> \<not> ps_stopped s \<Longrightarrow> 0 < ps_accepts s \<Longrightarrow> (ok \<Longrightarrow> ps_acceptor s = Acc_listening) \<Longrightarrow>
     server_step ll s (handleAccept ll ok s)"
| session: "ps_loop s \<Longrightarrow> \<not> ps_stopped s \<Longrightarrow> k < length (ps_sessions s) \<Longrightarrow> op \<in> set (ss_pending (ps_sessions s ! k)) \<Longrightarrow>
     session_run_op ll en op r (ps_sessions s ! k) = Inr x \<Longrightarrow>
     server_step ll s (s\<lparr>ps_sessions := (ps_sessions s)[k := x]\<rparr>)"
| throws: "ps_loop s \<Longrightarrow> \<not> ps_stopped s \<Longrightarrow> k < length (ps_sessions s) \<Longrightarrow> op \<in> set (ss_pending (ps_sessions s ! k)) \<Longrightarrow>
     session_run_op ll en op r (ps_sessions s ! k) = Inl e \<Longrightarrow> server_step ll s (loop_exit s)"
| stopped: "ps_loop s \<Longrightarrow> ps_stopped s \<Longrightarrow> server_step ll s (loop_exit s)"

inductive server_steps :: "'p llhttp \<Rightarrow> 'p proxy_server \<Rightarrow> 'p proxy_server \<Rightarrow> bool" for ll where
  none: "server_steps ll s s"
| more: "server_step ll s s' \<Longrightarrow> server_steps ll s' s'' \<Longrightarrow> server_steps ll s s''"

definition server_reachable :: "'p llhttp \<Rightarrow> 'p proxy_server \<Rightarrow> bool" where
  "server_reachable ll s \<longleftrightarrow> (\<exists>host port given. server_steps ll (ProxyServer host port given) s)"

lemma server_steps_trans: "server_steps ll a b \<Longrightarrow> server_steps ll b c \<Longrightarrow> server_steps ll a c"
  by (induction rule: server_steps.induct) (auto intro: server_steps.intros)

lemma server_reachable_step: "server_reachable ll s \<Longrightarrow> server_steps ll s s' \<Longrightarrow> server_reachable ll s'"
  unfolding server_reachable_def by (blast intro: server_steps_trans)

lemma server_steps_inv:
  assumes "server_steps ll s s'" "P s" "\<And>a b. server_step ll a b \<Longrightarrow> P a \<Longrightarrow> P b"
  shows "P s'"
  using assms by (induction rule: server_steps.induct) blast+

text \<open>The outcomes of start.\<close>

lemma server_start_cases:
  obtains (running) "ps_running s" "server_start bn s = s"
    | (failed) a n where "\<not> ps_running s" "server_start bn s = s\<lparr>ps_acceptor := a, ps_accepts := n\<rparr>"
        "a = Acc_closed \<longrightarrow> n = ps_accepts s \<and> ps_acceptor s = Acc_closed"
    | (started) "\<not> ps_running s" "ps_acceptor s = Acc_closed"
        "server_start bn s = s\<lparr>ps_acceptor := Acc_listening, ps_running := True, ps_accepts := ps_accepts s + 1,
           ps_joinable := True, ps_loop := \<not> ps_stopped s\<rparr>"
proof -
  let ?f = "\<lambda>a n. s\<lparr>ps_acceptor := a, ps_accepts := n\<rparr>"
  have "ps_running s \<and> server_start bn s = s
     \<or> \<not> ps_running s \<and> (\<exists>a n. server_start bn s = ?f a n \<and> (a = Acc_closed \<longrightarrow> n = ps_accepts s \<and> ps_acceptor s = Acc_closed))
     \<or> \<not> ps_running s \<and> ps_acceptor s = Acc_closed \<and> server_start bn s = s\<lparr>ps_acceptor := Acc_listening, ps_running := True,
           ps_accepts := ps_accepts s + 1, ps_joinable := True, ps_loop := \<not> ps_stopped s\<rparr>"
    by (cases s) (auto simp: server_start_def start_failed_def doAccept_def Let_def)
  thus ?thesis using that by blast
qed

section \<open>Invariants\<close>

definition accept_inv :: "'p proxy_server \<Rightarrow> bool" where
  "accept_inv s \<longleftrightarrow>
     (ps_running s \<longrightarrow> ps_phase s = No_stop) \<and>
     (ps_loop s \<longrightarrow> ps_accepts s \<le> 1 \<and> ps_joinable s) \<and>
     (ps_loop s \<and> ps_phase s = No_stop \<longrightarrow> ps_running s) \<and>
     (ps_loop s \<and> ps_running s \<longrightarrow> ps_acceptor s = Acc_listening \<and> ps_accepts s = 1) \<and>
     (ps_phase s = No_stop \<and> \<not> ps_running s \<and> ps_acceptor s = Acc_closed \<and> \<not> ps_stopped s \<longrightarrow> ps_accepts s = 0) \<and>
     (ps_phase s = Stop_requested \<longrightarrow> ps_stopped s) \<and>
     (ps_phase s \<in> {Acceptor_closed, Guard_reset, Stop_requested} \<longrightarrow> ps_acceptor s = Acc_closed)"

definition sessions_inv :: "'p llhttp \<Rightarrow> 'p proxy_server \<Rightarrow> bool" where
  "sessions_inv ll s \<longleftrightarrow> ps_certCache s \<and> (\<forall>x \<in> set (ps_sessions s). session_reachable ll True x)"

lemmas stop_defs = stop_begin_def stop_close_def stop_reset_def stop_io_def stop_join_def loop_exit_def

lemma handleAccept_simps:
  "ps_running (handleAccept ll ok s) = ps_running s" "ps_loop (handleAccept ll ok s) = ps_loop s"
  "ps_stopped (handleAccept ll ok s) = ps_stopped s" "ps_phase (handleAccept ll ok s) = ps_phase s"
  "ps_acceptor (handleAccept ll ok s) = ps_acceptor s" "ps_certCache (handleAccept ll ok s) = ps_certCache s"
  "ps_joinable (handleAccept ll ok s) = ps_joinable s"
  "ps_accepts (handleAccept ll ok s) = ps_accepts s - 1 + (if ps_running s then 1 else 0)"
  "ps_sessions (handleAccept ll ok s) = ps_sessions s @ (if ok then [session_start (Session ll (ps_certCache s))] else [])"
  by (simp_all add: handleAccept_def doAccept_def Let_def)

lemma start_accept_inv: "\<lbrakk>accept_inv s; ps_phase s = No_stop\<rbrakk> \<Longrightarrow> accept_inv (server_start bn s)"
  by (cases rule: server_start_cases [of s bn]) (auto simp: accept_inv_def)

lemma step_accept_inv: "server_step ll s s' \<Longrightarrow> accept_inv s \<Longrightarrow> accept_inv s'"
proof (induction rule: server_step.induct)
  case (start s bn)
  thus ?case by (simp add: start_accept_inv)
next
  case (accept s ok)
  thus ?case by (auto simp: accept_inv_def handleAccept_simps)
qed (auto simp: accept_inv_def stop_defs)

lemma start_sessions: "ps_sessions (server_start bn s) = ps_sessions s" "ps_certCache (server_start bn s) = ps_certCache s"
  by (cases rule: server_start_cases [of s bn]; simp)+

lemma stop_sessions:
  "ps_sessions (stop_begin s) = ps_sessions s" "ps_sessions (stop_close s) = ps_sessions s"
  "ps_sessions (stop_reset s) = ps_sessions s" "ps_sessions (stop_io s) = ps_sessions s"
  "ps_sessions (stop_join s) = ps_sessions s" "ps_sessions (loop_exit s) = ps_sessions s"
  "ps_certCache (stop_begin s) = ps_certCache s" "ps_certCache (stop_close s) = ps_certCache s"
  "ps_certCache (stop_reset s) = ps_certCache s" "ps_certCache (stop_io s) = ps_certCache s"
  "ps_certCache (stop_join s) = ps_certCache s" "ps_certCache (loop_exit s) = ps_certCache s"
  by (simp_all add: stop_defs)

lemma step_sessions_inv: "server_step ll s s' \<Longrightarrow> sessions_inv ll s \<Longrightarrow> sessions_inv ll s'"
proof (induction rule: server_step.induct)
  case (accept s ok)
  thus ?case by (auto simp: sessions_inv_def handleAccept_simps intro: session_reachable.start)
next
  case (session s k op en r x)
  hence "session_reachable ll True (ps_sessions s ! k)" by (simp add: sessions_inv_def)
  hence "session_reachable ll True x" using session by (blast intro: session_reachable.step)
  with session show ?case
    by (auto simp: sessions_inv_def dest: set_update_subset_insert [THEN subsetD])
qed (simp_all add: sessions_inv_def start_sessions stop_sessions)

lemma server_reachable_inv: "server_reachable ll s \<Longrightarrow> accept_inv s \<and> sessions_inv ll s"
proof -
  assume "server_reachable ll s"
  then obtain host port given where steps: "server_steps ll (ProxyServer host port given) s"
    by (auto simp: server_reachable_def)
  have "accept_inv (ProxyServer host port given :: 'a proxy_server)" "sessions_inv ll (ProxyServer host port given)"
    by (simp_all add: accept_inv_def sessions_inv_def ProxyServer_def)
  with server_steps_inv [OF steps, of accept_inv] server_steps_inv [OF steps, of "sessions_inv ll"]
  show ?thesis using step_accept_inv step_sessions_inv by blast
qed

text \<open>Once its loop has ended a server is dead: nothing lets the context run again.\<close>

definition dead :: "'p proxy_server \<Rightarrow> bool" where
  "dead s \<longleftrightarrow> \<not> ps_loop s \<and> (ps_running s \<or> ps_stopped s \<or> ps_phase s \<noteq> No_stop) \<and> (ps_phase s = Stop_requested \<longrightarrow> ps_stopped s)"

lemma start_dead: "dead s \<Longrightarrow> ps_phase s = No_stop \<Longrightarrow> dead (server_start bn s)"
  by (cases rule: server_start_cases [of s bn]) (auto simp: dead_def)

lemma step_dead: "server_step ll s s' \<Longrightarrow> dead s \<Longrightarrow> dead s' \<and> ps_sessions s' = ps_sessions s"
  by (induction rule: server_step.induct) (auto simp: start_dead start_sessions, auto simp: dead_def stop_defs)

lemma steps_dead: "server_steps ll s s' \<Longrightarrow> dead s \<Longrightarrow> dead s' \<and> ps_sessions s' = ps_sessions s"
  by (induction rule: server_steps.induct) (auto dest: step_dead)

lemma start_keeps_loop: "ps_running s \<Longrightarrow> ps_loop (server_start bn s) = ps_loop s"
  by (simp add: server_start_def)

lemma loop_ends_dead:
  assumes "server_step ll s s'" "accept_inv s" "ps_loop s" "\<not> ps_loop s'"
  shows "dead s'"
  using assms
proof (induction rule: server_step.induct)
  case (start s bn)
  thus ?case by (auto simp: accept_inv_def start_keeps_loop)
qed (auto simp: accept_inv_def dead_def stop_defs handleAccept_simps)

section \<open>Properties\<close>

text \<open>
  C15: A server that runs keeps accepting. In every interleaving of starts, stops, accepted connections,
  accept errors and the handlers of all sessions: while the server runs and its loop does, the acceptor
  listens with exactly one accept outstanding; no loop ever has two; a running flag excludes a stop under
  way; and every session is in a state that the session alone can reach, so that all that is proved of
  sessions holds of each one the server serves.\<close>
theorem server_keeps_accepting:
  assumes "server_reachable ll s"
  shows "(ps_running s \<and> ps_loop s \<longrightarrow> ps_acceptor s = Acc_listening \<and> ps_accepts s = 1)
     \<and> (ps_loop s \<longrightarrow> ps_accepts s \<le> 1) \<and> (ps_running s \<longrightarrow> ps_phase s = No_stop)
     \<and> (\<forall>x \<in> set (ps_sessions s). session_reachable ll True x)"
  using server_reachable_inv [OF assms] by (auto simp: accept_inv_def sessions_inv_def)

text \<open>
  C31: The loop of a server runs once. When it has ended, by a stop or because an exception left a session's
  handler, no further start, stop or anything else makes it run again, no connection is accepted and no
  handler of any session runs; while after an exception, or a start after a stop, the server reports
  that it is running.\<close>
theorem server_loop_runs_once:
  assumes "server_reachable ll s" "server_step ll s s'" "ps_loop s" "\<not> ps_loop s'" "server_steps ll s' s''"
  shows "\<not> ps_loop s'' \<and> ps_sessions s'' = ps_sessions s'"
  using steps_dead [OF assms(5)] loop_ends_dead [OF assms(2) _ assms(3,4)] server_reachable_inv [OF assms(1)]
  by (auto simp: dead_def)

text \<open>The remaining steps of a stop, the end of the loop, and the join.\<close>

lemma stop_phases:
  "ps_phase (stop_close s) = Acceptor_closed" "ps_phase (stop_reset s) = Guard_reset" "ps_phase (stop_io s) = Stop_requested"
  "ps_phase (loop_exit s) = ps_phase s" "ps_running s \<Longrightarrow> ps_phase (stop_begin s) = Flag_cleared"
  "ps_running (stop_close s) = ps_running s" "ps_running (stop_reset s) = ps_running s" "ps_running (stop_io s) = ps_running s"
  "\<not> ps_loop (loop_exit s)" "\<not> ps_loop s \<Longrightarrow> loop_exit s = s"
  by (simp_all add: stop_defs)

lemma stop_from_requested:
  assumes "ps_phase s = Stop_requested" "ps_stopped s"
  shows "server_steps ll s (stop_join (loop_exit s))"
proof -
  have "server_step ll (loop_exit s) (stop_join (loop_exit s))"
    by (rule server_step.join) (simp_all add: assms stop_phases)
  hence join: "server_steps ll (loop_exit s) (stop_join (loop_exit s))"
    by (rule server_steps.more [OF _ server_steps.none])
  show ?thesis
  proof (cases "ps_loop s")
    case True
    from server_step.stopped [OF this assms(2)] join show ?thesis by (rule server_steps.more)
  next
    case False
    with join show ?thesis by (simp add: stop_phases)
  qed
qed

definition stop_rest :: "'p proxy_server \<Rightarrow> 'p proxy_server" where
  "stop_rest s =
     (case ps_phase s of
        No_stop \<Rightarrow> s
      | Flag_cleared \<Rightarrow> stop_join (loop_exit (stop_io (stop_reset (stop_close s))))
      | Acceptor_closed \<Rightarrow> stop_join (loop_exit (stop_io (stop_reset s)))
      | Guard_reset \<Rightarrow> stop_join (loop_exit (stop_io s))
      | Stop_requested \<Rightarrow> stop_join (loop_exit s))"

lemma stop_rest_steps:
  assumes "ps_phase s = Stop_requested \<longrightarrow> ps_stopped s"
  shows "server_steps ll s (stop_rest s)"
proof -
  have 1: "server_steps ll t (stop_join (loop_exit (stop_io t)))" if "ps_phase t = Guard_reset" for t
    using server_step.stop4 [OF that] by (rule server_steps.more) (simp add: stop_from_requested stop_io_def)
  have 2: "server_steps ll t (stop_join (loop_exit (stop_io (stop_reset t))))" if "ps_phase t = Acceptor_closed" for t
    using server_step.stop3 [OF that] by (rule server_steps.more) (simp add: 1 stop_phases)
  have 3: "server_steps ll t (stop_join (loop_exit (stop_io (stop_reset (stop_close t)))))" if "ps_phase t = Flag_cleared" for t
    using server_step.stop2 [OF that] by (rule server_steps.more) (simp add: 2 stop_phases)
  show ?thesis
    using 1 2 3 stop_from_requested assms server_steps.none by (cases "ps_phase s") (simp_all add: stop_rest_def)
qed

lemma stop_rest_state:
  assumes "accept_inv s" "ps_phase s \<noteq> No_stop"
  shows "ps_phase (stop_rest s) = No_stop" "\<not> ps_running (stop_rest s)" "\<not> ps_loop (stop_rest s)"
    "\<not> ps_joinable (stop_rest s)" "ps_acceptor (stop_rest s) = Acc_closed" "ps_sessions (stop_rest s) = ps_sessions s"
  using assms by (cases "ps_phase s"; simp add: stop_rest_def stop_defs accept_inv_def)+

text \<open>
  Stopping ends. Wherever a stop has got to, whatever the io thread does in between, it can go through
  with its own steps and the loop's exit alone: the result is a server that does not run, with a closed
  acceptor, no loop and its sessions as they were; and from the request to the context on, nothing but the
  loop's exit and the join can happen, so that the join waits for one completion at most.\<close>
theorem server_stop_completes:
  assumes "server_reachable ll s" "ps_phase s \<noteq> No_stop"
  shows "(\<exists>s'. server_steps ll s s' \<and> ps_phase s' = No_stop \<and> \<not> ps_running s' \<and> \<not> ps_loop s' \<and> \<not> ps_joinable s'
       \<and> ps_acceptor s' = Acc_closed \<and> ps_sessions s' = ps_sessions s)
     \<and> (\<forall>s1. ps_phase s = Stop_requested \<and> server_step ll s s1 \<longrightarrow> s1 = (if ps_loop s then loop_exit s else stop_join s))"
proof -
  have inv: "accept_inv s" using server_reachable_inv [OF assms(1)] by blast
  hence "server_steps ll s (stop_rest s)" by (intro stop_rest_steps) (simp add: accept_inv_def)
  hence stops: "\<exists>s'. server_steps ll s s' \<and> ps_phase s' = No_stop \<and> \<not> ps_running s' \<and> \<not> ps_loop s' \<and> \<not> ps_joinable s'
       \<and> ps_acceptor s' = Acc_closed \<and> ps_sessions s' = ps_sessions s"
    using stop_rest_state [OF inv assms(2)] by blast
  have "s1 = (if ps_loop s then loop_exit s else stop_join s)"
    if "ps_phase s = Stop_requested" "server_step ll s s1" for s1
    using that(2,1) inv by (cases rule: server_step.cases) (auto simp: accept_inv_def)
  with stops show ?thesis by blast
qed

text \<open>The call without interference is a run of its steps.\<close>

lemma server_stop_steps:
  assumes "accept_inv s"
  shows "server_steps ll s (server_stop s)"
proof (cases "ps_running s")
  case False
  thus ?thesis by (simp add: server_stop_def server_steps.none)
next
  case True
  hence "server_step ll s (stop_begin s)" using assms by (intro server_step.stop) (simp add: accept_inv_def)
  moreover have "server_steps ll (stop_begin s) (stop_rest (stop_begin s))"
    using True by (intro stop_rest_steps) (simp add: stop_phases)
  ultimately show ?thesis using True by (simp add: server_stop_def stop_rest_def stop_phases server_steps.more)
qed

text \<open>A start whose bind fails leaves the acceptor open, so that every later start fails too.\<close>

lemma failed_bind_is_final:
  assumes "\<not> ps_running s" "bn_resolve bn (ps_host s) (nat_to_string (unat (ps_port s)))" "bn_open bn" "\<not> bn_bind bn"
    and "ps_acceptor s = Acc_closed"
  shows "ps_acceptor (server_start bn s) = Acc_open \<and> \<not> ps_running (server_start bn2 (server_start bn s))"
  using assms by (auto simp: server_start_def start_failed_def Let_def)

section \<open>Witnesses\<close>

text \<open>A started server with one connection, whose first request is a CONNECT with a port that is no number.\<close>

definition demo_bind :: bind_env where
  "demo_bind = \<lparr>bn_resolve = (\<lambda>_ _. True), bn_open = True, bn_option = True, bn_bind = True, bn_listen = True, bn_thread = True\<rparr>"

definition bad_ll :: "ll_event list list llhttp" where
  "bad_ll = scripted [request_events [''example.com:https''] [] [] ''CONNECT'' 1 1 0] []"

definition demo_started :: "ll_event list list proxy_server" where
  "demo_started = server_start demo_bind (ProxyServer ''127.0.0.1'' 8080 False)"

definition demo_serving :: "ll_event list list proxy_server" where
  "demo_serving = handleAccept bad_ll True demo_started"

lemma demo_server_fields:
  "ps_running demo_started" "ps_loop demo_started" "\<not> ps_stopped demo_started" "0 < ps_accepts demo_started"
  "ps_acceptor demo_started = Acc_listening" "ps_phase demo_started = No_stop"
  "ps_running demo_serving" "ps_loop demo_serving" "\<not> ps_stopped demo_serving" "ps_phase demo_serving = No_stop"
  "ps_sessions demo_serving = [session_start (Session bad_ll True)]"
  by (simp_all add: demo_serving_def demo_started_def server_start_def ProxyServer_def demo_bind_def handleAccept_def
      doAccept_def Let_def)

lemma demo_serving_reachable: "server_reachable bad_ll demo_serving"
proof -
  have "server_step bad_ll (ProxyServer ''127.0.0.1'' 8080 False) demo_started"
    unfolding demo_started_def by (rule server_step.start) (simp add: ProxyServer_def)
  moreover have "server_step bad_ll demo_started demo_serving"
    unfolding demo_serving_def by (rule server_step.accept) (simp_all add: demo_server_fields)
  ultimately show ?thesis unfolding server_reachable_def by (blast intro: server_steps.intros)
qed

lemma bad_request_throws:
  "session_run_op bad_ll demo_env ClientRead (io_ok ''x'') (session_start (Session bad_ll True)) = Inl Invalid_argument"
  by code_simp

text \<open>One such request of any client ends the server's loop, while the server still reports that it runs.\<close>

lemma bad_port_ends_loop: "server_step bad_ll demo_serving (loop_exit demo_serving) \<and> ps_running (loop_exit demo_serving)"
proof -
  have "ClientRead \<in> set (ss_pending (ps_sessions demo_serving ! 0))"
    "session_run_op bad_ll demo_env ClientRead (io_ok ''x'') (ps_sessions demo_serving ! 0) = Inl Invalid_argument"
    unfolding demo_server_fields using bad_request_throws
    by (simp_all add: session_start_def readClient_def resetTimer_def async_start_def)
  moreover have "0 < length (ps_sessions demo_serving)" by (simp add: demo_server_fields)
  ultimately have "server_step bad_ll demo_serving (loop_exit demo_serving)"
    using server_step.throws demo_server_fields by blast
  thus ?thesis by (simp add: loop_exit_def demo_server_fields)
qed

lemma server_keeps_accepting_witness: "ps_acceptor demo_serving = Acc_listening \<and> ps_accepts demo_serving = 1"
  using server_keeps_accepting [OF demo_serving_reachable] by (simp add: demo_server_fields)

lemma demo_start_runs: "\<not> ps_running s \<Longrightarrow> ps_acceptor s = Acc_closed \<Longrightarrow> ps_running (server_start demo_bind s)"
  by (simp add: server_start_def demo_bind_def doAccept_def Let_def)

lemma server_loop_runs_once_witness:
  "\<not> ps_loop (server_start demo_bind (server_stop (loop_exit demo_serving)))
     \<and> ps_running (server_start demo_bind (server_stop (loop_exit demo_serving)))"
proof -
  let ?s = "loop_exit demo_serving"
  have inv: "accept_inv ?s" using server_reachable_inv [OF demo_serving_reachable] bad_port_ends_loop step_accept_inv by blast
  have "server_step bad_ll (server_stop ?s) (server_start demo_bind (server_stop ?s))"
    by (rule server_step.start) (simp add: server_stop_def stop_defs demo_server_fields)
  hence "server_steps bad_ll ?s (server_start demo_bind (server_stop ?s))"
    by (intro server_steps_trans [OF server_stop_steps [OF inv]]) (blast intro: server_steps.intros)
  hence "\<not> ps_loop (server_start demo_bind (server_stop ?s))"
    by (rule conjunct1 [OF server_loop_runs_once [OF demo_serving_reachable conjunct1 [OF bad_port_ends_loop]
          demo_server_fields(8) stop_phases(9)]])
  moreover have "ps_running (server_start demo_bind (server_stop ?s))"
    by (rule demo_start_runs) (simp_all add: server_stop_def stop_defs demo_server_fields)
  ultimately show ?thesis by blast
qed

lemma server_stop_completes_witness:
  "\<exists>s'. server_steps bad_ll (stop_begin demo_serving) s' \<and> ps_phase s' = No_stop \<and> \<not> ps_running s' \<and> \<not> ps_loop s'
     \<and> \<not> ps_joinable s' \<and> ps_acceptor s' = Acc_closed \<and> ps_sessions s' = ps_sessions (stop_begin demo_serving)"
proof (rule conjunct1 [OF server_stop_completes])
  have "server_step bad_ll demo_serving (stop_begin demo_serving)"
    by (rule server_step.stop) (simp add: demo_server_fields)
  thus "server_reachable bad_ll (stop_begin demo_serving)"
    using demo_serving_reachable unfolding server_reachable_def by (blast intro: server_steps.intros server_steps_trans)
  show "ps_phase (stop_begin demo_serving) \<noteq> No_stop" by (simp add: stop_begin_def demo_server_fields)
qed

end
