(* ===== verification/Application.thy ===== *)
theory Application
  imports Certificates ProxyServer TuiApp
begin

text \<open>
  The program: its options (\<open>src/src/main.cpp\<close>, \<open>src/src/app/Config.hpp\<close>) and the order in which it sets up
  the root certificate, the interface and the server and takes them down (\<open>src/src/app/App.cpp\<close>). What
  happens while the interface runs is a parameter: a run of the server's steps by the io thread.
\<close>

section \<open>Configuration and options\<close>

record config =
  cfg_listenHost :: string
  cfg_listenPort :: "16 word"
  cfg_dbPath :: string
  cfg_caDir :: string
  cfg_verbose :: bool
  cfg_enableMouse :: bool

definition Config :: config where
  "Config = \<lparr>cfg_listenHost = ''127.0.0.1'', cfg_listenPort = 8080, cfg_dbPath = ''burptui.db'', cfg_caDir = ''./ca'',
     cfg_verbose = False, cfg_enableMouse = True\<rparr>"

text \<open>
  The loop over the arguments: an exception of \<open>std::stoi\<close>, which nothing catches; the help text, after
  which the program ends; or the configuration. An option without its value is ignored, as is anything else.
\<close>

function (sequential) parse_args :: "string list \<Rightarrow> config \<Rightarrow> cxx_exception + config option" where
  "parse_args [] cfg = Inr (Some cfg)"
| "parse_args (arg # args) cfg =
     (if arg = ''--mouse'' \<or> arg = ''-m'' then parse_args args (cfg\<lparr>cfg_enableMouse := True\<rparr>)
      else if arg = ''-h'' \<or> arg = ''--help'' then Inr None
      else if (arg = ''--port'' \<or> arg = ''-p'') \<and> args \<noteq> []
      then (case stoi (hd args) of
              Inl e \<Rightarrow> Inl e
            | Inr v \<Rightarrow> parse_args (tl args) (cfg\<lparr>cfg_listenPort := word_of_int v\<rparr>))
      else if arg = ''--host'' \<and> args \<noteq> [] then parse_args (tl args) (cfg\<lparr>cfg_listenHost := hd args\<rparr>)
      else parse_args args cfg)"
  by pat_completeness auto
termination by (relation "measure (\<lambda>(args, cfg). length args)") auto

section \<open>The application\<close>

text \<open>
  The trigger connects the server's transactions to the interface: push, then wake it; it also becomes the
  intercept manager's notification.
\<close>

definition on_transaction :: "'a \<Rightarrow> 'a updates \<Rightarrow> 'a updates" where
  "on_transaction tx s = s\<lparr>up_queue := ts_push tx (up_queue s), up_producers := Pushed # up_producers s\<rparr>"

lemma on_transaction_step: "update_step s (on_transaction tx s)"
  unfolding on_transaction_def by (rule update_step.push)

record 'p application =
  ap_config :: config
  ap_ssl :: ssl_init
  ap_files :: files
  ap_proxy :: "'p proxy_server option"
  ap_ui :: "tui option"

definition App :: "config \<Rightarrow> ssl_init \<Rightarrow> files \<Rightarrow> 'p application" where
  "App cfg si fs = \<lparr>ap_config = cfg, ap_ssl = si, ap_files = fs, ap_proxy = None, ap_ui = None\<rparr>"

text \<open>What the environment decides: OpenSSL, the files, the sockets, and what happens while the interface runs.\<close>

record 'p app_env =
  ae_crypto :: crypto
  ae_fs :: fs_env
  ae_bind :: bind_env
  ae_meanwhile :: "'p proxy_server \<Rightarrow> 'p proxy_server"
  ae_ui :: "tui \<Rightarrow> tui"

definition app_run :: "'p app_env \<Rightarrow> 'p application \<Rightarrow> int \<times> 'p application" where
  "app_run en a =
     (let (ok, si, fs) = initialize (ae_crypto en) (ae_fs en) (cfg_caDir (ap_config a)) (ap_ssl a) (ap_files a);
          a1 = a\<lparr>ap_ssl := si, ap_files := fs\<rparr>
      in if \<not> ok then (1, a1)
         else let a2 = a1\<lparr>ap_ui := Some buildLayout\<rparr>;
                  proxy = server_start (ae_bind en) (ProxyServer (cfg_listenHost (ap_config a)) (cfg_listenPort (ap_config a)) False);
                  a3 = a2\<lparr>ap_proxy := Some proxy\<rparr>
              in if \<not> ps_running proxy then (1, a3)
                 else let a4 = a3\<lparr>ap_ui := map_option (ae_ui en) (ap_ui a3), ap_proxy := map_option (ae_meanwhile en) (ap_proxy a3)\<rparr>
                      in (0, a4\<lparr>ap_proxy := map_option server_stop (ap_proxy a4)\<rparr>))"

definition app_destroy :: "'p application \<Rightarrow> 'p application" where
  "app_destroy a = a\<lparr>ap_proxy := map_option server_stop (ap_proxy a)\<rparr>"

text \<open>The whole program: its exit code, or the exception that terminates it, and what it leaves.\<close>

definition main_program :: "'p app_env \<Rightarrow> ssl_init \<Rightarrow> files \<Rightarrow> string list \<Rightarrow> cxx_exception + int \<times> 'p application option" where
  "main_program en si fs args =
     (case parse_args args Config of
        Inl e \<Rightarrow> Inl e
      | Inr None \<Rightarrow> Inr (0, None)
      | Inr (Some cfg) \<Rightarrow> let (code, a) = app_run en (App cfg si fs) in Inr (code, Some (app_destroy a)))"

section \<open>Options\<close>

datatype option_arg = Mouse | Port "16 word" | Host string

fun render_option :: "option_arg \<Rightarrow> string list" where
  "render_option Mouse = [''--mouse'']"
| "render_option (Port p) = [''--port'', nat_to_string (unat p)]"
| "render_option (Host h) = [''--host'', h]"

fun apply_option :: "option_arg \<Rightarrow> config \<Rightarrow> config" where
  "apply_option Mouse cfg = cfg\<lparr>cfg_enableMouse := True\<rparr>"
| "apply_option (Port p) cfg = cfg\<lparr>cfg_listenPort := p\<rparr>"
| "apply_option (Host h) cfg = cfg\<lparr>cfg_listenHost := h\<rparr>"

lemma stoi_port: "stoi (nat_to_string (unat (p :: 16 word))) = Inr (int (unat p))"
proof -
  have "unat p < 2 ^ LENGTH(16)" by (rule unsigned_less)
  thus ?thesis by (intro stoi_to_string) simp
qed

text \<open>Options are read as written. Any command line made of options with values (ports from 0 to 65535, any
  host text, even one that looks like an option) gives the defaults updated by these options in order, so
  that the last of each kind counts.\<close>

theorem options_round_trip:
  "parse_args (concat (map render_option opts)) cfg = Inr (Some (foldl (\<lambda>c opt. apply_option opt c) cfg opts))"
proof (induction opts arbitrary: cfg)
  case (Cons opt opts)
  thus ?case by (cases opt) (simp_all add: stoi_port)
qed simp

text \<open>A number that is no port is taken modulo 65536.\<close>

lemma port_wraps:
  assumes "n < 2 ^ 31"
  shows "parse_args [''--port'', nat_to_string n] cfg = Inr (Some (cfg\<lparr>cfg_listenPort := word_of_nat (n mod 65536)\<rparr>))"
proof -
  have "(word_of_int (int n) :: 16 word) = word_of_nat (n mod 65536)"
    by (simp add: word_of_nat_eq_iff take_bit_eq_mod)
  thus ?thesis using assms by (simp add: stoi_to_string)
qed

text \<open>
  The mouse is on by default and no option turns it off, although the help says that text selection of the
  terminal is the default and the mouse an option.\<close>

lemma mouse_option_has_no_effect: "cfg_enableMouse cfg \<Longrightarrow> parse_args args cfg = Inr (Some cfg') \<Longrightarrow> cfg_enableMouse cfg'"
  by (induction args cfg rule: parse_args.induct) (auto split: if_splits sum.splits)

section \<open>Runs of the program\<close>

text \<open>Any run of server steps may happen while the interface runs, as long as nobody else stops the server.\<close>

definition meanwhile_ok :: "'p llhttp \<Rightarrow> 'p app_env \<Rightarrow> bool" where
  "meanwhile_ok ll en \<longleftrightarrow> (\<forall>s. server_steps ll s (ae_meanwhile en s) \<and> (ps_running s \<longrightarrow> ps_running (ae_meanwhile en s)))"

lemma started_reachable: "server_reachable ll (server_start bn (ProxyServer h p g))"
proof -
  have "server_step ll (ProxyServer h p g) (server_start bn (ProxyServer h p g))"
    by (rule server_step.start) (simp add: ProxyServer_def)
  thus ?thesis unfolding server_reachable_def by (blast intro: server_steps.intros)
qed

lemma server_stop_state:
  assumes "ps_running s"
  shows "\<not> ps_running (server_stop s)" "\<not> ps_loop (server_stop s)" "ps_acceptor (server_stop s) = Acc_closed"
    "\<not> ps_joinable (server_stop s)" "ps_sessions (server_stop s) = ps_sessions s"
  using assms by (simp_all add: server_stop_def stop_defs)

lemma server_stop_twice: "ps_running s \<Longrightarrow> server_stop (server_stop s) = server_stop s"
  by (simp add: server_stop_def stop_defs)

lemma server_keeps_sessions: "server_reachable ll s \<Longrightarrow> \<forall>x \<in> set (ps_sessions s). session_reachable ll True x"
  using server_reachable_inv by (auto simp: sessions_inv_def)

lemma App_proxy: "ap_proxy (App cfg si fs) = None"
  by (simp add: App_def)

lemma start_idle: "\<lbrakk>\<not> ps_loop s; \<not> ps_running (server_start bn s)\<rbrakk> \<Longrightarrow> \<not> ps_loop (server_start bn s)"
  by (cases rule: server_start_cases [of s bn]) simp_all

lemma not_started_idle:
  fixes s :: "'p proxy_server"
  shows "s = ProxyServer h p g \<Longrightarrow> \<not> ps_running (server_start bn s) \<Longrightarrow> \<not> ps_loop (server_start bn s)"
  by (rule start_idle) (simp_all add: ProxyServer_def)

definition program_server :: "'p app_env \<Rightarrow> config \<Rightarrow> 'p proxy_server" where
  "program_server en cfg = server_start (ae_bind en) (ProxyServer (cfg_listenHost cfg) (cfg_listenPort cfg) False)"

definition ca_started :: "'p app_env \<Rightarrow> config \<Rightarrow> ssl_init \<Rightarrow> files \<Rightarrow> bool" where
  "ca_started en cfg si fs \<longleftrightarrow> fst (initialize (ae_crypto en) (ae_fs en) (cfg_caDir cfg) si fs)"

text \<open>
  C33: The program's exit code tells what happened, and nothing keeps running. With options that parse, the
  program returns 0 exactly when the root certificate is ready and the server could be started, and 1
  otherwise; without the certificate no server is made at all; and whatever happens while the interface
  runs, at the end no server runs, no loop runs, and, where the server had been started, its port is free
  again and every session it served went through states of a session only.\<close>
theorem program_exit:
  assumes "parse_args args Config = Inr (Some cfg)" "meanwhile_ok ll en"
  shows "\<exists>code a. main_program en si fs args = Inr (code, Some a)
     \<and> code = (if ca_started en cfg si fs \<and> ps_running (program_server en cfg) then 0 else 1)
     \<and> (ap_proxy a = None \<longleftrightarrow> \<not> ca_started en cfg si fs)
     \<and> (\<forall>ps. ap_proxy a = Some ps \<longrightarrow> \<not> ps_running ps \<and> \<not> ps_loop ps \<and> (code = 0 \<longrightarrow> ps_acceptor ps = Acc_closed)
           \<and> (\<forall>x \<in> set (ps_sessions ps). session_reachable ll True x))"
proof -
  obtain ok si1 fs1 where init: "initialize (ae_crypto en) (ae_fs en) (cfg_caDir cfg) si fs = (ok, si1, fs1)"
    by (cases "initialize (ae_crypto en) (ae_fs en) (cfg_caDir cfg) si fs") auto
  let ?a = "(App cfg si1 fs1 :: 'a application)"
  let ?s = "program_server en cfg"
  let ?m = "ae_meanwhile en ?s"
  have reach: "server_reachable ll ?s" unfolding program_server_def by (rule started_reachable)
  have app: "app_run en (App cfg si fs) =
      (if \<not> ok then (1, ?a)
       else if \<not> ps_running ?s then (1, ?a\<lparr>ap_ui := Some buildLayout, ap_proxy := Some ?s\<rparr>)
       else (0, ?a\<lparr>ap_ui := Some (ae_ui en buildLayout), ap_proxy := Some (server_stop ?m)\<rparr>))"
    by (simp add: app_run_def App_def init Let_def program_server_def)
  have ca: "ca_started en cfg si fs = ok" by (simp add: ca_started_def init)
  have main: "main_program en si fs args = Inr (fst (app_run en (App cfg si fs)), Some (app_destroy (snd (app_run en (App cfg si fs)))))"
    by (simp add: main_program_def assms(1) split_beta)
  consider "\<not> ok" | "ok" "\<not> ps_running ?s" | "ok" "ps_running ?s" by blast
  thus ?thesis
  proof cases
    case 1
    thus ?thesis by (simp add: main app ca app_destroy_def App_proxy)
  next
    case 2
    have "\<not> ps_loop ?s" "server_stop ?s = ?s"
      using 2 not_started_idle [OF refl] by (auto simp: server_stop_def program_server_def)
    with 2 server_keeps_sessions [OF reach] show ?thesis by (simp add: main app ca app_destroy_def App_proxy)
  next
    case 3
    have m: "server_reachable ll ?m" "ps_running ?m"
      using 3 assms(2) server_reachable_step [OF reach] by (auto simp: meanwhile_ok_def)
    with 3 server_keeps_sessions [OF m(1)] show ?thesis
      by (simp add: main app ca app_destroy_def App_proxy server_stop_state server_stop_twice)
  qed
qed

text \<open>Each hypothesis can hold: an interface that is left at once, and one run in which a client connects.\<close>

definition demo_app_env :: "ll_event list list app_env" where
  "demo_app_env = \<lparr>ae_crypto = demo_crypto, ae_fs = demo_fs_env, ae_bind = demo_bind,
     ae_meanwhile = (\<lambda>s. if ps_running s \<and> ps_loop s \<and> \<not> ps_stopped s \<and> 0 < ps_accepts s \<and> ps_acceptor s = Acc_listening
        then handleAccept bad_ll True s else s),
     ae_ui = (\<lambda>u. u\<lparr>ui_quit := True\<rparr>)\<rparr>"

lemma demo_meanwhile_ok: "meanwhile_ok bad_ll demo_app_env"
proof -
  have "server_steps bad_ll s (handleAccept bad_ll True s)"
    if "ps_loop s" "\<not> ps_stopped s" "0 < ps_accepts s" "ps_acceptor s = Acc_listening" for s
    using server_step.accept [OF that(1-3), of True] that(4) by (blast intro: server_steps.intros)
  thus ?thesis by (simp add: meanwhile_ok_def demo_app_env_def server_steps.none handleAccept_simps)
qed

lemma program_exit_witness:
  "\<exists>code a. main_program demo_app_env SslInit demo_files [''--port'', ''8081''] = Inr (code, Some a) \<and> code = 0"
proof -
  have opts: "parse_args [''--port'', ''8081''] Config = Inr (Some (Config\<lparr>cfg_listenPort := 8081\<rparr>))"
    by (simp add: stoi_def isspace_def isdigit_def byte_of_def dec_value_def Let_def)
  have "fst (initialize demo_crypto demo_fs_env ''./ca'' SslInit demo_files)"
    using arg_cong [OF demo_initialize, of fst] by (simp only: fst_conv)
  hence "ca_started demo_app_env (Config\<lparr>cfg_listenPort := 8081\<rparr>) SslInit demo_files"
    by (simp add: ca_started_def demo_app_env_def Config_def)
  moreover have "ps_running (program_server demo_app_env (Config\<lparr>cfg_listenPort := 8081\<rparr>))"
    unfolding program_server_def demo_app_env_def by (simp add: demo_start_runs ProxyServer_def)
  ultimately show ?thesis using program_exit [OF opts demo_meanwhile_ok, of SslInit demo_files] by auto
qed

end
