(* ===== verification/Network.thy ===== *)
theory Network
  imports MitmSession ProxyTab Queues
begin

text \<open>
  All connections together with the objects they share: the plain and the TLS sessions, the counter of
  transaction ids that the server passes to both, the intercept manager, the decisions posted to the io
  thread, and the queue of transactions. The effects that theories Session and MitmSession record are carried
  out here, in order: a request is handed to the manager, a closing session withdraws its own, a CONNECT
  becomes a TLS session, a transaction is queued. The io thread runs one completion at a time; the
  user's operations on the manager, each under its mutex, come between any two.
\<close>

section \<open>The contract of a pausing connection\<close>

text \<open>Whether a completion takes a request, and so draws an id from the shared counter.\<close>

fun session_takes :: "'p llhttp \<Rightarrow> async_op \<Rightarrow> io_result \<Rightarrow> 'p session \<Rightarrow> bool" where
  "session_takes ll ClientRead r s \<longleftrightarrow> io_ec r = Ec_ok \<and> \<not> ss_isConnect s \<and>
     (let (ok, p) = feedRequest ll (io_data r) (ss_parser s) in ok \<and> fst (takeRequest ll p) \<noteq> None)"
| "session_takes ll _ r s \<longleftrightarrow> False"

fun mitm_takes :: "'p llhttp \<Rightarrow> mitm_op \<Rightarrow> io_result \<Rightarrow> 'p mitm_session \<Rightarrow> bool" where
  "mitm_takes ll MClientRead r s \<longleftrightarrow> \<not> ms_isClosed s \<and> io_ec r = Ec_ok \<and>
     (let (ok, p) = feedRequest ll (io_data r) (ms_clientParser s) in ok \<and> fst (takeRequest ll p) \<noteq> None)"
| "mitm_takes ll _ r s \<longleftrightarrow> False"

definition session_waits :: "'p session \<Rightarrow> bool" where
  "session_waits s \<longleftrightarrow> Decision \<in> set (main_ops s)"

definition mitm_waits :: "'p mitm_session \<Rightarrow> bool" where
  "mitm_waits s \<longleftrightarrow> MDecision \<in> set (mitm_mains s)"

fun is_request :: "session_effect \<Rightarrow> bool" where
  "is_request (InterceptRequest i h p r) \<longleftrightarrow> True"
| "is_request _ \<longleftrightarrow> False"

text \<open>
  What one completion may do, seen from outside: a view is the transaction's id, whether the user's decision
  is awaited, and whether the connection is open.
\<close>

definition pause_ok :: "int \<Rightarrow> bool \<Rightarrow> session_effect list \<Rightarrow> int \<times> bool \<times> bool \<Rightarrow> int \<times> bool \<times> bool \<Rightarrow> bool" where
  "pause_ok n takes es v v' \<longleftrightarrow>
     (case (v, v') of ((i, w, op), (i', w', op')) \<Rightarrow>
       (op' \<longrightarrow> op) \<and> (\<forall>j. RemoveById j \<in> set es \<longrightarrow> j = i' \<and> j \<noteq> 0 \<and> \<not> op') \<and>
       (if takes then i' = n \<and> \<not> w else i' = i \<or> \<not> w \<and> i' = 0) \<and>
       (if filter is_request es = [] then w' = w \<and> (w \<and> op \<and> \<not> op' \<and> i \<noteq> 0 \<longrightarrow> RemoveById i \<in> set es)
        else takes \<and> w' \<and> op' = op \<and> (\<exists>h p r. es = [InterceptRequest n h p r])))"

definition session_view :: "'p session \<Rightarrow> int \<times> bool \<times> bool" where
  "session_view s = (tx_id (ss_tx s), session_waits s, ss_clientOpen s)"

definition mitm_view :: "'p mitm_session \<Rightarrow> int \<times> bool \<times> bool" where
  "mitm_view s = (tx_id (ms_tx s), mitm_waits s, \<not> ms_isClosed s)"

definition added :: "session_effect list \<Rightarrow> session_effect list \<Rightarrow> session_effect list" where
  "added old new = drop (length old) new"

lemma added_append [simp]: "added es (es @ fs) = fs" "added es es = []"
  by (simp_all add: added_def)

text \<open>Every handler of the plain session appends effects and keeps to the contract.\<close>

definition session_ok :: "int \<Rightarrow> bool \<Rightarrow> 'p session \<Rightarrow> 'p session \<Rightarrow> bool" where
  "session_ok n takes s s' \<longleftrightarrow> (\<exists>es. ss_effects s' = ss_effects s @ es \<and> pause_ok n takes es (session_view s) (session_view s'))"

text \<open>Changes that stay within the contract: reports of transactions, alone or before closing.\<close>

fun is_report :: "session_effect \<Rightarrow> bool" where
  "is_report (OnTransaction tx) \<longleftrightarrow> True"
| "is_report _ \<longleftrightarrow> False"

lemma reports_only:
  assumes "list_all is_report es"
  shows "filter is_request es = []" "RemoveById j \<notin> set es"
  using assms by (induction es) (auto elim!: is_report.elims)

lemma pause_ok_report: "list_all is_report es \<Longrightarrow> pause_ok n False es v v"
  using reports_only [of es] by (simp add: pause_ok_def split: prod.split)

lemma pause_ok_close:
  "list_all is_report es \<Longrightarrow> pause_ok n False (es @ (if i \<noteq> 0 then [RemoveById i] else [])) (i, w, op) (i, w, False)"
  using reports_only [of es] by (simp add: pause_ok_def)

named_theorems view_simps \<open>the view of a connection and its effects after the building blocks\<close>

lemma session_view_simps [view_simps]:
  "op \<noteq> Decision \<Longrightarrow> session_view (async_start op s) = session_view s" "session_view (emit e s) = session_view s"
  "session_view (s\<lparr>ss_tx := (ss_tx s)\<lparr>tx_response := v\<rparr>\<rparr>) = session_view s"
  "session_view (s\<lparr>ss_serverOpen := b\<rparr>) = session_view s" "session_view (s\<lparr>ss_parser := p\<rparr>) = session_view s"
  "session_view (s\<lparr>ss_clientData := d\<rparr>) = session_view s" "session_view (s\<lparr>ss_serverData := d\<rparr>) = session_view s"
  "session_view (s\<lparr>ss_upstreamHost := h\<rparr>) = session_view s" "session_view (s\<lparr>ss_upstreamPort := h\<rparr>) = session_view s"
  "session_view (s\<lparr>ss_isConnect := b\<rparr>) = session_view s" "session_view (s\<lparr>ss_closeAfterWrite := b\<rparr>) = session_view s"
  "session_view (s\<lparr>ss_writeQueue := q\<rparr>) = session_view s" "session_view (s\<lparr>ss_writeServerQueue := q\<rparr>) = session_view s"
  "session_view (writeClient d s) = session_view s" "session_view (answer res raw s) = session_view s"
  "session_view (writeServerBlind d s) = session_view s" "session_view (doClientWrite s) = session_view s"
  "session_view (doServerWrite s) = session_view s"
  by (auto simp: session_view_def session_waits_def session_simps writeServerBlind_def doClientWrite_def doServerWrite_def Let_def)

lemma session_effects_simps [view_simps]:
  "ss_effects (writeServerBlind d s) = ss_effects s" "ss_effects (doClientWrite s) = ss_effects s"
  "ss_effects (doServerWrite s) = ss_effects s"
  by (simp_all add: writeServerBlind_def doClientWrite_def doServerWrite_def Let_def session_simps)

lemma session_ok_report:
  assumes "ss_effects s' = ss_effects s @ es" "list_all is_report es" "session_view s' = session_view s"
  shows "session_ok n False s s'"
  unfolding session_ok_def assms(3) using assms(1) pause_ok_report [OF assms(2)] by blast

lemma session_ok_if: "\<lbrakk>c \<Longrightarrow> session_ok n b s t; \<not> c \<Longrightarrow> session_ok n b s u\<rbrakk> \<Longrightarrow> session_ok n b s (if c then t else u)"
  by simp

lemma session_ok_quiet: "ss_effects s' = ss_effects s \<Longrightarrow> session_view s' = session_view s \<Longrightarrow> session_ok n False s s'"
  by (rule session_ok_report [where es = "[]"]) simp_all

lemma session_ok_close:
  assumes "ss_effects t = ss_effects s @ es" "list_all is_report es" "session_view t = session_view s"
  shows "session_ok n False s (session_close t)"
proof -
  have "ss_effects (session_close t) = ss_effects s @ es @ (if tx_id (ss_tx t) \<noteq> 0 then [RemoveById (tx_id (ss_tx t))] else [])"
    using assms(1) by (simp add: session_close_def Let_def session_simps)
  moreover have "session_view (session_close t) = (tx_id (ss_tx t), session_waits t, False)"
    by (simp add: session_view_def session_waits_def session_simps)
  ultimately show ?thesis
    unfolding session_ok_def using pause_ok_close [OF assms(2)] assms(3)
    by (metis session_view_def)
qed

lemmas session_ok_closed = session_ok_close [where es = "[]", simplified append_Nil2 list.pred_inject(1) True_implies_equals]

lemma session_ok_closed_eof:
  assumes "ss_effects t = ss_effects s \<or> (\<exists>tx. ss_effects t = ss_effects s @ [OnTransaction tx])" "session_view t = session_view s"
  shows "session_ok n False s (session_close t)"
  using assms session_ok_closed session_ok_close [where es = "[OnTransaction _]"] by fastforce

lemma session_ok_answer:
  "\<lbrakk>ss_effects t = ss_effects s; session_view t = session_view s\<rbrakk> \<Longrightarrow> session_ok n False s (answer res raw t)"
  by (rule session_ok_report [where es = "[OnTransaction ((ss_tx t)\<lparr>tx_response := Some res\<rparr>)]"]) (simp_all add: view_simps session_simps)

lemma session_ok_option: "\<lbrakk>x = None \<Longrightarrow> session_ok n b s t; \<And>y. x = Some y \<Longrightarrow> session_ok n b s (u y)\<rbrakk>
    \<Longrightarrow> session_ok n b s (case x of None \<Rightarrow> t | Some y \<Rightarrow> u y)"
  by (cases x) simp_all

lemmas ok_intros = session_ok_if session_ok_option session_ok_closed session_ok_answer

lemma side_ok:
  "session_ok n False s (handleTimeout ec s)"
  "session_ok n False s (handleClientWrite ec s)" "session_ok n False s (handleServerWrite ec s)"
proof -
  show "session_ok n False s (handleTimeout ec s)"
    unfolding handleTimeout_def sendErrorResponse_def by (intro ok_intros session_ok_quiet refl)
  show "session_ok n False s (handleClientWrite ec s)" "session_ok n False s (handleServerWrite ec s)"
    unfolding handleClientWrite_def handleServerWrite_def Let_def
    by (intro ok_intros session_ok_quiet; simp add: view_simps session_simps)+
qed

lemma main_handlers_ok:
  "session_ok n False s (handleResolve ec s)" "session_ok n False s (handleConnected ec s)"
  "session_ok n False s (handleUpstreamWrite ec s)"
  unfolding handleResolve_def handleConnected_def handleUpstreamWrite_def sendErrorResponse_def writeUpstream_def
    start_defs Let_def
  by (intro ok_intros session_ok_quiet; simp add: view_simps session_simps)+

text \<open>The response: reports, and the transaction's id is given up when the connection is kept.\<close>

lemma response_done_ok: "\<not> session_waits s \<Longrightarrow> session_ok n False s (response_done ll res s)"
  unfolding session_ok_def pause_ok_def response_done_def Let_def session_close_def
  by (auto simp: session_view_def session_waits_def session_simps readClient_def HttpTransaction_def)

lemma session_ok_from: "\<lbrakk>session_ok n b t s'; ss_effects t = ss_effects s; session_view t = session_view s\<rbrakk> \<Longrightarrow> session_ok n b s s'"
  by (simp add: session_ok_def)

lemma upstream_eof_view:
  "session_view (upstream_eof ll s) = session_view s"
  "ss_effects (upstream_eof ll s) = ss_effects s \<or> (\<exists>tx. ss_effects (upstream_eof ll s) = ss_effects s @ [OnTransaction tx])"
  by (auto simp: upstream_eof_def Let_def session_view_def session_waits_def session_simps split: prod.split option.split)

lemma upstream_read_ok: "\<not> session_waits s \<Longrightarrow> session_ok n False s (handleUpstreamRead ll ec data s)"
proof -
  assume idle: "\<not> session_waits s"
  have finished: "session_ok n False s (response_done ll res (t\<lparr>ss_parser := p\<rparr>))"
    if "t = writeClient data (resetTimer s)" for res p t
    using idle that
    by (intro session_ok_from [OF response_done_ok]) (simp_all add: session_waits_def resetTimer_def view_simps session_simps)
  show ?thesis
    unfolding handleUpstreamRead_def Let_def split_beta
    by (intro session_ok_if session_ok_closed_eof)
      (auto simp: upstream_eof_view start_defs view_simps session_simps finished [unfolded start_defs] split: option.split
        intro: session_ok_quiet)
qed

text \<open>Taking a request: an id is drawn, and it is handed over, answered, sent on or turned into a tunnel.\<close>

definition session_took :: "int \<Rightarrow> 'p session \<Rightarrow> 'p session \<Rightarrow> bool" where
  "session_took n s s' \<longleftrightarrow> \<not> session_waits s \<and> session_ok n True s s'"

lemma session_ok_took:
  assumes "ss_effects s' = ss_effects s @ es" "filter is_request es = []" "\<And>j. RemoveById j \<notin> set es"
    and "tx_id (ss_tx s') = n" "session_waits s' = session_waits s" "ss_clientOpen s' \<Longrightarrow> ss_clientOpen s" "\<not> session_waits s"
  shows "session_ok n True s s'"
  unfolding session_ok_def pause_ok_def session_view_def using assms by (intro exI [of _ es]) auto

lemma session_ok_intercepted:
  assumes "ss_effects s' = ss_effects s @ [InterceptRequest n h p r]"
    and "tx_id (ss_tx s') = n" "session_waits s'" "ss_clientOpen s' = ss_clientOpen s" "\<not> session_waits s"
  shows "session_ok n True s s'"
  unfolding session_ok_def pause_ok_def session_view_def using assms by (intro exI [of _ "[InterceptRequest n h p r]"]) auto

lemma forward_took:
  assumes "ss_effects t = ss_effects s" "tx_id (ss_tx t) = tx_id (ss_tx s)" "main_ops t = main_ops s"
    and "ss_clientOpen t = ss_clientOpen s" "\<not> session_waits s"
  shows "session_ok (tx_id (ss_tx s)) True s (forwardRequest t)"
  using assms
  by (intro session_ok_took [where es = "[]"])
    (simp_all add: session_waits_def session_simps forwardRequest_def connectUpstream_def split: if_splits)

lemma intercept_took:
  assumes "ss_effects t = ss_effects s" "tx_id (ss_tx t) = tx_id (ss_tx s)" "ss_clientOpen t = ss_clientOpen s" "\<not> session_waits s"
  shows "session_ok (tx_id (ss_tx s)) True s (async_start Decision (emit (InterceptRequest (tx_id (ss_tx s)) h p r) t))"
  using assms by (intro session_ok_intercepted) (simp_all add: session_waits_def session_simps)

lemma connect_took:
  assumes "tx_id tx = tx_id (ss_tx s)" "\<not> session_waits s"
  shows "session_ok (tx_id (ss_tx s)) True s (emit (StartMitm h p) (emit (OnTransaction tx) (s\<lparr>ss_tx := tx\<rparr>)\<lparr>ss_clientOpen := False\<rparr>))"
    and "session_ok (tx_id (ss_tx s)) True s
      (connectUpstream (emit (OnTransaction tx) (s\<lparr>ss_tx := tx\<rparr>)\<lparr>ss_isConnect := True, ss_upstreamHost := h, ss_upstreamPort := q\<rparr>))"
  using assms
  by (rule_tac [1] session_ok_took [where es = "[OnTransaction tx, StartMitm h p]"],
      rule_tac [8] session_ok_took [where es = "[OnTransaction tx]"])
    (simp_all add: session_waits_def session_simps connectUpstream_def)

lemma handle_connect_ok:
  assumes "handle_connect req s = Inr s'" "\<not> session_waits s"
  shows "session_ok (tx_id (ss_tx s)) True s s'"
  using assms(1)
  by (auto simp: handle_connect_def Let_def split: prod.splits sum.splits if_splits
      intro!: connect_took [OF _ assms(2)])

lemma handle_plain_ok:
  assumes "handle_plain en req s = Inr s'" "\<not> session_waits s"
  shows "session_ok (tx_id (ss_tx s)) True s s'"
proof -
  have page: "session_ok (tx_id (ss_tx s)) True s (answer res raw s)" for res raw
    using assms(2) by (intro session_ok_took [where es = "[OnTransaction ((ss_tx s)\<lparr>tx_response := Some res\<rparr>)]"])
      (simp_all add: session_waits_def session_simps)
  have pages: "session_ok (tx_id (ss_tx s)) True s (serve_local_page en u s)"
    "session_ok (tx_id (ss_tx s)) True s (sendErrorResponse c t s)" for c t u
    using page by (simp_all add: serve_local_page_def serveCaCert_def serveBurpHelpPage_def sendErrorResponse_def Let_def)
  show ?thesis
    using assms(1)
    by (auto simp: handle_plain_def Let_def split: prod.splits sum.splits if_splits
        intro!: pages forward_took [OF _ _ _ _ assms(2)] intercept_took [OF _ _ _ assms(2)] simp: session_simps)
qed

lemma handle_request_ok:
  assumes "handle_request en req s = Inr s'" "\<not> session_waits s"
  shows "session_ok (en_nextId en) True s s'"
proof -
  let ?s = "s\<lparr>ss_tx := (ss_tx s)\<lparr>tx_id := en_nextId en, tx_request := Some req\<rparr>\<rparr>"
  have idle: "\<not> session_waits ?s" using assms(2) by (simp add: session_waits_def session_simps)
  have "session_ok (en_nextId en) True ?s s'"
    using assms(1) handle_connect_ok [OF _ idle] handle_plain_ok [OF _ idle]
    by (auto simp: handle_request_def Let_def split: if_splits)
  then obtain es where "ss_effects s' = ss_effects s @ es" "pause_ok (en_nextId en) True es (session_view ?s) (session_view s')"
    by (auto simp: session_ok_def)
  thus ?thesis
    unfolding session_ok_def pause_ok_def session_view_def session_waits_def using assms(2)
    by (intro exI [of _ es]) (auto simp: session_waits_def session_simps split: if_splits)
qed

lemma client_read_ok:
  assumes "handleClientRead ll en ec data s = Inr s'" "\<not> session_waits s" and rd: "io_ec r = ec" "io_data r = data"
  shows "session_ok (en_nextId en) (session_takes ll ClientRead r s) s s'"
proof (cases "session_takes ll ClientRead r s")
  case True
  obtain fed p where feed: "feedRequest ll data (ss_parser s) = (fed, p)" by (cases "feedRequest ll data (ss_parser s)")
  obtain taken p2 where "takeRequest ll p = (taken, p2)" by (cases "takeRequest ll p")
  then obtain req where took: "ec = Ec_ok" "\<not> ss_isConnect s" "feedRequest ll data (ss_parser s) = (True, p)"
      "takeRequest ll p = (Some req, p2)"
    using True rd feed by (cases taken) simp_all
  let ?t = "(resetTimer s)\<lparr>ss_clientData := ss_clientData (resetTimer s) @ data, ss_parser := p2\<rparr>"
  have "handle_request en req ?t = Inr s'"
    using assms(1) took by (simp add: handleClientRead_def Let_def start_defs session_simps async_start_def)
  moreover have "\<not> session_waits ?t" using assms(2) by (simp add: session_waits_def resetTimer_def session_simps)
  ultimately have "session_ok (en_nextId en) True ?t s'" by (rule handle_request_ok)
  moreover have "ss_effects ?t = ss_effects s" "session_view ?t = session_view s"
    by (simp_all add: resetTimer_def view_simps session_simps)
  ultimately show ?thesis using True by (simp add: session_ok_def)
next
  case False
  let ?a = "(resetTimer s)\<lparr>ss_clientData := ss_clientData (resetTimer s) @ data\<rparr>"
  consider "s' = session_close s" | "s' = readClient (writeServerBlind data (resetTimer s))"
    | p where "s' = readClient (?a\<lparr>ss_parser := p\<rparr>)"
    | p where "s' = sendErrorResponse 400 ''Bad Request'' (?a\<lparr>ss_parser := p\<rparr>)"
    using assms(1) False rd
    by (auto simp: handleClientRead_def Let_def session_simps resetTimer_def async_start_def split: if_splits prod.splits option.splits)
  hence "session_ok (en_nextId en) False s s'"
  proof cases
    case 1
    thus ?thesis by (simp add: session_ok_closed)
  next
    case 2
    thus ?thesis by (auto intro!: session_ok_quiet simp: view_simps session_simps start_defs)
  next
    case 3
    thus ?thesis by (auto intro!: session_ok_quiet simp: view_simps session_simps start_defs)
  next
    case 4
    thus ?thesis unfolding sendErrorResponse_def
      by (auto intro!: session_ok_answer simp: view_simps session_simps start_defs)
  qed
  thus ?thesis by (simp only: False)
qed

text \<open>A completion other than a decision's; a decision's.\<close>

lemma session_step_ok:
  assumes "session_reachable ll c s" "op \<in> set (ss_pending s)" "op \<noteq> Decision" "session_run_op ll en op r s = Inr s'"
  shows "session_ok (en_nextId en) (session_takes ll op r s) s s'"
proof -
  let ?s = "s\<lparr>ss_pending := remove1 op (ss_pending s)\<rparr>"
  have inv: "tok_inv s" using assms(1) by (rule tok_inv_reachable)
  have "(Decision \<in> set (main_ops ?s)) = (Decision \<in> set (main_ops s))"
    using assms(3) by (auto simp: main_ops_remove1)
  hence view: "session_view ?s = session_view s" "ss_effects ?s = ss_effects s" "session_takes ll op r ?s = session_takes ll op r s"
    by (auto simp: session_view_def session_waits_def) (cases op; simp)+
  have alone: "\<not> session_waits ?s" if "main_op op"
  proof -
    have "op \<in> set (main_ops s)" using that assms(2) by (simp add: main_ops_def)
    hence "Decision \<notin> set (main_ops s)"
      using inv assms(3) unfolding tok_inv_def
      by (cases "main_ops s") (auto simp: client_side_def server_side_def split: if_splits)
    thus ?thesis using assms(3) by (auto simp: session_waits_def main_ops_remove1)
  qed
  have run: "session_complete ll en op r ?s = Inr s'" using assms(4) by (simp add: session_run_op_def)
  have "session_ok (en_nextId en) (session_takes ll op r ?s) ?s s'"
    using run assms(3) alone side_ok main_handlers_ok upstream_read_ok client_read_ok [of ll en _ _ ?s s' r]
    by (cases op) (auto simp del: session_takes.simps(1))
  thus ?thesis using view by (simp add: session_ok_def)
qed

lemma session_decides_ok:
  assumes "session_reachable ll c s" "Decision \<in> set (ss_pending s)" "session_run_op ll en Decision r s = Inr s'"
  shows "\<exists>es. ss_effects s' = ss_effects s @ es \<and> list_all is_report es \<and> tx_id (ss_tx s') = tx_id (ss_tx s)
    \<and> \<not> session_waits s' \<and> ss_clientOpen s' = ss_clientOpen s"
proof -
  let ?s = "s\<lparr>ss_pending := remove1 Decision (ss_pending s)\<rparr>"
  have "Decision \<in> set (main_ops s)" using assms(2) by (simp add: main_ops_def)
  hence one: "main_ops s = [Decision]" using tok_inv_reachable [OF assms(1)] unfolding tok_inv_def
    by (cases "main_ops s") (auto simp: client_side_def server_side_def split: if_splits)
  hence none: "main_ops ?s = []" by (simp add: main_ops_remove1)
  have s': "s' = handleDecision (io_action r) (io_request r) ?s" using assms(3) by (simp add: session_run_op_def)
  show ?thesis
    unfolding s' handleDecision_def using none
    by (auto simp: forwardRequest_def sendErrorResponse_def start_defs session_simps session_waits_def Let_def)
qed

section \<open>The TLS session keeps the same contract\<close>

definition mitm_ok :: "int \<Rightarrow> bool \<Rightarrow> 'p mitm_session \<Rightarrow> 'p mitm_session \<Rightarrow> bool" where
  "mitm_ok n takes s s' \<longleftrightarrow> (\<exists>es. ms_effects s' = ms_effects s @ es \<and> pause_ok n takes es (mitm_view s) (mitm_view s'))"

lemma mitm_effects_simps [view_simps]:
  "ms_effects (mitm_async op s) = ms_effects s" "ms_effects (mitm_emit e s) = ms_effects s @ [e]"
  "ms_effects (mitm_writeClient d s) = ms_effects s" "ms_effects (mitm_doClientWrite s) = ms_effects s"
  "ms_effects (mitm_writeUpstream d s) = ms_effects s" "ms_effects (mitm_doUpstreamWrite s) = ms_effects s"
  "ms_effects (mitm_readClient s) = ms_effects s" "ms_effects (mitm_readUpstream s) = ms_effects s"
  "ms_effects (mitm_resetTimer s) = ms_effects s"
  by (simp_all add: mitm_async_def mitm_emit_def mitm_writeClient_def mitm_doClientWrite_def mitm_writeUpstream_def
      mitm_doUpstreamWrite_def mitm_readClient_def mitm_readUpstream_def mitm_resetTimer_def Let_def)

lemma mitm_view_basic [view_simps]:
  "op \<noteq> MDecision \<Longrightarrow> mitm_view (mitm_async op s) = mitm_view s" "mitm_view (mitm_emit e s) = mitm_view s"
  "mitm_view (s\<lparr>ms_rawClientOpen := b\<rparr>) = mitm_view s" "mitm_view (s\<lparr>ms_rawServerOpen := b\<rparr>) = mitm_view s"
  "mitm_view (s\<lparr>ms_clientStream := cs\<rparr>) = mitm_view s" "mitm_view (s\<lparr>ms_upstreamStream := us\<rparr>) = mitm_view s"
  "mitm_view (s\<lparr>ms_clientHandshakeDone := b\<rparr>) = mitm_view s" "mitm_view (s\<lparr>ms_upstreamHandshakeDone := b\<rparr>) = mitm_view s"
  "mitm_view (s\<lparr>ms_clientParser := p\<rparr>) = mitm_view s" "mitm_view (s\<lparr>ms_upstreamParser := p\<rparr>) = mitm_view s"
  "mitm_view (s\<lparr>ms_clientAccumulated := d\<rparr>) = mitm_view s" "mitm_view (s\<lparr>ms_upstreamAccumulated := d\<rparr>) = mitm_view s"
  "mitm_view (s\<lparr>ms_clientWriteQueue := q\<rparr>) = mitm_view s" "mitm_view (s\<lparr>ms_upstreamWriteQueue := q\<rparr>) = mitm_view s"
  "mitm_view (s\<lparr>ms_closeAfterWrite := b\<rparr>) = mitm_view s"
  "mitm_view (s\<lparr>ms_tx := (ms_tx s)\<lparr>tx_response := v\<rparr>\<rparr>) = mitm_view s"
  by (auto simp: mitm_view_def mitm_waits_def mitm_simps)

lemma mitm_view_simps [view_simps]:
  "mitm_view (mitm_resetTimer s) = mitm_view s" "mitm_view (mitm_doClientWrite s) = mitm_view s"
  "mitm_view (mitm_writeClient d s) = mitm_view s" "mitm_view (mitm_doUpstreamWrite s) = mitm_view s"
  "mitm_view (mitm_writeUpstream d s) = mitm_view s" "mitm_view (mitm_readClient s) = mitm_view s"
  "mitm_view (mitm_readUpstream s) = mitm_view s"
  by (simp_all add: mitm_resetTimer_def mitm_doClientWrite_def mitm_writeClient_def mitm_doUpstreamWrite_def
      mitm_writeUpstream_def mitm_readClient_def mitm_readUpstream_def Let_def view_simps)

lemma mitm_ok_report:
  assumes "ms_effects s' = ms_effects s @ es" "list_all is_report es" "mitm_view s' = mitm_view s"
  shows "mitm_ok n False s s'"
  unfolding mitm_ok_def assms(3) using assms(1) pause_ok_report [OF assms(2)] by blast

lemma mitm_ok_quiet: "ms_effects s' = ms_effects s \<Longrightarrow> mitm_view s' = mitm_view s \<Longrightarrow> mitm_ok n False s s'"
  by (rule mitm_ok_report [where es = "[]"]) simp_all

lemma mitm_ok_close:
  assumes "ms_effects t = ms_effects s @ es" "list_all is_report es" "mitm_view t = mitm_view s"
  shows "mitm_ok n False s (mitm_close t)"
proof (cases "ms_isClosed t")
  case True
  thus ?thesis using mitm_ok_report [OF assms] by (simp add: mitm_close_def)
next
  case False
  have "ms_effects (mitm_close t) = ms_effects s @ es @ (if tx_id (ms_tx t) \<noteq> 0 then [RemoveById (tx_id (ms_tx t))] else [])"
    using assms(1) False by (simp add: mitm_close_def Let_def view_simps)
  moreover have "mitm_view (mitm_close t) = (tx_id (ms_tx t), mitm_waits t, False)"
    using False by (simp add: mitm_close_def Let_def mitm_view_def mitm_waits_def mitm_simps)
  ultimately show ?thesis
    unfolding mitm_ok_def using pause_ok_close [OF assms(2)] assms(3)
    by (metis mitm_view_def)
qed

lemmas mitm_ok_closed = mitm_ok_close [where es = "[]", simplified append_Nil2 list.pred_inject(1) True_implies_equals]

lemma mitm_ok_if: "\<lbrakk>c \<Longrightarrow> mitm_ok n b s t; \<not> c \<Longrightarrow> mitm_ok n b s u\<rbrakk> \<Longrightarrow> mitm_ok n b s (if c then t else u)"
  by simp

lemma mitm_ok_option: "\<lbrakk>x = None \<Longrightarrow> mitm_ok n b s t; \<And>y. x = Some y \<Longrightarrow> mitm_ok n b s (u y)\<rbrakk>
    \<Longrightarrow> mitm_ok n b s (case x of None \<Rightarrow> t | Some y \<Rightarrow> u y)"
  by (cases x) simp_all

lemma mitm_error_effects:
  "mitm_view (mitm_sendErrorResponse c x t) = mitm_view t"
  "\<exists>es. ms_effects (mitm_sendErrorResponse c x t) = ms_effects t @ es \<and> list_all is_report es"
proof -
  have tx: "tx_id tx = tx_id (ms_tx u) \<Longrightarrow> mitm_view (u\<lparr>ms_tx := tx\<rparr>) = mitm_view u" for tx and u :: "'a mitm_session"
    by (simp add: mitm_view_def mitm_waits_def mitm_simps)
  show "mitm_view (mitm_sendErrorResponse c x t) = mitm_view t"
    by (simp add: mitm_sendErrorResponse_def Let_def view_simps tx)
  show "\<exists>es. ms_effects (mitm_sendErrorResponse c x t) = ms_effects t @ es \<and> list_all is_report es"
    by (auto simp: mitm_sendErrorResponse_def Let_def view_simps)
qed

lemma mitm_error_ok: "\<lbrakk>ms_effects t = ms_effects s; mitm_view t = mitm_view s\<rbrakk> \<Longrightarrow> mitm_ok n False s (mitm_sendErrorResponse c x t)"
  using mitm_error_effects [of c x t] mitm_ok_report by fastforce

lemmas mitm_ok_intros = mitm_ok_if mitm_ok_option mitm_ok_closed mitm_error_ok

lemma mitm_handlers_ok:
  "mitm_ok n False s (mitm_handleTimeout ec s)" "mitm_ok n False s (mitm_handleResolve ec s)"
  "mitm_ok n False s (mitm_handleConnected ec s)" "mitm_ok n False s (mitm_handleEstablished en ec s)"
  "mitm_ok n False s (handleClientHandshake ec s)" "mitm_ok n False s (handleUpstreamHandshake ec s)"
  "mitm_ok n False s (mitm_handleUpstreamWrite ec s)" "mitm_ok n False s (mitm_handleClientWrite ec s)"
  "mitm_ok n False s (mitm_close s)"
  unfolding mitm_handleTimeout_def mitm_handleResolve_def mitm_handleConnected_def mitm_handleEstablished_def
    handleClientHandshake_def handleUpstreamHandshake_def mitm_handleUpstreamWrite_def mitm_handleClientWrite_def
    mitm_handleUpstreamConnect_def mitm_sendEstablishedResponse_def startTlsHandshakes_def onBothHandshakesComplete_def Let_def
  by (intro mitm_ok_intros mitm_ok_quiet; simp add: view_simps)+

lemma mitm_response_done_ok: "\<not> mitm_waits s \<Longrightarrow> \<not> ms_isClosed s \<Longrightarrow> mitm_ok n False s (mitm_response_done ll res s)"
  unfolding mitm_ok_def pause_ok_def mitm_response_done_def Let_def mitm_close_def
  by (auto simp: mitm_view_def mitm_waits_def mitm_simps view_simps mitm_readClient_def HttpTransaction_def)

lemma mitm_ok_from: "\<lbrakk>mitm_ok n b t s'; ms_effects t = ms_effects s; mitm_view t = mitm_view s\<rbrakk> \<Longrightarrow> mitm_ok n b s s'"
  by (simp add: mitm_ok_def)

lemma mitm_eof_view:
  "mitm_view (mitm_upstream_eof ll s) = mitm_view s"
  "\<exists>es. ms_effects (mitm_upstream_eof ll s) = ms_effects s @ es \<and> list_all is_report es"
  by (auto simp: mitm_upstream_eof_def Let_def mitm_view_def mitm_waits_def mitm_simps view_simps split: prod.split option.split)

lemma mitm_upstream_read_ok:
  assumes "\<not> mitm_waits s"
  shows "mitm_ok n False s (mitm_handleUpstreamRead ll ec data s)"
proof (cases "ms_isClosed s \<or> ec \<noteq> Ec_ok")
  case True
  have "mitm_ok n False s (mitm_close (mitm_upstream_eof ll s))"
    using mitm_eof_view [of ll s] mitm_ok_close by blast
  thus ?thesis using True
    by (auto simp: mitm_handleUpstreamRead_def intro: mitm_ok_intros mitm_ok_quiet)
next
  case False
  define t where "t = mitm_writeClient data (mitm_resetTimer s)"
  have t: "mitm_view t = mitm_view s" "ms_effects t = ms_effects s" by (simp_all add: t_def view_simps)
  hence idle: "\<not> mitm_waits t" "\<not> ms_isClosed t" using assms False by (simp_all add: mitm_view_def)
  let ?u = "\<lambda>p. t\<lparr>ms_upstreamAccumulated := ms_upstreamAccumulated t @ data, ms_upstreamParser := p\<rparr>"
  have finish: "mitm_ok n False s (mitm_response_done ll res (?u p))" for res p
    using idle t by (intro mitm_ok_from [OF mitm_response_done_ok]) (simp_all add: mitm_waits_def mitm_simps view_simps)
  have read: "mitm_ok n False s (mitm_readUpstream (?u p))" for p
    using t by (intro mitm_ok_quiet) (simp_all add: view_simps)
  show ?thesis
    using False finish read
    by (simp add: mitm_handleUpstreamRead_def Let_def t_def [symmetric] split: prod.split option.split)
qed

lemma mitm_request_ok:
  assumes "\<not> mitm_waits s"
  shows "mitm_ok (me_nextId en) True s (mitm_handle_request en req s)"
proof -
  let ?s = "s\<lparr>ms_tx := (ms_tx s)\<lparr>tx_id := me_nextId en, tx_host := ms_targetHost s, tx_port := uint (ms_targetPort s),
      tx_is_https := True, tx_request := Some req\<rparr>\<rparr>"
  have view: "mitm_view ?s = (me_nextId en, False, \<not> ms_isClosed s)" "mitm_view s = (tx_id (ms_tx s), False, \<not> ms_isClosed s)"
    using assms by (simp_all add: mitm_view_def mitm_waits_def mitm_simps)
  show ?thesis
  proof (cases "me_intercept en")
    case True
    have "mitm_view (mitm_handle_request en req s) = (me_nextId en, True, \<not> ms_isClosed s)"
      using True by (simp add: mitm_handle_request_def Let_def mitm_view_def mitm_waits_def mitm_simps)
    moreover have "ms_effects (mitm_handle_request en req s) = ms_effects s @ [InterceptRequest (me_nextId en) (ms_targetHost s) (ms_targetPort s) req]"
      using True by (simp add: mitm_handle_request_def Let_def view_simps)
    ultimately show ?thesis by (auto simp: mitm_ok_def pause_ok_def view(2))
  next
    case False
    have "mitm_view (mitm_handle_request en req s) = mitm_view ?s" "ms_effects (mitm_handle_request en req s) = ms_effects s"
      using False by (simp_all add: mitm_handle_request_def Let_def view_simps)
    thus ?thesis by (auto simp: mitm_ok_def pause_ok_def view)
  qed
qed

lemma mitm_client_read_ok:
  assumes "\<not> mitm_waits s" and rd: "io_ec r = ec" "io_data r = data"
  shows "mitm_ok (me_nextId en) (mitm_takes ll MClientRead r s) s (mitm_handleClientRead ll en ec data s)"
proof -
  obtain fed p where feed: "feedRequest ll data (ms_clientParser s) = (fed, p)" by (cases "feedRequest ll data (ms_clientParser s)")
  obtain taken p2 where take: "takeRequest ll p = (taken, p2)" by (cases "takeRequest ll p")
  let ?t = "\<lambda>p. (mitm_resetTimer s)\<lparr>ms_clientAccumulated := ms_clientAccumulated (mitm_resetTimer s) @ data, ms_clientParser := p\<rparr>"
  have t: "mitm_view (?t p) = mitm_view s" "ms_effects (?t p) = ms_effects s" for p by (simp_all add: view_simps)
  have parser: "ms_clientParser (mitm_resetTimer s) = ms_clientParser s" by (simp add: mitm_resetTimer_def mitm_async_def)
  show ?thesis
  proof (cases "mitm_takes ll MClientRead r s")
    case True
    then obtain req where "fed" "taken = Some req" "ec = Ec_ok" "\<not> ms_isClosed s" using rd feed take by auto
    hence "mitm_handleClientRead ll en ec data s = mitm_handle_request en req (?t p2)"
      using feed take by (simp add: mitm_handleClientRead_def Let_def parser)
    moreover have "\<not> mitm_waits (?t p2)" using assms(1) t(1) [of p2] by (simp add: mitm_view_def)
    ultimately have "mitm_ok (me_nextId en) True (?t p2) (mitm_handleClientRead ll en ec data s)"
      by (simp add: mitm_request_ok)
    hence "mitm_ok (me_nextId en) True s (mitm_handleClientRead ll en ec data s)"
      by (rule mitm_ok_from) (rule t)+
    thus ?thesis by (simp only: True)
  next
    case False
    have read: "mitm_ok (me_nextId en) False s (mitm_readClient (?t q))" for q
      using t by (intro mitm_ok_quiet) (simp_all add: view_simps)
    have closed: "mitm_ok (me_nextId en) False s (mitm_close (?t q))" "mitm_ok (me_nextId en) False s (mitm_close s)" for q
      using t by (simp_all add: mitm_ok_closed)
    have none: "taken = None" if "fed" "ec = Ec_ok" "\<not> ms_isClosed s"
      using False that rd feed take by (cases taken) simp_all
    have "mitm_ok (me_nextId en) False s (mitm_handleClientRead ll en ec data s)"
      using feed take none read closed mitm_ok_quiet [of s s]
      by (cases "ms_isClosed s"; cases "ec = Ec_ok"; cases fed) (simp_all add: mitm_handleClientRead_def Let_def parser)
    thus ?thesis by (simp only: False)
  qed
qed

lemma mitm_one_main:
  assumes "mitm_reachable ll h p s" "op \<in> set (ms_pending s)" "mitm_main op"
  shows "mitm_mains s = [op]" "mitm_mains (s\<lparr>ms_pending := remove1 op (ms_pending s)\<rparr>) = []"
proof -
  have "op \<in> set (mitm_mains s)" using assms(2,3) by (simp add: mitm_mains_def)
  with mitm_inv_reachable [OF assms(1)] show one: "mitm_mains s = [op]"
    by (cases "mitm_mains s") (auto simp: mitm_inv_def)
  thus "mitm_mains (s\<lparr>ms_pending := remove1 op (ms_pending s)\<rparr>) = []"
    by (simp add: mitm_mains_def filter_remove1)
qed

lemma mitm_step_ok:
  assumes "mitm_reachable ll h p s" "op \<in> set (ms_pending s)" "op \<noteq> MDecision"
  shows "mitm_ok (me_nextId en) (mitm_takes ll op r s) s (mitm_run_op ll en op r s)"
proof -
  let ?s = "s\<lparr>ms_pending := remove1 op (ms_pending s)\<rparr>"
  have "(MDecision \<in> set (mitm_mains ?s)) = (MDecision \<in> set (mitm_mains s))"
    using assms(3) by (simp add: mitm_mains_def filter_remove1)
  hence view: "mitm_view ?s = mitm_view s" "ms_effects ?s = ms_effects s" "mitm_takes ll op r ?s = mitm_takes ll op r s"
    by (auto simp: mitm_view_def mitm_waits_def) (cases op; simp)+
  have alone: "\<not> mitm_waits ?s" if "mitm_main op"
    using mitm_one_main(2) [OF assms(1,2) that] by (simp add: mitm_waits_def)
  have "mitm_ok (me_nextId en) (mitm_takes ll op r ?s) ?s (mitm_complete ll en op r ?s)"
    using assms(3) alone mitm_handlers_ok mitm_upstream_read_ok mitm_client_read_ok [of ?s r _ _ en ll]
    by (cases op) (auto simp del: mitm_takes.simps(1))
  thus ?thesis using view by (simp add: mitm_ok_def mitm_run_op_def)
qed

lemma mitm_decides_ok:
  assumes "mitm_reachable ll h p s" "MDecision \<in> set (ms_pending s)"
  shows "\<exists>es. ms_effects (mitm_run_op ll en MDecision r s) = ms_effects s @ es \<and> list_all is_report es
    \<and> mitm_view (mitm_run_op ll en MDecision r s) = (tx_id (ms_tx s), False, \<not> ms_isClosed s)"
proof -
  let ?s = "s\<lparr>ms_pending := remove1 MDecision (ms_pending s)\<rparr>"
  let ?t = "mitm_resetTimer (?s\<lparr>ms_tx := (ms_tx ?s)\<lparr>tx_request := Some (io_request r)\<rparr>\<rparr>)"
  have "mitm_mains ?s = []" using mitm_one_main(2) [OF assms] by simp
  hence idle: "mitm_view ?s = (tx_id (ms_tx s), False, \<not> ms_isClosed s)" "mitm_view ?t = (tx_id (ms_tx s), False, \<not> ms_isClosed s)"
    by (simp_all add: mitm_view_def mitm_waits_def mitm_resetTimer_def mitm_simps)
  have eff: "ms_effects ?t = ms_effects s" by (simp add: view_simps)
  show ?thesis
    using idle eff mitm_error_effects [of 502 "''Request Dropped by BurpTUI''" ?t]
    by (auto simp: mitm_run_op_def mitm_handleDecision_def Let_def view_simps)
qed

section \<open>The contract as an interface\<close>

locale pausing =
  fixes view :: "'c \<Rightarrow> int \<times> bool \<times> bool"
    and effs :: "'c \<Rightarrow> session_effect list"
    and step :: "int \<Rightarrow> bool \<Rightarrow> 'c \<Rightarrow> 'c \<Rightarrow> bool"
    and decide :: "intercept_action \<Rightarrow> http_request \<Rightarrow> 'c \<Rightarrow> 'c"
    and ok :: "'c \<Rightarrow> bool"
  assumes step_contract: "\<lbrakk>ok c; step n t c c'\<rbrakk> \<Longrightarrow> ok c' \<and> (\<exists>es. effs c' = effs c @ es \<and> pause_ok n t es (view c) (view c'))"
    and decide_contract: "\<lbrakk>ok c; view c = (i, True, b)\<rbrakk> \<Longrightarrow> ok (decide a r c)
      \<and> (\<exists>es. effs (decide a r c) = effs c @ es \<and> list_all is_report es \<and> view (decide a r c) = (i, False, b))"
begin

lemma step_added: "\<lbrakk>ok c; step n t c c'\<rbrakk> \<Longrightarrow> pause_ok n t (added (effs c) (effs c')) (view c) (view c')"
  using step_contract [of c n t c'] by auto

lemma decide_added:
  "\<lbrakk>ok c; view c = (i, True, b)\<rbrakk> \<Longrightarrow> list_all is_report (added (effs c) (effs (decide a r c))) \<and> view (decide a r c) = (i, False, b)"
  using decide_contract [of c i b a r] by auto

text \<open>A connection comes to wait only by handing over a request, under the id it then drew.\<close>

lemma waits_for_its_request:
  assumes "ok c" "step n t c c'" "view c = (i, False, b)" "view c' = (i', True, b')"
  shows "i' = n \<and> (\<exists>h p r. added (effs c) (effs c') = [InterceptRequest n h p r])"
  using step_added [OF assms(1,2)] assms(3,4) by (auto simp: pause_ok_def split: if_splits)

end

section \<open>Connections\<close>

datatype 'p conn = Plain "'p session" | Tls "'p mitm_session"

inductive session_moves :: "'p llhttp \<Rightarrow> int \<Rightarrow> bool \<Rightarrow> 'p session \<Rightarrow> 'p session \<Rightarrow> bool" for ll n where
  "\<lbrakk>op \<in> set (ss_pending s); op \<noteq> Decision; en_nextId en = n; session_run_op ll en op r s = Inr s'\<rbrakk>
   \<Longrightarrow> session_moves ll n (session_takes ll op r s) s s'"

inductive mitm_moves :: "'p llhttp \<Rightarrow> int \<Rightarrow> bool \<Rightarrow> 'p mitm_session \<Rightarrow> 'p mitm_session \<Rightarrow> bool" for ll n where
  "\<lbrakk>op \<in> set (ms_pending s); op \<noteq> MDecision; me_nextId en = n\<rbrakk>
   \<Longrightarrow> mitm_moves ll n (mitm_takes ll op r s) s (mitm_run_op ll en op r s)"

definition session_decide :: "intercept_action \<Rightarrow> http_request \<Rightarrow> 'p session \<Rightarrow> 'p session" where
  "session_decide a req s = handleDecision a req (s\<lparr>ss_pending := remove1 Decision (ss_pending s)\<rparr>)"

definition mitm_decide :: "intercept_action \<Rightarrow> http_request \<Rightarrow> 'p mitm_session \<Rightarrow> 'p mitm_session" where
  "mitm_decide a req s = mitm_handleDecision a req (s\<lparr>ms_pending := remove1 MDecision (ms_pending s)\<rparr>)"

text \<open>A decision is the completion of the operation that waits for it.\<close>

lemma session_decision_runs:
  assumes "session_view c = (i, True, b)"
  shows "Decision \<in> set (ss_pending c)"
    "session_run_op ll en Decision \<lparr>io_ec = Ec_ok, io_data = [], io_action = a, io_request = r\<rparr> c = Inr (session_decide a r c)"
  using assms by (simp_all add: session_view_def session_waits_def main_ops_def session_run_op_def session_decide_def)

interpretation plain: pausing session_view ss_effects "session_moves ll" session_decide "session_reachable ll True" for ll
proof
  fix c c' :: "'a session" and n t
  assume c: "session_reachable ll True c" and move: "session_moves ll n t c c'"
  from move show "session_reachable ll True c' \<and> (\<exists>es. ss_effects c' = ss_effects c @ es \<and> pause_ok n t es (session_view c) (session_view c'))"
  proof cases
    case (1 op en r)
    from session_step_ok [OF c 1(2,3,5)] 1(1,4) session_reachable.step [OF c 1(2,5)] show ?thesis by (simp add: session_ok_def)
  qed
next
  fix c :: "'a session" and i b a r
  assume c: "session_reachable ll True c" and v: "session_view c = (i, True, b)"
  note decision = session_decision_runs(1) [OF v] session_decision_runs(2) [OF v, of ll _ a r]
  from session_decides_ok [OF c decision] session_reachable.step [OF c decision] v
  show "session_reachable ll True (session_decide a r c) \<and> (\<exists>es. ss_effects (session_decide a r c) = ss_effects c @ es
      \<and> list_all is_report es \<and> session_view (session_decide a r c) = (i, False, b))"
    by (auto simp: session_view_def)
qed

interpretation tls: pausing mitm_view ms_effects "mitm_moves ll" mitm_decide "\<lambda>s. \<exists>h p. mitm_reachable ll h p s" for ll
proof
  fix c c' :: "'a mitm_session" and n t
  assume c: "\<exists>h p. mitm_reachable ll h p c" and move: "mitm_moves ll n t c c'"
  from move show "(\<exists>h p. mitm_reachable ll h p c') \<and> (\<exists>es. ms_effects c' = ms_effects c @ es \<and> pause_ok n t es (mitm_view c) (mitm_view c'))"
  proof cases
    case (1 op en r)
    from c obtain h p where r: "mitm_reachable ll h p c" by blast
    from mitm_step_ok [OF r 1(3,4), of en r] mitm_reachable.step [OF r 1(3), of en r] 1(1,2,5)
    show ?thesis by (auto simp: mitm_ok_def)
  qed
next
  fix c :: "'a mitm_session" and i b a r
  assume c: "\<exists>h p. mitm_reachable ll h p c" and v: "mitm_view c = (i, True, b)"
  let ?r = "\<lparr>io_ec = Ec_ok, io_data = [], io_action = a, io_request = r\<rparr>"
  have pending: "MDecision \<in> set (ms_pending c)" using v by (simp add: mitm_view_def mitm_waits_def mitm_mains_def)
  have run: "mitm_run_op ll en MDecision ?r c = mitm_decide a r c" for en
    by (simp add: mitm_run_op_def mitm_decide_def)
  from c obtain h p where rch: "mitm_reachable ll h p c" by blast
  from mitm_decides_ok [OF rch pending, where r = ?r] mitm_reachable.step [OF rch pending, where r = ?r] v
  show "(\<exists>h p. mitm_reachable ll h p (mitm_decide a r c)) \<and> (\<exists>es. ms_effects (mitm_decide a r c) = ms_effects c @ es
      \<and> list_all is_report es \<and> mitm_view (mitm_decide a r c) = (i, False, b))"
    unfolding run by (auto simp: mitm_view_def)
qed

fun conn_view :: "'p conn \<Rightarrow> int \<times> bool \<times> bool" where
  "conn_view (Plain s) = session_view s"
| "conn_view (Tls s) = mitm_view s"

fun conn_effects :: "'p conn \<Rightarrow> session_effect list" where
  "conn_effects (Plain s) = ss_effects s"
| "conn_effects (Tls s) = ms_effects s"

fun conn_isHttps :: "'p conn \<Rightarrow> bool" where
  "conn_isHttps (Plain s) \<longleftrightarrow> False"
| "conn_isHttps (Tls s) \<longleftrightarrow> True"

fun conn_reachable :: "'p llhttp \<Rightarrow> 'p conn \<Rightarrow> bool" where
  "conn_reachable ll (Plain s) \<longleftrightarrow> session_reachable ll True s"
| "conn_reachable ll (Tls s) \<longleftrightarrow> (\<exists>h p. mitm_reachable ll h p s)"

fun conn_moves :: "'p llhttp \<Rightarrow> int \<Rightarrow> bool \<Rightarrow> 'p conn \<Rightarrow> 'p conn \<Rightarrow> bool" where
  "conn_moves ll n t (Plain s) (Plain s') \<longleftrightarrow> session_moves ll n t s s'"
| "conn_moves ll n t (Tls s) (Tls s') \<longleftrightarrow> mitm_moves ll n t s s'"
| "conn_moves ll n t _ _ \<longleftrightarrow> False"

fun conn_decide :: "intercept_action \<Rightarrow> http_request \<Rightarrow> 'p conn \<Rightarrow> 'p conn" where
  "conn_decide a req (Plain s) = Plain (session_decide a req s)"
| "conn_decide a req (Tls s) = Tls (mitm_decide a req s)"

interpretation conn: pausing conn_view conn_effects "conn_moves ll" conn_decide "conn_reachable ll" for ll
proof
  fix c c' :: "'a conn" and n t
  assume "conn_reachable ll c" "conn_moves ll n t c c'"
  thus "conn_reachable ll c' \<and> (\<exists>es. conn_effects c' = conn_effects c @ es \<and> pause_ok n t es (conn_view c) (conn_view c'))"
    using plain.step_contract [of ll _ n t] tls.step_contract [of ll _ n t] by (cases c; cases c') simp_all
next
  fix c :: "'a conn" and i b a r
  assume "conn_reachable ll c" "conn_view c = (i, True, b)"
  thus "conn_reachable ll (conn_decide a r c) \<and> (\<exists>es. conn_effects (conn_decide a r c) = conn_effects c @ es
      \<and> list_all is_report es \<and> conn_view (conn_decide a r c) = (i, False, b))"
    using plain.decide_contract [of ll _ i b a r] tls.decide_contract [of ll _ i b a r] by (cases c) simp_all
qed

lemma conn_isHttps_moves: "conn_moves ll n t c c' \<Longrightarrow> conn_isHttps c' = conn_isHttps c"
  by (cases c; cases c') simp_all

lemma conn_isHttps_decide: "conn_isHttps (conn_decide a r c) = conn_isHttps c"
  by (cases c) simp_all

text \<open>A TLS session takes requests only while it is open; the plain session does not look.\<close>

lemma tls_takes_open: "conn_moves ll n True c c' \<Longrightarrow> conn_isHttps c \<Longrightarrow> snd (snd (conn_view c))"
  by (cases c; cases c') (auto simp: mitm_view_def elim!: mitm_moves.cases mitm_takes.elims)

section \<open>The network\<close>

text \<open>
  A decision that the manager's callback has posted waits in \<open>nw_posted\<close>; \<open>nw_owner\<close> is the session that the
  callback of an id captured. \<open>nw_taken\<close>, the number of requests taken so far, only states bounds.
\<close>

record 'p network =
  nw_conns :: "'p conn list"
  nw_manager :: intercept_manager
  nw_posted :: "(intercepted_request \<times> intercept_action) list"
  nw_owner :: "int \<rightharpoonup> nat"
  nw_queue :: "http_transaction tsqueue"
  nw_nextId :: "32 word"
  nw_taken :: nat

definition Network :: "'p network" where
  "Network = \<lparr>nw_conns = [], nw_manager = InterceptManager, nw_posted = [], nw_owner = Map.empty, nw_queue = [],
     nw_nextId = 1, nw_taken = 0\<rparr>"

fun deliver1 :: "'p llhttp \<Rightarrow> nat \<Rightarrow> session_effect \<Rightarrow> 'p network \<Rightarrow> 'p network" where
  "deliver1 ll k (OnTransaction tx) s = s\<lparr>nw_queue := ts_push tx (nw_queue s)\<rparr>"
| "deliver1 ll k (RemoveById i) s = s\<lparr>nw_manager := snd (removeById i (nw_manager s))\<rparr>"
| "deliver1 ll k (InterceptRequest i h p r) s =
     s\<lparr>nw_manager := snd (interceptRequest i (conn_isHttps (nw_conns s ! k)) h p r (nw_manager s)),
       nw_owner := (nw_owner s)(i \<mapsto> k)\<rparr>"
| "deliver1 ll k (StartMitm h p) s = s\<lparr>nw_conns := nw_conns s @ [Tls (mitm_start (MitmSession ll h p))]\<rparr>"

definition deliver :: "'p llhttp \<Rightarrow> nat \<Rightarrow> session_effect list \<Rightarrow> 'p network \<Rightarrow> 'p network" where
  "deliver ll k es s = foldl (\<lambda>s e. deliver1 ll k e s) s es"

fun posts :: "im_effect list \<Rightarrow> (intercepted_request \<times> intercept_action) list" where
  "posts [] = []"
| "posts (Decide item a # es) = (item, a) # posts es"
| "posts (Notify # es) = posts es"

definition net_accept :: "'p llhttp \<Rightarrow> 'p network \<Rightarrow> 'p network" where
  "net_accept ll s = s\<lparr>nw_conns := nw_conns s @ [Plain (session_start (Session ll True))]\<rparr>"

text \<open>Connection \<open>k\<close> became \<open>c\<close>: its effects are carried out; a request that it took has advanced the counter.\<close>

definition net_io :: "'p llhttp \<Rightarrow> nat \<Rightarrow> bool \<Rightarrow> 'p conn \<Rightarrow> 'p network \<Rightarrow> 'p network" where
  "net_io ll k takes c s =
     (let s1 = s\<lparr>nw_conns := (nw_conns s)[k := c]\<rparr>;
          s2 = (if takes then s1\<lparr>nw_nextId := nw_nextId s1 + 1, nw_taken := nw_taken s1 + 1\<rparr> else s1)
      in deliver ll k (added (conn_effects (nw_conns s ! k)) (conn_effects c)) s2)"

definition net_decide :: "'p llhttp \<Rightarrow> intercepted_request \<times> intercept_action \<Rightarrow> 'p network \<Rightarrow> 'p network" where
  "net_decide ll x s =
     (case nw_owner s (it_id (fst x)) of
        None \<Rightarrow> s
      | Some k \<Rightarrow> net_io ll k False (conn_decide (snd x) (it_request (fst x)) (nw_conns s ! k))
                    (s\<lparr>nw_posted := remove1 x (nw_posted s)\<rparr>))"

fun user_op :: "im_op \<Rightarrow> bool" where
  "user_op (OpIntercept i h host port r) \<longleftrightarrow> False"
| "user_op (OpRemove i) \<longleftrightarrow> False"
| "user_op _ \<longleftrightarrow> True"

definition net_user :: "im_op \<Rightarrow> 'p network \<Rightarrow> 'p network" where
  "net_user p s = (let (es, im) = im_step p (nw_manager s) in s\<lparr>nw_manager := im, nw_posted := nw_posted s @ posts es\<rparr>)"

definition net_edit :: "http_request \<Rightarrow> 'p network \<Rightarrow> 'p network" where
  "net_edit r s = s\<lparr>nw_manager := replace_current r (nw_manager s)\<rparr>"

definition net_drain :: "'p network \<Rightarrow> http_transaction list \<times> 'p network" where
  "net_drain s = (let (txs, q) = ts_tryPopAll (nw_queue s) in (txs, s\<lparr>nw_queue := q\<rparr>))"

text \<open>The io thread runs the decisions that were posted, in the order they were.\<close>

definition run_posted :: "'p llhttp \<Rightarrow> 'p network \<Rightarrow> 'p network" where
  "run_posted ll s = fold (net_decide ll) (nw_posted s) s"

inductive network_step :: "'p llhttp \<Rightarrow> 'p network \<Rightarrow> 'p network \<Rightarrow> bool" for ll where
  accept: "network_step ll s (net_accept ll s)"
| io: "\<lbrakk>k < length (nw_conns s); conn_moves ll (sint (nw_nextId s)) t (nw_conns s ! k) c\<rbrakk> \<Longrightarrow> network_step ll s (net_io ll k t c s)"
| decide: "x \<in> set (nw_posted s) \<Longrightarrow> network_step ll s (net_decide ll x s)"
| user: "user_op p \<Longrightarrow> network_step ll s (net_user p s)"
| edit: "network_step ll s (net_edit r s)"
| drain: "network_step ll s (snd (net_drain s))"

inductive network_steps :: "'p llhttp \<Rightarrow> 'p network \<Rightarrow> 'p network \<Rightarrow> bool" for ll where
  none: "network_steps ll s s"
| more: "network_step ll s s' \<Longrightarrow> network_steps ll s' s'' \<Longrightarrow> network_steps ll s s''"

inductive network_reachable :: "'p llhttp \<Rightarrow> 'p network \<Rightarrow> bool" for ll where
  init: "network_reachable ll Network"
| step: "network_reachable ll s \<Longrightarrow> network_step ll s s' \<Longrightarrow> network_reachable ll s'"

section \<open>Claims: which connection waits for which id\<close>

text \<open>
  Over the views of the connections: ids were drawn, and by one connection each; an id that awaits a decision
  or was decided is that of one waiting connection, its owner; and an open connection that waits has its id
  among them.
\<close>

definition ids_drawn :: "nat \<Rightarrow> (int \<times> bool \<times> bool) list \<Rightarrow> bool" where
  "ids_drawn n vs \<longleftrightarrow> (\<forall>v \<in> set vs. 0 \<le> fst v \<and> fst v \<le> int n \<and> (fst (snd v) \<longrightarrow> fst v \<noteq> 0))"

definition ids_apart :: "(int \<times> bool \<times> bool) list \<Rightarrow> bool" where
  "ids_apart vs \<longleftrightarrow> (\<forall>k < length vs. \<forall>j < length vs. j \<noteq> k \<and> fst (vs ! j) = fst (vs ! k) \<longrightarrow> fst (vs ! k) = 0)"

definition owned :: "(int \<times> bool \<times> bool) list \<Rightarrow> (int \<rightharpoonup> nat) \<Rightarrow> int set \<Rightarrow> bool" where
  "owned vs own ids \<longleftrightarrow> (\<forall>i \<in> ids. \<exists>k b. own i = Some k \<and> k < length vs \<and> vs ! k = (i, True, b))"

definition claimed :: "(int \<times> bool \<times> bool) list \<Rightarrow> int set \<Rightarrow> bool" where
  "claimed vs ids \<longleftrightarrow> (\<forall>i. (i, True, True) \<in> set vs \<longrightarrow> i \<in> ids)"

definition claims_inv :: "nat \<Rightarrow> (int \<times> bool \<times> bool) list \<Rightarrow> (int \<rightharpoonup> nat) \<Rightarrow> int list \<Rightarrow> bool" where
  "claims_inv n vs own ids \<longleftrightarrow>
     ids_drawn n vs \<and> ids_apart vs \<and> distinct ids \<and> owned vs own (set ids) \<and> claimed vs (set ids)"

lemma claims_empty: "claims_inv n [] Map.empty []"
  by (simp add: claims_inv_def ids_drawn_def ids_apart_def owned_def claimed_def)

lemma claims_new: "claims_inv n vs own ids \<Longrightarrow> claims_inv n (vs @ [(0, False, b)]) own ids"
proof -
  assume inv: "claims_inv n vs own ids"
  have "ids_apart (vs @ [(0, False, b)])"
    using inv by (auto simp: claims_inv_def ids_apart_def nth_append less_Suc_eq)
  moreover have "owned (vs @ [(0, False, b)]) own (set ids)"
    using inv unfolding claims_inv_def owned_def by (metis length_append_singleton less_Suc_eq nth_append)
  ultimately show ?thesis using inv by (auto simp: claims_inv_def ids_drawn_def claimed_def)
qed

lemma claims_perm: "claims_inv n vs own ids \<Longrightarrow> mset ids' = mset ids \<Longrightarrow> claims_inv n vs own ids'"
  unfolding claims_inv_def using mset_eq_setD [of ids' ids] mset_eq_imp_distinct_iff [of ids' ids] by simp

text \<open>One connection's view changes.\<close>

lemma drawn_update: "\<lbrakk>ids_drawn n vs; n \<le> n'; 0 \<le> fst v; fst v \<le> int n'; fst (snd v) \<Longrightarrow> fst v \<noteq> 0\<rbrakk> \<Longrightarrow> ids_drawn n' (vs[k := v])"
  using set_update_subset_insert [of vs k v] unfolding ids_drawn_def by fastforce

lemma apart_update:
  assumes "ids_apart vs" "k < length vs" "fst v = 0 \<or> fst v = fst (vs ! k) \<or> fst v \<notin> fst ` set vs"
  shows "ids_apart (vs[k := v])"
  using assms unfolding ids_apart_def by (auto simp: nth_list_update) (metis image_eqI nth_mem)+

lemma owned_update:
  assumes "owned vs own ids" "ids' \<subseteq> ids" "\<And>i b. i \<in> ids' \<Longrightarrow> vs ! k = (i, True, b) \<Longrightarrow> \<exists>b'. v = (i, True, b')"
  shows "owned (vs[k := v]) own ids'"
  unfolding owned_def
proof
  fix i assume i: "i \<in> ids'"
  hence "i \<in> ids" using assms(2) by blast
  with assms(1) obtain j b where j: "own i = Some j" "j < length vs" "vs ! j = (i, True, b)" by (auto simp: owned_def)
  show "\<exists>j b. own i = Some j \<and> j < length (vs[k := v]) \<and> vs[k := v] ! j = (i, True, b)"
    using j assms(3) [OF i] by (cases "j = k") auto
qed

lemma claimed_update:
  assumes "claimed vs ids" "ids_apart vs" "ids_drawn n vs" "k < length vs"
    and "\<And>i. v = (i, True, True) \<Longrightarrow> i \<in> ids'" "\<And>i. i \<in> ids \<Longrightarrow> i \<noteq> fst (vs ! k) \<Longrightarrow> i \<in> ids'"
  shows "claimed (vs[k := v]) ids'"
  unfolding claimed_def
proof (intro allI impI)
  fix i assume "(i, True, True) \<in> set (vs[k := v])"
  then obtain j where j: "j < length vs" "vs[k := v] ! j = (i, True, True)" by (auto simp: in_set_conv_nth)
  show "i \<in> ids'"
  proof (cases "j = k")
    case True
    thus ?thesis using j assms(5) by simp
  next
    case False
    hence at: "vs ! j = (i, True, True)" using j by simp
    hence "(i, True, True) \<in> set vs" using j(1) nth_mem by metis
    hence "i \<in> ids" "i \<noteq> 0" using assms(1,3) by (auto simp: claimed_def ids_drawn_def)
    moreover have "i \<noteq> fst (vs ! k)" using assms(2,4) at j(1) False \<open>i \<noteq> 0\<close> by (force simp: ids_apart_def)
    ultimately show ?thesis using assms(6) by blast
  qed
qed

lemma pause_okD:
  assumes "pause_ok n t es (i, w, b) (i', w', b')"
  shows "b' \<Longrightarrow> b" "RemoveById j \<in> set es \<Longrightarrow> j = i' \<and> j \<noteq> 0 \<and> \<not> b'"
    "t \<Longrightarrow> i' = n \<and> \<not> w" "\<not> t \<Longrightarrow> i' = i \<or> \<not> w \<and> i' = 0"
    "filter is_request es = [] \<Longrightarrow> w' = w" "\<lbrakk>filter is_request es = []; w; b; \<not> b'; i \<noteq> 0\<rbrakk> \<Longrightarrow> RemoveById i \<in> set es"
    "filter is_request es \<noteq> [] \<Longrightarrow> t \<and> w' \<and> b' = b \<and> (\<exists>h p r. es = [InterceptRequest n h p r])"
  using assms unfolding pause_ok_def by (simp_all split: if_splits)

lemma drawn_fresh: "ids_drawn n vs \<Longrightarrow> int n + 1 \<notin> fst ` set vs"
  by (fastforce simp: ids_drawn_def)

lemma owned_ids: "owned vs own ids \<Longrightarrow> i \<in> ids \<Longrightarrow> i \<in> fst ` set vs"
  unfolding owned_def by (metis fst_conv image_eqI nth_mem)

lemma owned_nonzero: "owned vs own ids \<Longrightarrow> ids_drawn n vs \<Longrightarrow> i \<in> ids \<Longrightarrow> i \<noteq> 0"
proof -
  assume "owned vs own ids" "ids_drawn n vs" "i \<in> ids"
  then obtain k b where "k < length vs" "vs ! k = (i, True, b)" by (auto simp: owned_def)
  hence "(i, True, b) \<in> set vs" using nth_mem by metis
  with \<open>ids_drawn n vs\<close> show ?thesis by (auto simp: ids_drawn_def)
qed

text \<open>A completion, and a decision, of connection \<open>k\<close>.\<close>

definition queue_after :: "session_effect list \<Rightarrow> int list \<Rightarrow> int list" where
  "queue_after es qs = filter (\<lambda>i. RemoveById i \<notin> set es) qs @ concat (map (\<lambda>e. case e of InterceptRequest i h p r \<Rightarrow> [i] | _ \<Rightarrow> []) es)"

lemma queue_after_quiet: "filter is_request es = [] \<Longrightarrow> queue_after es qs = filter (\<lambda>i. RemoveById i \<notin> set es) qs"
  unfolding queue_after_def by (induction es) (auto split: session_effect.split if_splits)

lemma io_facts:
  assumes inv: "claims_inv n vs own (qs @ ps)" and k: "k < length vs" "vs ! k = (i, w, b)"
    and ok: "pause_ok (int n + 1) t es (vs ! k) (i', w', b')"
  shows "0 \<le> i" "i \<le> int n" "w \<Longrightarrow> i \<noteq> 0" "int n + 1 \<notin> set (qs @ ps)" "ids_apart (vs[k := (i', w', b')])"
proof -
  have parts: "ids_drawn n vs" "ids_apart vs" "owned vs own (set (qs @ ps))" using inv by (simp_all add: claims_inv_def)
  show "0 \<le> i" "i \<le> int n" "w \<Longrightarrow> i \<noteq> 0" using parts(1) k nth_mem [OF k(1)] by (auto simp: ids_drawn_def)
  have fresh: "int n + 1 \<notin> fst ` set vs" using drawn_fresh [OF parts(1)] .
  thus "int n + 1 \<notin> set (qs @ ps)" using owned_ids [OF parts(3)] by blast
  have ids: "i' = 0 \<or> i' = i \<or> i' = int n + 1" using pause_okD(3,4) [OF ok [unfolded k(2)]] by blast
  show "ids_apart (vs[k := (i', w', b')])"
  proof (rule apart_update [OF parts(2) k(1)])
    show "fst (i', w', b') = 0 \<or> fst (i', w', b') = fst (vs ! k) \<or> fst (i', w', b') \<notin> fst ` set vs"
      using ids fresh k(2) by (metis fst_conv)
  qed
qed

lemma claims_io_quiet:
  assumes inv: "claims_inv n vs own (qs @ ps)" and k: "k < length vs" and ok: "pause_ok (int n + 1) t es (vs ! k) v"
    and none: "filter is_request es = []"
  shows "claims_inv (if t then n + 1 else n) (vs[k := v]) own (queue_after es qs @ ps)"
proof -
  obtain i w b i' w' b' where old: "vs ! k = (i, w, b)" and new: "v = (i', w', b')" by (metis surj_pair)
  have parts: "ids_drawn n vs" "ids_apart vs" "distinct (qs @ ps)" "owned vs own (set (qs @ ps))" "claimed vs (set (qs @ ps))"
    using inv by (simp_all add: claims_inv_def)
  note facts = io_facts [OF inv k old ok [unfolded new]] and ok' = pause_okD [OF ok [unfolded old new]]
  have same: "w' = w" "w \<Longrightarrow> i' = i" "i' = (if t then int n + 1 else i) \<or> \<not> w \<and> i' = 0" using ok'(3-5) none by auto
  let ?qs = "filter (\<lambda>j. RemoveById j \<notin> set es) qs"
  have "ids_drawn (if t then n + 1 else n) (vs[k := v])"
    using facts(1-3) new same ok'(3) by (intro drawn_update [OF parts(1)]) (auto split: if_splits)
  moreover have "distinct (?qs @ ps)" using parts(3) by auto
  moreover have "owned (vs[k := v]) own (set (?qs @ ps))"
    using old new same by (intro owned_update [OF parts(4)]) auto
  moreover have "claimed (vs[k := v]) (set (?qs @ ps))"
  proof (rule claimed_update [OF parts(5,2,1) k])
    fix j assume "v = (j, True, True)"
    hence open': "j = i" "w" "b'" "b" using new same ok'(1) by auto
    hence "(j, True, True) \<in> set vs" using old nth_mem [OF k] by simp
    hence "j \<in> set (qs @ ps)" using parts(5) by (simp add: claimed_def)
    thus "j \<in> set (?qs @ ps)" using ok'(2) open' by auto
  next
    fix j assume j: "j \<in> set (qs @ ps)" "j \<noteq> fst (vs ! k)"
    have "j \<noteq> 0" "j \<noteq> int n + 1" using owned_nonzero [OF parts(4,1) j(1)] facts(4) j(1) by blast+
    hence "RemoveById j \<notin> set es" using ok'(2) [of j] ok'(3,4) j(2) old by auto
    thus "j \<in> set (?qs @ ps)" using j(1) by auto
  qed
  ultimately show ?thesis using facts(5) new by (simp add: claims_inv_def queue_after_quiet [OF none])
qed

lemma claims_io_request:
  assumes inv: "claims_inv n vs own (qs @ ps)" and k: "k < length vs" and ok: "pause_ok (int n + 1) t es (vs ! k) v"
    and some: "filter is_request es \<noteq> []"
  shows "claims_inv (n + 1) (vs[k := v]) (own(int n + 1 \<mapsto> k)) (queue_after es qs @ ps)"
proof -
  obtain i w b i' w' b' where old: "vs ! k = (i, w, b)" and new: "v = (i', w', b')" by (metis surj_pair)
  have parts: "ids_drawn n vs" "ids_apart vs" "distinct (qs @ ps)" "owned vs own (set (qs @ ps))" "claimed vs (set (qs @ ps))"
    using inv by (simp_all add: claims_inv_def)
  note facts = io_facts [OF inv k old ok [unfolded new]] and ok' = pause_okD [OF ok [unfolded old new]]
  obtain h p r where took: "t" "w'" "es = [InterceptRequest (int n + 1) h p r]" "i' = int n + 1" "\<not> w"
    using ok'(3,7) some by blast
  have "ids_drawn (n + 1) (vs[k := v])" using took new by (intro drawn_update [OF parts(1)]) auto
  moreover have "distinct (qs @ [int n + 1] @ ps)" using parts(3) facts(4) by auto
  moreover have "owned (vs[k := v]) own (set (qs @ ps))" using took old by (intro owned_update [OF parts(4)]) auto
  hence "owned (vs[k := v]) (own(int n + 1 \<mapsto> k)) (set (qs @ [int n + 1] @ ps))"
    using k new took facts(4) by (auto simp: owned_def)
  moreover have "claimed (vs[k := v]) (set (qs @ [int n + 1] @ ps))"
    using new took by (intro claimed_update [OF parts(5,2,1) k]) auto
  ultimately show ?thesis using facts(5) new took by (simp add: claims_inv_def queue_after_def)
qed

lemma claims_decide:
  assumes inv: "claims_inv n vs own (qs @ ps)" and k: "k < length vs" and at: "vs ! k = (i, True, b)" "i \<in> set ps"
  shows "claims_inv n (vs[k := (i, False, b)]) own (qs @ remove1 i ps)"
proof -
  have parts: "ids_drawn n vs" "ids_apart vs" "distinct (qs @ ps)" "owned vs own (set (qs @ ps))" "claimed vs (set (qs @ ps))"
    using inv by (simp_all add: claims_inv_def)
  hence rest: "set (qs @ remove1 i ps) = set (qs @ ps) - {i}" "distinct (qs @ remove1 i ps)"
    using at(2) by (auto simp: set_remove1_eq)
  have range: "0 \<le> i" "i \<le> int n" using parts(1) at nth_mem [OF k] by (auto simp: ids_drawn_def)
  have "ids_drawn n (vs[k := (i, False, b)])" using range by (intro drawn_update [OF parts(1)]) simp_all
  moreover have "ids_apart (vs[k := (i, False, b)])" using at(1) by (intro apart_update [OF parts(2) k]) simp
  moreover have "owned (vs[k := (i, False, b)]) own (set (qs @ ps) - {i})"
    using at(1) by (intro owned_update [OF parts(4)]) auto
  moreover have "claimed (vs[k := (i, False, b)]) (set (qs @ ps) - {i})"
    using at(1) by (intro claimed_update [OF parts(5,2,1) k]) auto
  ultimately show ?thesis using rest by (simp only: claims_inv_def)
qed

text \<open>A request in the manager's queue is never that of a TLS connection that has closed.\<close>

definition tls_open :: "(int \<times> bool \<times> bool) list \<Rightarrow> bool list \<Rightarrow> int list \<Rightarrow> bool" where
  "tls_open vs tls qs \<longleftrightarrow> (\<forall>k < length vs. tls ! k \<and> fst (vs ! k) \<in> set qs \<longrightarrow> snd (snd (vs ! k)))"

lemma tls_open_subset: "tls_open vs tls qs \<Longrightarrow> set qs' \<subseteq> set qs \<Longrightarrow> tls_open vs tls qs'"
  by (auto simp: tls_open_def)

lemma tls_open_decide:
  assumes "tls_open vs tls qs" "vs ! k = (i, w, b)"
  shows "tls_open (vs[k := (i, w', b)]) tls qs"
  unfolding tls_open_def
proof (intro allI impI)
  fix j assume "j < length (vs[k := (i, w', b)])" "tls ! j \<and> fst (vs[k := (i, w', b)] ! j) \<in> set qs"
  with assms show "snd (snd (vs[k := (i, w', b)] ! j))" unfolding tls_open_def by (cases "j = k") auto
qed

lemma tls_open_new: "tls_open vs tls qs \<Longrightarrow> length tls = length vs \<Longrightarrow> 0 \<notin> set qs \<Longrightarrow> tls_open (vs @ [(0, w, b)]) (tls @ [h]) qs"
  unfolding tls_open_def by (auto simp: nth_append less_Suc_eq)

lemma queue_after_mem:
  assumes ok: "pause_ok (int n + 1) t es (i, w, b) (i', w', b')" and x: "x \<in> set (queue_after es qs)"
  shows "x \<in> set qs \<and> RemoveById x \<notin> set es \<and> filter is_request es = [] \<or> b' = b \<and> (x \<in> set qs \<or> t \<and> x = int n + 1)"
proof (cases "filter is_request es = []")
  case True
  thus ?thesis using x by (simp add: queue_after_quiet)
next
  case False
  with pause_okD(7) [OF ok] obtain h p r where "t" "b' = b" "es = [InterceptRequest (int n + 1) h p r]" by blast
  thus ?thesis using x by (auto simp: queue_after_def)
qed

text \<open>An identifier that is queued belongs to no other connection.\<close>

lemma queued_waits:
  assumes inv: "claims_inv n vs own (qs @ ps)" and k: "k < length vs" "vs ! k = (i, w, b)" and q: "i \<in> set qs"
  shows "w"
proof -
  have parts: "ids_drawn n vs" "ids_apart vs" "owned vs own (set (qs @ ps))" using inv by (simp_all add: claims_inv_def)
  have nz: "i \<noteq> 0" using q owned_nonzero [OF parts(3,1)] by auto
  obtain l c where l: "l < length vs" "vs ! l = (i, True, c)"
    using bspec [OF parts(3) [unfolded owned_def], of i] q by auto
  have "l = k"
  proof (rule ccontr)
    assume "l \<noteq> k"
    with parts(2) k(1) l(1) have "fst (vs ! l) = fst (vs ! k) \<longrightarrow> fst (vs ! k) = 0" unfolding ids_apart_def by blast
    thus False using l(2) k(2) nz by simp
  qed
  thus ?thesis using l(2) k(2) by simp
qed

lemma tls_io_self:
  assumes inv: "claims_inv n vs own (qs @ ps)" and tls: "tls_open vs tls qs" "tls ! k"
    and k: "k < length vs" "vs ! k = (i, w, b)" and ok: "pause_ok (int n + 1) t es (vs ! k) (i', w', b')"
    and op: "t \<Longrightarrow> b" and i': "i' \<in> set (queue_after es qs)"
  shows "b'"
proof -
  have parts: "ids_drawn n vs" "owned vs own (set (qs @ ps))" using inv by (simp_all add: claims_inv_def)
  note ok' = pause_okD [OF ok [unfolded k(2)]] and after = queue_after_mem [OF ok [unfolded k(2)] i']
  show ?thesis
  proof (cases t)
    case True
    have "int n + 1 \<notin> set qs" using drawn_fresh [OF parts(1)] owned_ids [OF parts(2)] by auto
    moreover have "i' = int n + 1" "b" using ok'(3) op True by auto
    ultimately show ?thesis using after by auto
  next
    case False
    hence q: "i' \<in> set qs" using after by auto
    hence "i' \<noteq> 0" using owned_nonzero [OF parts(2,1)] by auto
    hence same: "i' = i" "i \<noteq> 0" using ok'(4) [OF False] by auto
    have "w" using queued_waits [OF inv k] q same by simp
    moreover have "b" using tls k q same by (auto simp: tls_open_def)
    ultimately show ?thesis using ok'(6) same after by blast
  qed
qed

lemma tls_io:
  assumes inv: "claims_inv n vs own (qs @ ps)" and tls: "tls_open vs tls qs"
    and k: "k < length vs" and ok: "pause_ok (int n + 1) t es (vs ! k) v" and op: "t \<Longrightarrow> tls ! k \<Longrightarrow> snd (snd (vs ! k))"
  shows "tls_open (vs[k := v]) tls (queue_after es qs)"
  unfolding tls_open_def
proof (intro allI impI)
  fix j assume "j < length (vs[k := v])" and at: "tls ! j \<and> fst (vs[k := v] ! j) \<in> set (queue_after es qs)"
  hence j: "j < length vs" by simp
  obtain i w b where old: "vs ! k = (i, w, b)" by (cases "vs ! k")
  obtain i' w' b' where new: "v = (i', w', b')" by (cases v)
  show "snd (snd (vs[k := v] ! j))"
  proof (cases "j = k")
    case False
    hence q: "fst (vs ! j) \<in> set (queue_after es qs)" "fst (vs ! j) \<in> fst ` set vs" using at j by simp_all
    have "int n + 1 \<notin> fst ` set vs" using drawn_fresh [of n vs] inv by (simp add: claims_inv_def)
    hence "fst (vs ! j) \<in> set qs" using queue_after_mem [OF ok [unfolded old new] q(1)] q(2) by metis
    thus ?thesis using tls at False j by (simp add: tls_open_def)
  next
    case True
    thus ?thesis using tls_io_self [OF inv tls _ k old ok [unfolded new]] op at k new old by simp
  qed
qed

section \<open>The invariant of the network\<close>

definition queue_ids :: "'p network \<Rightarrow> int list" where
  "queue_ids s = map it_id (im_queue (nw_manager s))"

definition posted_ids :: "'p network \<Rightarrow> int list" where
  "posted_ids s = map (\<lambda>x. it_id (fst x)) (nw_posted s)"

definition views :: "'p network \<Rightarrow> (int \<times> bool \<times> bool) list" where
  "views s = map conn_view (nw_conns s)"

definition network_inv :: "'p llhttp \<Rightarrow> 'p network \<Rightarrow> bool" where
  "network_inv ll s \<longleftrightarrow>
     nw_nextId s = word_of_int (int (nw_taken s) + 1) \<and>
     (\<forall>c \<in> set (nw_conns s). conn_reachable ll c) \<and>
     claims_inv (nw_taken s) (views s) (nw_owner s) (queue_ids s @ posted_ids s) \<and>
     tls_open (views s) (map conn_isHttps (nw_conns s)) (queue_ids s)"

lemma nextId_drawn: "nw_nextId s = word_of_int (int (nw_taken s) + 1) \<Longrightarrow> nw_taken s + 1 < 2 ^ 31 \<Longrightarrow> sint (nw_nextId s) = int (nw_taken s) + 1"
  by (simp only: sint_sbintrunc' One_nat_def) (simp add: signed_take_bit_int_eq_self)

lemma network_inv_init: "network_inv ll Network"
  by (simp add: network_inv_def Network_def views_def queue_ids_def posted_ids_def InterceptManager_def claims_empty tls_open_def)

lemma start_views:
  "session_view (session_start (Session ll c)) = (0, False, True)"
  "mitm_view (mitm_start (MitmSession ll h p)) = (0, False, True)"
  by (simp_all add: session_view_def session_waits_def session_start_def start_defs async_start_def Session_def
      HttpTransaction_def main_ops_def mitm_view_def mitm_waits_def mitm_start_def mitm_connectUpstream_def mitm_resetTimer_def
      mitm_async_def MitmSession_def mitm_mains_def)

lemma inv_new_conn:
  assumes "network_inv ll s" "conn_reachable ll c" "conn_view c = (0, False, True)"
  shows "network_inv ll (s\<lparr>nw_conns := nw_conns s @ [c]\<rparr>)"
proof -
  have "claims_inv (nw_taken s) (views s) (nw_owner s) (queue_ids s @ posted_ids s)" using assms(1) by (simp add: network_inv_def)
  moreover from this have "0 \<notin> set (queue_ids s)"
    using owned_nonzero [of "views s" "nw_owner s"] by (force simp: claims_inv_def)
  ultimately show ?thesis
    using assms claims_new [where b = True] tls_open_new [where w = False and b = True]
    by (auto simp: network_inv_def views_def queue_ids_def posted_ids_def)
qed

lemma inv_accept: "network_inv ll s \<Longrightarrow> network_inv ll (net_accept ll s)"
  unfolding net_accept_def by (rule inv_new_conn) (simp_all add: start_views session_reachable.start)

text \<open>What carrying out effects changes: the requests of one completion are none, or one and nothing else.\<close>

lemma deliver_quiet:
  "filter is_request es = [] \<Longrightarrow> \<exists>s'. deliver ll k es s = s' \<and> nw_posted s' = nw_posted s \<and> nw_owner s' = nw_owner s
     \<and> nw_nextId s' = nw_nextId s \<and> nw_taken s' = nw_taken s \<and> queue_ids s' = filter (\<lambda>i. RemoveById i \<notin> set es) (queue_ids s)
     \<and> (\<exists>hps. nw_conns s' = nw_conns s @ map (\<lambda>(h, p). Tls (mitm_start (MitmSession ll h p))) hps)"
proof (induction es arbitrary: s)
  case Nil
  show ?case by (auto simp: deliver_def intro: exI [of _ "[]"])
next
  case (Cons e es)
  have "filter (\<lambda>item. it_id item \<noteq> i) xs = filter (\<lambda>item. i \<noteq> it_id item) xs" for i xs
    by (metis (lifting))
  hence removed: "map it_id (im_queue (snd (removeById i m))) = filter (\<lambda>j. j \<noteq> i) (map it_id (im_queue m))" for i m
    by (simp add: removeById_queue filter_map comp_def)
  have more: "deliver ll k (e # es) s = deliver ll k es (deliver1 ll k e s)" by (simp add: deliver_def)
  from Cons.prems have quiet: "filter is_request es = []" "\<not> is_request e" by (auto split: if_splits)
  have tail: "\<exists>hps. Tls (mitm_start (MitmSession ll h p)) # map (\<lambda>(h, p). Tls (mitm_start (MitmSession ll h p))) zs
      = map (\<lambda>(h, p). Tls (mitm_start (MitmSession ll h p))) hps" for h p zs
    by (intro exI [of _ "(h, p) # zs"]) simp
  show ?case
    unfolding more using Cons.IH [OF quiet(1), of "deliver1 ll k e s"] quiet(2)
    by (cases e) (auto simp: queue_ids_def removed conj_commute intro: tail)
qed

lemma deliver_request:
  "\<exists>s'. deliver ll k [InterceptRequest i h p r] s = s' \<and> nw_posted s' = nw_posted s \<and> nw_owner s' = (nw_owner s)(i \<mapsto> k)
     \<and> nw_nextId s' = nw_nextId s \<and> nw_taken s' = nw_taken s \<and> queue_ids s' = queue_ids s @ [i] \<and> nw_conns s' = nw_conns s"
  by (simp add: deliver_def queue_ids_def interceptRequest_def Let_def)

lemma inv_new_conns:
  "network_inv ll s \<Longrightarrow> list_all (\<lambda>c. conn_reachable ll c \<and> conn_view c = (0, False, True)) cs
   \<Longrightarrow> network_inv ll (s\<lparr>nw_conns := nw_conns s @ cs\<rparr>)"
proof (induction cs arbitrary: s)
  case (Cons c cs)
  from Cons.IH [OF inv_new_conn [OF Cons.prems(1)]] Cons.prems(2) show ?case by simp
qed simp

lemma network_inv_cong:
  assumes "network_inv ll s" "nw_posted s' = nw_posted s" "nw_owner s' = nw_owner s" "nw_nextId s' = nw_nextId s"
    and "nw_taken s' = nw_taken s" "queue_ids s' = queue_ids s" "nw_conns s' = nw_conns s"
  shows "network_inv ll s'"
  using assms by (simp add: network_inv_def views_def posted_ids_def)

text \<open>A completion: what is carried out for it, then the connection and the counter.\<close>

lemma inv_deliver:
  assumes "nw_nextId s = word_of_int (int (nw_taken s) + 1)" "\<forall>x \<in> set (nw_conns s). conn_reachable ll x"
    and shape: "filter is_request es = [] \<or> es = [InterceptRequest i h p r]"
    and "claims_inv (nw_taken s) (views s) (if filter is_request es = [] then nw_owner s else (nw_owner s)(i \<mapsto> k))
      (queue_after es (queue_ids s) @ posted_ids s)"
    and "tls_open (views s) (map conn_isHttps (nw_conns s)) (queue_after es (queue_ids s))"
  shows "network_inv ll (deliver ll k es s)"
proof (cases "filter is_request es = []")
  case True
  obtain s' hps where s': "deliver ll k es s = s'" "nw_posted s' = nw_posted s" "nw_owner s' = nw_owner s" "nw_nextId s' = nw_nextId s"
      "nw_taken s' = nw_taken s" "queue_ids s' = filter (\<lambda>i. RemoveById i \<notin> set es) (queue_ids s)"
      "nw_conns s' = nw_conns s @ map (\<lambda>(h, p). Tls (mitm_start (MitmSession ll h p))) hps"
    using deliver_quiet [OF True, of ll k s] by blast
  let ?m = "s'\<lparr>nw_conns := nw_conns s\<rparr>"
  have "views ?m = views s" "posted_ids ?m = posted_ids s" "queue_ids ?m = queue_after es (queue_ids s)"
    using s' True by (simp_all add: views_def posted_ids_def queue_ids_def queue_after_quiet)
  hence "network_inv ll ?m" using assms True s' by (simp add: network_inv_def)
  moreover have "list_all (\<lambda>c. conn_reachable ll c \<and> conn_view c = (0, False, True)) (map (\<lambda>(h, p). Tls (mitm_start (MitmSession ll h p))) hps)"
    by (auto simp: list_all_iff start_views intro!: exI mitm_reachable.start)
  ultimately have "network_inv ll (?m\<lparr>nw_conns := nw_conns ?m @ map (\<lambda>(h, p). Tls (mitm_start (MitmSession ll h p))) hps\<rparr>)"
    by (rule inv_new_conns)
  thus ?thesis unfolding s'(1) by (rule network_inv_cong) (simp_all add: queue_ids_def s')
next
  case False
  hence es: "es = [InterceptRequest i h p r]" using shape by blast
  then obtain s' where s': "deliver ll k es s = s'" "nw_posted s' = nw_posted s" "nw_owner s' = (nw_owner s)(i \<mapsto> k)"
      "nw_nextId s' = nw_nextId s" "nw_taken s' = nw_taken s" "queue_ids s' = queue_ids s @ [i]" "nw_conns s' = nw_conns s"
    using deliver_request [of ll k i h p r s] by blast
  have "views s' = views s" "posted_ids s' = posted_ids s" "queue_ids s' = queue_after es (queue_ids s)"
    using s' es by (simp_all add: views_def posted_ids_def queue_after_def)
  thus ?thesis unfolding s'(1) using assms False s' by (simp add: network_inv_def)
qed

lemma deliver_taken: "nw_taken (deliver ll k es s) = nw_taken s"
  unfolding deliver_def
proof (induction es arbitrary: s)
  case (Cons e es)
  show ?case using Cons [of "deliver1 ll k e s"] by (cases e) simp_all
qed simp

lemma inv_io:
  assumes inv: "network_inv ll s" and k: "k < length (nw_conns s)"
    and move: "conn_moves ll (sint (nw_nextId s)) t (nw_conns s ! k) c" and bound: "nw_taken (net_io ll k t c s) < 2 ^ 31"
  shows "network_inv ll (net_io ll k t c s)"
proof -
  let ?c = "nw_conns s ! k" and ?n = "int (nw_taken s) + 1"
  define es where "es = added (conn_effects ?c) (conn_effects c)"
  let ?s = "(s\<lparr>nw_conns := (nw_conns s)[k := c]\<rparr>)\<lparr>nw_nextId := if t then nw_nextId s + 1 else nw_nextId s,
      nw_taken := if t then nw_taken s + 1 else nw_taken s\<rparr>"
  have run: "net_io ll k t c s = deliver ll k es ?s" by (simp add: net_io_def es_def Let_def)
  have ok: "conn_reachable ll c" "pause_ok (sint (nw_nextId s)) t es (conn_view ?c) (conn_view c)"
    using inv k conn.step_contract [OF _ move] conn.step_added [OF _ move] by (auto simp: network_inv_def es_def)
  have "sint (nw_nextId s) = ?n" if t
    using inv bound that unfolding run by (intro nextId_drawn) (simp_all add: network_inv_def deliver_taken)
  hence pause: "pause_ok ?n t es (views s ! k) (conn_view c)"
    using ok(2) k by (cases t) (auto simp: views_def pause_ok_def split: if_splits prod.splits)
  have claims: "claims_inv (nw_taken s) (views s) (nw_owner s) (queue_ids s @ posted_ids s)"
    and tls: "tls_open (views s) (map conn_isHttps (nw_conns s)) (queue_ids s)" and kv: "k < length (views s)"
    using inv k by (simp_all add: network_inv_def views_def)
  have taking: "snd (snd (views s ! k))" if t "map conn_isHttps (nw_conns s) ! k"
    using tls_takes_open [of ll _ ?c c] move that k by (simp add: views_def)
  have moved: "views ?s = (views s)[k := conn_view c]" "map conn_isHttps (nw_conns ?s) = map conn_isHttps (nw_conns s)"
    "queue_ids ?s = queue_ids s" "posted_ids ?s = posted_ids s"
    using conn_isHttps_moves [OF move] k
    by (simp_all add: views_def map_update list_update_same_conv queue_ids_def posted_ids_def)
  obtain h p r where shape: "filter is_request es = [] \<or> t \<and> es = [InterceptRequest ?n h p r]"
    using pause pause_okD(7) by (metis surj_pair)
  show ?thesis unfolding run
  proof (rule inv_deliver)
    show "nw_nextId ?s = word_of_int (int (nw_taken ?s) + 1)" "\<forall>x \<in> set (nw_conns ?s). conn_reachable ll x"
      using inv ok(1) set_update_subset_insert [of "nw_conns s" k c] by (auto simp: network_inv_def)
    show "filter is_request es = [] \<or> es = [InterceptRequest ?n h p r]" using shape by blast
    show "claims_inv (nw_taken ?s) (views ?s) (if filter is_request es = [] then nw_owner ?s else (nw_owner ?s)(?n \<mapsto> k))
        (queue_after es (queue_ids ?s) @ posted_ids ?s)"
      unfolding moved using claims_io_quiet [OF claims kv pause] claims_io_request [OF claims kv pause] shape by auto
    show "tls_open (views ?s) (map conn_isHttps (nw_conns ?s)) (queue_after es (queue_ids ?s))"
      unfolding moved using tls_io [OF claims tls kv pause taking] .
  qed
qed

text \<open>The decision of a posted request reaches the connection that waits for it.\<close>

lemma map_remove1_distinct: "distinct (map f xs) \<Longrightarrow> x \<in> set xs \<Longrightarrow> map f (remove1 x xs) = remove1 (f x) (map f xs)"
proof (induction xs)
  case (Cons y ys)
  show ?case
  proof (cases "x = y")
    case False
    hence "x \<in> set ys" using Cons.prems by simp
    hence "f x \<noteq> f y" using Cons.prems(1) by (metis distinct.simps(2) image_eqI list.simps(9) set_map)
    thus ?thesis using Cons False by simp
  qed simp
qed simp

lemma posted_owner:
  assumes "network_inv ll s" "x \<in> set (nw_posted s)"
  obtains k b where "nw_owner s (it_id (fst x)) = Some k" "k < length (nw_conns s)" "conn_view (nw_conns s ! k) = (it_id (fst x), True, b)"
proof -
  have "it_id (fst x) \<in> set (queue_ids s @ posted_ids s)" using assms(2) by (auto simp: posted_ids_def)
  with assms(1) show ?thesis using that by (fastforce simp: network_inv_def claims_inv_def owned_def views_def)
qed

lemma reports_quiet: "list_all is_report es \<Longrightarrow> filter (\<lambda>i. RemoveById i \<notin> set es) qs = qs"
  using reports_only(2) by fastforce

lemma deliver_reports:
  "list_all is_report es \<Longrightarrow> \<exists>q. deliver ll k es s = s\<lparr>nw_queue := q\<rparr>"
proof (induction es arbitrary: s)
  case Nil
  show ?case by (auto simp: deliver_def intro: exI [of _ "nw_queue s"])
next
  case (Cons e es)
  have "\<exists>q. deliver1 ll k e s = s\<lparr>nw_queue := q\<rparr>" using Cons.prems by (cases e) auto
  moreover have "deliver ll k (e # es) s = deliver ll k es (deliver1 ll k e s)" by (simp add: deliver_def)
  ultimately show ?case using Cons.IH [of "deliver1 ll k e s"] Cons.prems by auto
qed

lemma net_decide_result:
  assumes inv: "network_inv ll s" and x: "x \<in> set (nw_posted s)"
  obtains k b q where "nw_owner s (it_id (fst x)) = Some k" "k < length (nw_conns s)"
    "conn_view (nw_conns s ! k) = (it_id (fst x), True, b)"
    "conn_view (conn_decide (snd x) (it_request (fst x)) (nw_conns s ! k)) = (it_id (fst x), False, b)"
    "net_decide ll x s = s\<lparr>nw_posted := remove1 x (nw_posted s),
       nw_conns := (nw_conns s)[k := conn_decide (snd x) (it_request (fst x)) (nw_conns s ! k)], nw_queue := q\<rparr>"
proof -
  obtain k b where k: "nw_owner s (it_id (fst x)) = Some k" "k < length (nw_conns s)" "conn_view (nw_conns s ! k) = (it_id (fst x), True, b)"
    using posted_owner [OF inv x] .
  let ?c = "nw_conns s ! k"
  have "conn_reachable ll ?c" using inv k(2) by (simp add: network_inv_def)
  from conn.decide_added [OF this k(3)]
  have d: "list_all is_report (added (conn_effects ?c) (conn_effects (conn_decide (snd x) (it_request (fst x)) ?c)))"
    "conn_view (conn_decide (snd x) (it_request (fst x)) ?c) = (it_id (fst x), False, b)" by blast+
  from deliver_reports [OF d(1), of ll k "s\<lparr>nw_posted := remove1 x (nw_posted s), nw_conns := (nw_conns s)[k := conn_decide (snd x) (it_request (fst x)) ?c]\<rparr>"]
  obtain q where "net_decide ll x s = s\<lparr>nw_posted := remove1 x (nw_posted s),
       nw_conns := (nw_conns s)[k := conn_decide (snd x) (it_request (fst x)) ?c], nw_queue := q\<rparr>"
    using k(1) by (auto simp: net_decide_def net_io_def)
  with k d(2) show ?thesis by (rule that)
qed

lemma inv_decide:
  assumes inv: "network_inv ll s" and x: "x \<in> set (nw_posted s)"
  shows "network_inv ll (net_decide ll x s)"
proof -
  from net_decide_result [OF inv x] obtain k b q where k: "k < length (nw_conns s)"
    "conn_view (nw_conns s ! k) = (it_id (fst x), True, b)"
    "conn_view (conn_decide (snd x) (it_request (fst x)) (nw_conns s ! k)) = (it_id (fst x), False, b)"
    "net_decide ll x s = s\<lparr>nw_posted := remove1 x (nw_posted s),
       nw_conns := (nw_conns s)[k := conn_decide (snd x) (it_request (fst x)) (nw_conns s ! k)], nw_queue := q\<rparr>" by metis
  let ?c' = "conn_decide (snd x) (it_request (fst x)) (nw_conns s ! k)"
  have parts: "claims_inv (nw_taken s) (views s) (nw_owner s) (queue_ids s @ posted_ids s)"
    "tls_open (views s) (map conn_isHttps (nw_conns s)) (queue_ids s)" "conn_reachable ll (nw_conns s ! k)"
    using inv k by (simp_all add: network_inv_def)
  have vk: "k < length (views s)" "views s ! k = (it_id (fst x), True, b)" using k by (simp_all add: views_def)
  have mine: "it_id (fst x) \<in> set (posted_ids s)" using x by (auto simp: posted_ids_def)
  have "distinct (map (\<lambda>x. it_id (fst x)) (nw_posted s))" using parts(1) by (simp add: claims_inv_def posted_ids_def)
  hence rest: "map (\<lambda>x. it_id (fst x)) (remove1 x (nw_posted s)) = remove1 (it_id (fst x)) (posted_ids s)"
    using map_remove1_distinct [OF _ x] by (simp add: posted_ids_def)
  have https: "(map conn_isHttps (nw_conns s))[k := conn_isHttps ?c'] = map conn_isHttps (nw_conns s)"
    using k(1) by (simp add: list_update_same_conv conn_isHttps_decide)
  have "conn_reachable ll ?c'" using conn.decide_contract [OF parts(3) k(2)] by blast
  hence "\<forall>y \<in> set ((nw_conns s)[k := ?c']). conn_reachable ll y"
    using inv set_update_subset_insert [of "nw_conns s" k ?c'] by (auto simp: network_inv_def)
  with inv claims_decide [OF parts(1) vk mine] tls_open_decide [OF parts(2) vk(2), of False] rest https show ?thesis
    unfolding k(4) by (simp add: network_inv_def views_def queue_ids_def posted_ids_def map_update k(3))
qed

text \<open>The user's side moves requests from the queue to the posted decisions, in order.\<close>

lemma posts_decided: "map fst (posts es) = decided es"
  by (induction es rule: posts.induct) simp_all

lemma user_queue: "user_op p \<Longrightarrow> decided (fst (im_step p im)) @ im_queue (snd (im_step p im)) = im_queue im"
  using im_step_queue [of p im] by (cases p) simp_all

lemma inv_user:
  assumes inv: "network_inv ll s" and p: "user_op p"
  shows "network_inv ll (net_user p s)"
proof -
  obtain es im where st: "im_step p (nw_manager s) = (es, im)" by (cases "im_step p (nw_manager s)")
  have q: "queue_ids s = map it_id (decided es) @ map it_id (im_queue im)"
    using user_queue [OF p, of "nw_manager s"] st by (simp add: queue_ids_def flip: map_append)
  have posted: "map (\<lambda>x. it_id (fst x)) (posts es) = map it_id (decided es)"
    by (simp add: posts_decided [symmetric])
  have "claims_inv (nw_taken s) (views s) (nw_owner s) (map it_id (im_queue im) @ posted_ids s @ map it_id (decided es))"
    using inv q by - (rule claims_perm [of _ _ _ "queue_ids s @ posted_ids s"], simp_all add: network_inv_def)
  moreover have "tls_open (views s) (map conn_isHttps (nw_conns s)) (map it_id (im_queue im))"
    using inv q by - (rule tls_open_subset [of _ _ "queue_ids s"], auto simp: network_inv_def)
  ultimately show ?thesis using inv st posted
    by (simp add: network_inv_def net_user_def views_def queue_ids_def posted_ids_def)
qed

lemma inv_edit: "network_inv ll s \<Longrightarrow> network_inv ll (net_edit r s)"
proof -
  have "map it_id (im_queue (replace_current r im)) = map it_id (im_queue im)" for im
    by (simp add: replace_current_def split: list.split)
  moreover assume "network_inv ll s"
  ultimately show ?thesis by - (rule network_inv_cong [of ll s], simp_all add: net_edit_def queue_ids_def)
qed

lemma inv_drain: "network_inv ll s \<Longrightarrow> network_inv ll (snd (net_drain s))"
  by (rule network_inv_cong) (simp_all add: net_drain_def queue_ids_def split_beta)

lemma step_taken: "network_step ll s s' \<Longrightarrow> nw_taken s \<le> nw_taken s'"
  by (induction rule: network_step.induct)
    (auto simp: net_accept_def net_io_def net_decide_def net_user_def net_edit_def net_drain_def deliver_taken split_beta
      Let_def split: option.split)

lemma step_inv: "network_step ll s s' \<Longrightarrow> network_inv ll s \<Longrightarrow> nw_taken s' < 2 ^ 31 \<Longrightarrow> network_inv ll s'"
  by (induction rule: network_step.induct) (simp_all add: inv_accept inv_io inv_decide inv_user inv_edit inv_drain)

lemma network_reachable_inv: "network_reachable ll s \<Longrightarrow> nw_taken s < 2 ^ 31 \<Longrightarrow> network_inv ll s"
proof (induction rule: network_reachable.induct)
  case init
  show ?case by (rule network_inv_init)
next
  case (step s s')
  hence "nw_taken s < 2 ^ 31" using step_taken [OF step.hyps(2)] by linarith
  thus ?case using step step_inv by blast
qed

section \<open>Holding requests\<close>

text \<open>While a connection waits for a decision, no operation of it towards the server is outstanding.\<close>

fun held :: "'p conn \<Rightarrow> bool" where
  "held (Plain s) \<longleftrightarrow> main_ops s = [Decision]"
| "held (Tls s) \<longleftrightarrow> mitm_mains s = [MDecision]"

lemma waiting_held: "conn_reachable ll c \<Longrightarrow> conn_view c = (i, True, b) \<Longrightarrow> held c"
proof (cases c)
  case (Plain s)
  assume "conn_reachable ll c" "conn_view c = (i, True, b)"
  hence "tok_inv s" "Decision \<in> set (main_ops s)"
    using Plain tok_inv_reachable by (auto simp: session_view_def session_waits_def)
  thus ?thesis using Plain unfolding tok_inv_def
    by (cases "main_ops s") (auto simp: client_side_def server_side_def split: if_splits)
next
  case (Tls s)
  assume "conn_reachable ll c" "conn_view c = (i, True, b)"
  hence "mitm_inv s" "MDecision \<in> set (mitm_mains s)"
    using Tls mitm_inv_reachable by (auto simp: mitm_view_def mitm_waits_def)
  thus ?thesis using Tls by (cases "mitm_mains s") (auto simp: mitm_inv_def)
qed

lemma deliver_frame: "nw_posted (deliver ll k es s) = nw_posted s \<and> (\<exists>cs. nw_conns (deliver ll k es s) = nw_conns s @ cs)"
proof (induction es arbitrary: s)
  case (Cons e es)
  have "deliver ll k (e # es) s = deliver ll k es (deliver1 ll k e s)" by (simp add: deliver_def)
  moreover have "nw_posted (deliver1 ll k e s) = nw_posted s \<and> (\<exists>cs. nw_conns (deliver1 ll k e s) = nw_conns s @ cs)"
    by (cases e) simp_all
  ultimately show ?case using Cons [of "deliver1 ll k e s"] by auto
qed (simp add: deliver_def)

lemma net_io_frame:
  "nw_posted (net_io ll k t c s) = nw_posted s"
  "j < length (nw_conns s) \<Longrightarrow> nw_conns (net_io ll k t c s) ! j = (if j = k then c else nw_conns s ! j)"
proof -
  let ?s = "(s\<lparr>nw_conns := (nw_conns s)[k := c]\<rparr>)\<lparr>nw_nextId := if t then nw_nextId s + 1 else nw_nextId s,
      nw_taken := if t then nw_taken s + 1 else nw_taken s\<rparr>"
  have run: "net_io ll k t c s = deliver ll k (added (conn_effects (nw_conns s ! k)) (conn_effects c)) ?s"
    by (simp add: net_io_def Let_def)
  show "nw_posted (net_io ll k t c s) = nw_posted s" unfolding run by (simp add: deliver_frame)
  obtain cs where "nw_conns (net_io ll k t c s) = (nw_conns s)[k := c] @ cs"
    using deliver_frame [of ll k "added (conn_effects (nw_conns s ! k)) (conn_effects c)" ?s] unfolding run by auto
  thus "nw_conns (net_io ll k t c s) ! j = (if j = k then c else nw_conns s ! j)" if "j < length (nw_conns s)"
    using that by (simp add: nth_append)
qed

text \<open>No completion of a waiting connection ends its waiting.\<close>

lemma moves_keep_waiting:
  assumes "conn_reachable ll c" "conn_moves ll n t c c'" "conn_view c = (i, True, b)"
  shows "\<exists>b'. conn_view c' = (i, True, b')"
  using conn.step_added [OF assms(1,2)] assms(3) by (cases "conn_view c'") (auto simp: pause_ok_def split: if_splits)

lemma step_keeps_waiting:
  assumes "network_step ll s s'" "network_inv ll s" "k < length (nw_conns s)" "conn_view (nw_conns s ! k) = (i, True, b)"
  shows "(\<exists>b'. conn_view (nw_conns s' ! k) = (i, True, b')) \<or> (\<exists>x \<in> set (nw_posted s). it_id (fst x) = i \<and> s' = net_decide ll x s)"
  using assms(1)
proof cases
  case (io j t c)
  have "conn_reachable ll (nw_conns s ! j)" using assms(2) io(2) by (simp add: network_inv_def)
  thus ?thesis using io net_io_frame(2) [OF assms(3)] assms(4) moves_keep_waiting by fastforce
next
  case (decide x)
  from net_decide_result [OF assms(2) decide(2)] obtain j d q where j: "j < length (nw_conns s)"
    "conn_view (nw_conns s ! j) = (it_id (fst x), True, d)"
    "net_decide ll x s = s\<lparr>nw_posted := remove1 x (nw_posted s),
       nw_conns := (nw_conns s)[j := conn_decide (snd x) (it_request (fst x)) (nw_conns s ! j)], nw_queue := q\<rparr>" by metis
  show ?thesis
  proof (cases "j = k")
    case True
    thus ?thesis using decide j(2) assms(4) by auto
  next
    case False
    thus ?thesis using decide(1) j(3) assms(4) by simp
  qed
qed (use assms in \<open>auto simp: net_accept_def net_user_def net_edit_def net_drain_def nth_append split_beta\<close>)

lemma posts_by_user: "network_step ll s s' \<Longrightarrow> (\<exists>p. user_op p \<and> s' = net_user p s) \<or> set (nw_posted s') \<subseteq> set (nw_posted s)"
  by (induction rule: network_step.induct)
    (auto simp: net_accept_def net_decide_def net_edit_def net_drain_def net_io_frame split_beta
      dest: notin_set_remove1 split: option.split)

text \<open>
  The destructors of both sessions close once more. No callback refers to a session that is destroyed, so
  its id is not in the queue, and withdrawing it does nothing and notifies nobody.
\<close>

lemma destruction_is_silent: "i \<notin> set (queue_ids s) \<Longrightarrow> removeById i (nw_manager s) = ([], nw_manager s)"
proof -
  assume "i \<notin> set (queue_ids s)"
  hence "filter (\<lambda>item. it_id item \<noteq> i) (im_queue (nw_manager s)) = im_queue (nw_manager s)"
    by (auto simp: queue_ids_def filter_id_conv)
  thus ?thesis by (simp add: removeById_def)
qed

section \<open>Properties\<close>

lemma network_steps_trans: "network_steps ll a b \<Longrightarrow> network_steps ll b c \<Longrightarrow> network_steps ll a c"
  by (induction rule: network_steps.induct) (auto intro: network_steps.intros)

lemma network_steps_reachable: "network_steps ll s s' \<Longrightarrow> network_reachable ll s \<Longrightarrow> network_reachable ll s'"
  by (induction rule: network_steps.induct) (auto intro: network_reachable.step)

text \<open>The io thread carries out what was posted: each decision is a step, and ends the waiting of its connection only.\<close>

lemma decide_keeps:
  assumes "network_inv ll s" "x \<in> set (nw_posted s)"
  shows "nw_posted (net_decide ll x s) = remove1 x (nw_posted s)" "nw_manager (net_decide ll x s) = nw_manager s"
    "nw_taken (net_decide ll x s) = nw_taken s"
    "map (\<lambda>v. (fst v, snd (snd v))) (views (net_decide ll x s)) = map (\<lambda>v. (fst v, snd (snd v))) (views s)"
proof -
  from net_decide_result [OF assms] obtain k b q where k: "k < length (nw_conns s)"
    "conn_view (nw_conns s ! k) = (it_id (fst x), True, b)"
    "conn_view (conn_decide (snd x) (it_request (fst x)) (nw_conns s ! k)) = (it_id (fst x), False, b)"
    "net_decide ll x s = s\<lparr>nw_posted := remove1 x (nw_posted s),
       nw_conns := (nw_conns s)[k := conn_decide (snd x) (it_request (fst x)) (nw_conns s ! k)], nw_queue := q\<rparr>" by metis
  thus "nw_posted (net_decide ll x s) = remove1 x (nw_posted s)" "nw_manager (net_decide ll x s) = nw_manager s"
    "nw_taken (net_decide ll x s) = nw_taken s" by simp_all
  show "map (\<lambda>v. (fst v, snd (snd v))) (views (net_decide ll x s)) = map (\<lambda>v. (fst v, snd (snd v))) (views s)"
    using k(1-3) by (simp add: k(4) views_def map_update list_update_same_conv)
qed

lemma posted_run:
  "\<lbrakk>network_inv ll s; nw_posted s = xs; s' = fold (net_decide ll) xs s\<rbrakk> \<Longrightarrow>
     network_steps ll s s' \<and> network_inv ll s' \<and> nw_posted s' = [] \<and> nw_manager s' = nw_manager s
     \<and> nw_taken s' = nw_taken s \<and> map (\<lambda>v. (fst v, snd (snd v))) (views s') = map (\<lambda>v. (fst v, snd (snd v))) (views s)"
proof (induction xs arbitrary: s)
  case Nil
  thus ?case by (simp add: network_steps.none)
next
  case (Cons x xs)
  have x: "x \<in> set (nw_posted s)" using Cons.prems(2) by simp
  note kept = decide_keeps [OF Cons.prems(1) x]
  have "nw_posted (net_decide ll x s) = xs" "s' = fold (net_decide ll) xs (net_decide ll x s)"
    using kept(1) Cons.prems(2,3) by simp_all
  from Cons.IH [OF inv_decide [OF Cons.prems(1) x] this] network_steps.more [OF network_step.decide [OF x]] kept(2-4)
  show ?case by auto
qed

lemmas run_posted_facts = posted_run [OF _ refl run_posted_def]

text \<open>
  C3: Every decision reaches the connection that asked for it. Whatever connections are accepted, whatever their
  completions, the user's operations and edits, and in any order: the requests in the manager's queue and
  the decisions on their way have distinct ids; each is the request of one connection, the one its callback
  captured, which waits under this id; each open connection that waits has its request among them;
  and a request in the queue is never that of a closed TLS connection.
\<close>
theorem network_decisions_routed:
  assumes "network_reachable ll s" "nw_taken s < 2 ^ 31"
  shows "distinct (queue_ids s @ posted_ids s)
    \<and> (\<forall>i \<in> set (queue_ids s @ posted_ids s). \<exists>k b. nw_owner s i = Some k \<and> k < length (nw_conns s)
         \<and> conn_view (nw_conns s ! k) = (i, True, b))
    \<and> (\<forall>k < length (nw_conns s). \<forall>i. conn_view (nw_conns s ! k) = (i, True, True) \<longrightarrow> i \<in> set (queue_ids s @ posted_ids s))
    \<and> (\<forall>k < length (nw_conns s). conn_isHttps (nw_conns s ! k) \<and> fst (conn_view (nw_conns s ! k)) \<in> set (queue_ids s)
         \<longrightarrow> snd (snd (conn_view (nw_conns s ! k))))"
proof -
  have parts: "distinct (queue_ids s @ posted_ids s)" "owned (views s) (nw_owner s) (set (queue_ids s @ posted_ids s))"
    "claimed (views s) (set (queue_ids s @ posted_ids s))" "tls_open (views s) (map conn_isHttps (nw_conns s)) (queue_ids s)"
    using network_reachable_inv [OF assms] by (simp_all add: network_inv_def claims_inv_def)
  from parts(2) have "\<forall>i \<in> set (queue_ids s @ posted_ids s). \<exists>k b. nw_owner s i = Some k \<and> k < length (nw_conns s)
      \<and> conn_view (nw_conns s ! k) = (i, True, b)"
    unfolding owned_def views_def by (metis length_map nth_map)
  moreover from parts(3) have "conn_view (nw_conns s ! k) = (i, True, True) \<longrightarrow> i \<in> set (queue_ids s @ posted_ids s)"
    if "k < length (nw_conns s)" for k i
    unfolding claimed_def views_def using that by (metis length_map nth_map nth_mem)
  moreover from parts(4) have "snd (snd (conn_view (nw_conns s ! k)))"
    if "k < length (nw_conns s)" "conn_isHttps (nw_conns s ! k)" "fst (conn_view (nw_conns s ! k)) \<in> set (queue_ids s)" for k
    using that by (simp add: tls_open_def views_def)
  ultimately show ?thesis using parts(1) by blast
qed

text \<open>
  C4: A request is held until its user decides. In every reachable state, a connection that waits has nothing
  outstanding towards the server; whatever happens next, it goes on waiting for the same id, unless what
  happens is the decision of its own request; and decisions are only ever posted by the user's operations.
\<close>
theorem network_holds_requests:
  assumes "network_reachable ll s" "nw_taken s < 2 ^ 31" "network_step ll s s'"
    and "k < length (nw_conns s)" "conn_view (nw_conns s ! k) = (i, True, b)"
  shows "held (nw_conns s ! k)
    \<and> ((\<exists>b'. conn_view (nw_conns s' ! k) = (i, True, b')) \<or> (\<exists>x \<in> set (nw_posted s). it_id (fst x) = i \<and> s' = net_decide ll x s))
    \<and> ((\<exists>p. user_op p \<and> s' = net_user p s) \<or> set (nw_posted s') \<subseteq> set (nw_posted s))"
proof -
  have inv: "network_inv ll s" using network_reachable_inv [OF assms(1,2)] .
  hence "conn_reachable ll (nw_conns s ! k)" using assms(4) by (simp add: network_inv_def)
  from waiting_held [OF this assms(5)] step_keeps_waiting [OF assms(3) inv assms(4,5)] posts_by_user [OF assms(3)]
  show ?thesis by blast
qed

text \<open>
  Transaction ids name one transaction. As long as fewer than 2^31 requests were taken, no two
  connections have the same id, other than 0, the one of a connection that has not taken a request, and
  the id that the next request draws is above them all, so that withdrawing by id withdraws one's own.
\<close>
theorem network_ids_unique:
  assumes "network_reachable ll s" "nw_taken s + 1 < 2 ^ 31"
  shows "(\<forall>k < length (nw_conns s). \<forall>j < length (nw_conns s). j \<noteq> k \<and> fst (conn_view (nw_conns s ! j)) = fst (conn_view (nw_conns s ! k))
       \<longrightarrow> fst (conn_view (nw_conns s ! k)) = 0)
    \<and> (\<forall>k < length (nw_conns s). 0 \<le> fst (conn_view (nw_conns s ! k)) \<and> fst (conn_view (nw_conns s ! k)) < sint (nw_nextId s))"
proof -
  have inv: "network_inv ll s" using network_reachable_inv [OF assms(1)] assms(2) by simp
  hence parts: "ids_apart (views s)" "ids_drawn (nw_taken s) (views s)" "sint (nw_nextId s) = int (nw_taken s) + 1"
    using nextId_drawn [OF _ assms(2)] by (simp_all add: network_inv_def claims_inv_def)
  from parts(2) have "0 \<le> fst (conn_view (nw_conns s ! k)) \<and> fst (conn_view (nw_conns s ! k)) < sint (nw_nextId s)"
    if "k < length (nw_conns s)" for k
    unfolding parts(3) using that nth_mem [OF that] by (auto simp: ids_drawn_def views_def)
  moreover from parts(1) have "fst (conn_view (nw_conns s ! k)) = 0"
    if "k < length (nw_conns s)" "j < length (nw_conns s)" "j \<noteq> k" "fst (conn_view (nw_conns s ! j)) = fst (conn_view (nw_conns s ! k))" for j k
    using that by (simp add: ids_apart_def views_def)
  ultimately show ?thesis by blast
qed

text \<open>
  C5: No connection is left waiting once interception is switched off. From any state, switching it off and
  letting the io thread run what was posted, in order, decides every pending request: the queue is empty,
  nothing is on its way, and no open connection waits; the connections are the same, open or closed as they were.
\<close>
theorem network_disable_releases:
  assumes "network_reachable ll s" "nw_taken s < 2 ^ 31"
  shows "let s' = run_posted ll (net_user (OpEnable False) s)
    in network_steps ll s s' \<and> \<not> im_enabled (nw_manager s') \<and> queue_ids s' = [] \<and> nw_posted s' = []
      \<and> map (\<lambda>v. (fst v, snd (snd v))) (views s') = map (\<lambda>v. (fst v, snd (snd v))) (views s)
      \<and> (\<forall>i. (i, True, True) \<notin> set (views s'))"
proof -
  let ?s = "net_user (OpEnable False) s" and ?s' = "run_posted ll (net_user (OpEnable False) s)"
  have off: "nw_manager ?s = (nw_manager s)\<lparr>im_enabled := False, im_queue := []\<rparr>" "views ?s = views s"
    by (simp_all add: net_user_def setInterceptEnabled_def forwardAll_def decideAll_def Let_def views_def)
  have "network_inv ll ?s" using network_reachable_inv [OF assms] by (simp add: inv_user)
  note s' = run_posted_facts [OF this]
  hence none: "queue_ids ?s' = []" "posted_ids ?s' = []" by (simp_all add: queue_ids_def posted_ids_def off)
  hence "(i, True, True) \<notin> set (views ?s')" for i using s' by (auto simp: network_inv_def claims_inv_def claimed_def)
  moreover have "network_steps ll s ?s'" by (rule network_steps.more [OF network_step.user [of "OpEnable False"]]) (use s' in simp_all)
  ultimately show ?thesis using s' none off by (simp add: Let_def)
qed

section \<open>Witnesses\<close>

definition demo_intercept :: session_env where
  "demo_intercept = demo_env\<lparr>en_intercept := True\<rparr>"

definition demo_timeout :: "ll_event list list session" where
  "demo_timeout = (case session_run_op demo_ll demo_intercept TimerWait (io_ok []) (session_start (Session demo_ll True)) of Inr s \<Rightarrow> s)"

fun demo_reads :: "ll_event list list session \<Rightarrow> ll_event list list session" where
  "demo_reads s = (case session_run_op demo_ll demo_intercept ClientRead (io_ok ''x'') s of Inr s' \<Rightarrow> s')"

text \<open>One connection takes a request while interception is on.\<close>

definition demo_net :: "ll_event list list network" where
  "demo_net = net_io demo_ll 0 True (Plain (demo_reads (session_start (Session demo_ll True)))) (net_accept demo_ll Network)"

lemma demo_reads_run:
  "\<not> isl (session_run_op demo_ll demo_intercept ClientRead (io_ok ''x'') s)
   \<Longrightarrow> session_run_op demo_ll demo_intercept ClientRead (io_ok ''x'') s = Inr (demo_reads s)"
  by (cases "session_run_op demo_ll demo_intercept ClientRead (io_ok ''x'') s") simp_all

lemma demo_read_moves:
  assumes "ClientRead \<in> set (ss_pending s)" "session_run_op demo_ll demo_intercept ClientRead (io_ok ''x'') s = Inr s'"
    "session_takes demo_ll ClientRead (io_ok ''x'') s = t"
  shows "conn_moves demo_ll 1 t (Plain s) (Plain s')"
  using session_moves.intros [of ClientRead s demo_intercept 1 demo_ll "io_ok ''x''" s'] assms
  by (simp add: demo_intercept_def demo_env_def)

lemma demo_net_moves:
  "conn_moves demo_ll (sint (nw_nextId (net_accept demo_ll Network :: ll_event list list network))) True
     (nw_conns (net_accept demo_ll Network) ! 0) (Plain (demo_reads (session_start (Session demo_ll True))))"
proof -
  let ?s = "session_start (Session demo_ll True)"
  have run: "ClientRead \<in> set (ss_pending ?s)"
    "session_run_op demo_ll demo_intercept ClientRead (io_ok ''x'') ?s = Inr (demo_reads ?s)"
    "session_takes demo_ll ClientRead (io_ok ''x'') ?s = True"
    by code_simp+
  show ?thesis using demo_read_moves [OF run] by (simp add: net_accept_def Network_def)
qed

lemma demo_net_reachable: "network_reachable demo_ll demo_net"
proof -
  have "network_step demo_ll (net_accept demo_ll Network) demo_net"
    unfolding demo_net_def using demo_net_moves by (intro network_step.io) (simp_all add: net_accept_def Network_def)
  thus ?thesis using network_step.accept network_reachable.intros by metis
qed

lemma demo_read_state:
  "session_view (demo_reads (session_start (Session demo_ll True))) = (1, True, True)"
  "ss_effects (session_start (Session demo_ll True)) = []"
  "map (\<lambda>e. case e of InterceptRequest i h p r \<Rightarrow> i | _ \<Rightarrow> 0) (ss_effects (demo_reads (session_start (Session demo_ll True)))) = [1]"
  by code_simp+

lemma demo_read_effect:
  obtains h p r where "ss_effects (demo_reads (session_start (Session demo_ll True))) = [InterceptRequest 1 h p r]"
proof -
  obtain e where e: "ss_effects (demo_reads (session_start (Session demo_ll True))) = [e]"
    "(case e of InterceptRequest i h p r \<Rightarrow> i | _ \<Rightarrow> 0) = 1"
    using demo_read_state(3) by (auto simp: map_eq_Cons_conv)
  then obtain h p r where "e = InterceptRequest 1 h p r" by (cases e) auto
  with e(1) that show thesis by blast
qed

lemma demo_net_state: "queue_ids demo_net = [1]" "posted_ids demo_net = []" "views demo_net = [(1, True, True)]" "nw_taken demo_net = 1"
  "sint (nw_nextId demo_net) = 2"
proof -
  obtain h p r where "ss_effects (demo_reads (session_start (Session demo_ll True))) = [InterceptRequest 1 h p r]"
    by (rule demo_read_effect)
  hence run: "demo_net = deliver demo_ll 0 [InterceptRequest 1 h p r]
     (Network\<lparr>nw_conns := [Plain (demo_reads (session_start (Session demo_ll True)))], nw_nextId := 2, nw_taken := 1\<rparr>)"
    using demo_read_state(2) by (simp add: demo_net_def net_io_def net_accept_def Network_def Let_def added_def)
  show "queue_ids demo_net = [1]" "posted_ids demo_net = []" "views demo_net = [(1, True, True)]" "nw_taken demo_net = 1"
    "sint (nw_nextId demo_net) = 2"
    unfolding run
    by (simp_all add: deliver_def queue_ids_def posted_ids_def views_def interceptRequest_def Let_def Network_def InterceptManager_def
        demo_read_state(1) del: demo_reads.simps)
qed

lemma network_decisions_routed_witness:
  "distinct (queue_ids demo_net @ posted_ids demo_net) \<and> queue_ids demo_net = [1] \<and> views demo_net = [(1, True, True)]"
  using network_decisions_routed [OF demo_net_reachable] demo_net_state by simp

lemma demo_net_conns: "nw_conns demo_net = [Plain (demo_reads (session_start (Session demo_ll True)))]"
proof -
  have "nw_conns demo_net ! 0 = Plain (demo_reads (session_start (Session demo_ll True)))"
    unfolding demo_net_def by (subst net_io_frame(2)) (simp_all add: net_accept_def del: demo_reads.simps)
  moreover have "length (nw_conns demo_net) = 1" using demo_net_state(3) by (auto simp: views_def map_eq_Cons_conv)
  ultimately show ?thesis by (cases "nw_conns demo_net") (simp_all del: demo_reads.simps)
qed

lemma demo_net_forward: "posted_ids (net_user OpForward demo_net) = [1]"
proof -
  obtain item where "im_queue (nw_manager demo_net) = [item]" "it_id item = 1"
    using demo_net_state(1) by (auto simp: queue_ids_def map_eq_Cons_conv)
  thus ?thesis
    using demo_net_state(2) by (simp add: net_user_def posted_ids_def im_defs Let_def notify_effect_def)
qed

lemma network_holds_requests_witness:
  "held (nw_conns demo_net ! 0) \<and> posted_ids (net_user OpForward demo_net) = [1]"
proof -
  have k: "0 < length (nw_conns demo_net)" "conn_view (nw_conns demo_net ! 0) = (1, True, True)" "nw_taken demo_net < 2 ^ 31"
    using demo_net_state(3,4) by (auto simp: views_def map_eq_Cons_conv)
  have "network_step demo_ll demo_net (net_user OpForward demo_net)" by (rule network_step.user) simp
  from network_holds_requests [OF demo_net_reachable k(3) this k(1,2)] have "held (nw_conns demo_net ! 0)" by blast
  thus ?thesis using demo_net_forward by blast
qed

lemma network_ids_unique_witness: "fst (conn_view (nw_conns demo_net ! 0)) < sint (nw_nextId demo_net) \<and> length (nw_conns demo_net) = 1"
proof -
  have one: "length (nw_conns demo_net) = 1" using demo_net_state(3) by (auto simp: views_def map_eq_Cons_conv)
  have "(\<forall>k < length (nw_conns demo_net). 0 \<le> fst (conn_view (nw_conns demo_net ! k))
     \<and> fst (conn_view (nw_conns demo_net ! k)) < sint (nw_nextId demo_net))"
    by (rule conjunct2 [OF network_ids_unique [OF demo_net_reachable]]) (simp add: demo_net_state)
  with one show ?thesis by simp
qed

lemma network_disable_releases_witness:
  "let s' = run_posted demo_ll (net_user (OpEnable False) demo_net)
   in network_steps demo_ll demo_net s' \<and> queue_ids s' = [] \<and> nw_posted s' = [] \<and> views s' = [(1, False, True)]"
proof -
  let ?s' = "run_posted demo_ll (net_user (OpEnable False) demo_net)"
  have "nw_taken demo_net < 2 ^ 31" by (simp add: demo_net_state)
  from network_disable_releases [OF demo_net_reachable this]
  have s': "network_steps demo_ll demo_net ?s'" "queue_ids ?s' = []" "nw_posted ?s' = []"
    "map (\<lambda>v. (fst v, snd (snd v))) (views ?s') = map (\<lambda>v. (fst v, snd (snd v))) (views demo_net)"
    "\<forall>i. (i, True, True) \<notin> set (views ?s')" by (simp_all add: Let_def)
  from s'(4) obtain w where "views ?s' = [(1, w, True)]" by (auto simp: demo_net_state map_eq_Cons_conv)
  with s' show ?thesis by (cases w) auto
qed

text \<open>
  A plain session does not look whether it is still open when a read that had succeeded is handed to it: closed
  by its timer, it still queues its request, for the user to decide, and nothing withdraws it.
\<close>

lemma closed_session_queues:
  "session_reachable demo_ll True (demo_reads demo_timeout)
   \<and> \<not> ss_clientOpen demo_timeout \<and> ClientRead \<in> set (ss_pending demo_timeout)
   \<and> session_view (demo_reads demo_timeout) = (1, True, False)
   \<and> map (\<lambda>e. case e of InterceptRequest i h p r \<Rightarrow> i | _ \<Rightarrow> 0) (ss_effects (demo_reads demo_timeout)) = [1]"
proof -
  have timeout: "TimerWait \<in> set (ss_pending (session_start (Session demo_ll True)))"
    "session_run_op demo_ll demo_intercept TimerWait (io_ok []) (session_start (Session demo_ll True)) = Inr demo_timeout"
    by code_simp+
  have open': "ClientRead \<in> set (ss_pending demo_timeout)" "\<not> ss_clientOpen demo_timeout" by code_simp+
  have "case session_run_op demo_ll demo_intercept ClientRead (io_ok ''x'') demo_timeout of Inl e \<Rightarrow> False
    | Inr s \<Rightarrow> session_view s = (1, True, False) \<and> map (\<lambda>e. case e of InterceptRequest i h p r \<Rightarrow> i | _ \<Rightarrow> 0) (ss_effects s) = [1]"
    by code_simp
  then obtain s where s: "session_run_op demo_ll demo_intercept ClientRead (io_ok ''x'') demo_timeout = Inr s"
    "session_view s = (1, True, False)" "map (\<lambda>e. case e of InterceptRequest i h p r \<Rightarrow> i | _ \<Rightarrow> 0) (ss_effects s) = [1]"
    by (cases "session_run_op demo_ll demo_intercept ClientRead (io_ok ''x'') demo_timeout") simp_all
  have "session_reachable demo_ll True s"
    using session_reachable.step [OF session_reachable.start timeout] open'(1) s(1) by (rule session_reachable.step)
  thus ?thesis using open' s by (simp only: demo_reads.simps) simp
qed

end
