(* ===== verification/Service.thy ===== *)
theory Service
  imports Network ProxyServer
begin

text \<open>
  The server as it runs: the acceptor, the loop and the stop of theory ProxyServer, with the connections and
  shared objects of theory Network. Only the io thread accepts, completes operations and carries out
  decisions, and only while its loop runs (\<open>src/src/proxy/ProxyServer.cpp\<close>); the main thread starts and stops
  the server and operates the intercept manager at any time. What is proved of either part is shown
  to hold of the whole, and then what becomes of held requests when the program ends.
\<close>

section \<open>State and steps\<close>

record 'p service =
  sv_server :: "'p proxy_server"
  sv_net :: "'p network"

definition Service :: "string \<Rightarrow> 16 word \<Rightarrow> bool \<Rightarrow> 'p service" where
  "Service host port given = \<lparr>sv_server = ProxyServer host port given, sv_net = Network\<rparr>"

fun plains :: "'p conn list \<Rightarrow> 'p session list" where
  "plains [] = []"
| "plains (Plain s # cs) = s # plains cs"
| "plains (Tls s # cs) = plains cs"

text \<open>The loop takes completions until it has ended or the context has been stopped.\<close>

definition io_runs :: "'p proxy_server \<Rightarrow> bool" where
  "io_runs s \<longleftrightarrow> ps_loop s \<and> \<not> ps_stopped s"

text \<open>A completion changes the connections; the server's own sessions are the plain ones among them.\<close>

definition with_net :: "'p network \<Rightarrow> 'p service \<Rightarrow> 'p service" where
  "with_net n s = s\<lparr>sv_server := (sv_server s)\<lparr>ps_sessions := plains (nw_conns n)\<rparr>, sv_net := n\<rparr>"

definition service_accept :: "'p llhttp \<Rightarrow> 'p service \<Rightarrow> 'p service" where
  "service_accept ll s = s\<lparr>sv_server := handleAccept ll True (sv_server s), sv_net := net_accept ll (sv_net s)\<rparr>"

definition service_user :: "im_op \<Rightarrow> 'p service \<Rightarrow> 'p service" where
  "service_user p s = s\<lparr>sv_net := net_user p (sv_net s)\<rparr>"

text \<open>
  What happens to the server and on its io thread. \<open>control\<close> is a step of the server that leaves its sessions
  alone: start, the parts of stop, a failed accept, an exception that leaves a handler, the end of the loop.
\<close>

inductive service_io :: "'p llhttp \<Rightarrow> 'p service \<Rightarrow> 'p service \<Rightarrow> bool" for ll where
  control: "\<lbrakk>server_step ll (sv_server s) v; ps_sessions v = ps_sessions (sv_server s)\<rbrakk> \<Longrightarrow> service_io ll s (s\<lparr>sv_server := v\<rparr>)"
| accept: "\<lbrakk>io_runs (sv_server s); 0 < ps_accepts (sv_server s); ps_acceptor (sv_server s) = Acc_listening\<rbrakk>
     \<Longrightarrow> service_io ll s (service_accept ll s)"
| complete: "\<lbrakk>io_runs (sv_server s); k < length (nw_conns (sv_net s));
       conn_moves ll (sint (nw_nextId (sv_net s))) t (nw_conns (sv_net s) ! k) c\<rbrakk>
     \<Longrightarrow> service_io ll s (with_net (net_io ll k t c (sv_net s)) s)"
| decide: "\<lbrakk>io_runs (sv_server s); x \<in> set (nw_posted (sv_net s))\<rbrakk> \<Longrightarrow> service_io ll s (with_net (net_decide ll x (sv_net s)) s)"

text \<open>Between any two of these, the main thread operates the manager or takes the transactions.\<close>

inductive service_step :: "'p llhttp \<Rightarrow> 'p service \<Rightarrow> 'p service \<Rightarrow> bool" for ll where
  io: "service_io ll s s' \<Longrightarrow> service_step ll s s'"
| user: "user_op p \<Longrightarrow> service_step ll s (service_user p s)"
| edit: "service_step ll s (s\<lparr>sv_net := net_edit r (sv_net s)\<rparr>)"
| drain: "service_step ll s (s\<lparr>sv_net := snd (net_drain (sv_net s))\<rparr>)"

lemmas service_control_step = service_step.io [OF service_io.control]
  and service_accept_step = service_step.io [OF service_io.accept]
  and service_complete_step = service_step.io [OF service_io.complete]

inductive service_steps :: "'p llhttp \<Rightarrow> 'p service \<Rightarrow> 'p service \<Rightarrow> bool" for ll where
  none: "service_steps ll s s"
| more: "service_step ll s s' \<Longrightarrow> service_steps ll s' s'' \<Longrightarrow> service_steps ll s s''"

definition service_reachable :: "'p llhttp \<Rightarrow> 'p service \<Rightarrow> bool" where
  "service_reachable ll s \<longleftrightarrow> (\<exists>host port given. service_steps ll (Service host port given) s)"

lemma service_steps_trans: "service_steps ll a b \<Longrightarrow> service_steps ll b c \<Longrightarrow> service_steps ll a c"
  by (induction rule: service_steps.induct) (auto intro: service_steps.intros)

lemma service_reachable_steps: "service_reachable ll s \<Longrightarrow> service_steps ll s s' \<Longrightarrow> service_reachable ll s'"
  unfolding service_reachable_def by (blast intro: service_steps_trans)

section \<open>Plain sessions among the connections\<close>

lemma plains_append [simp]: "plains (xs @ ys) = plains xs @ plains ys"
  by (induction xs rule: plains.induct) simp_all

lemma plains_Tls [simp]: "plains (map (\<lambda>x. Tls (f x)) xs) = []"
  by (induction xs) simp_all

lemma plains_at:
  assumes "k < length cs"
  shows "cs ! k = Plain s \<Longrightarrow> length (plains (take k cs)) < length (plains cs) \<and> plains cs ! length (plains (take k cs)) = s"
    "cs ! k = Plain s \<Longrightarrow> plains (cs[k := Plain s']) = (plains cs)[length (plains (take k cs)) := s']"
    "cs ! k = Tls m \<Longrightarrow> plains (cs[k := Tls m']) = plains cs"
proof -
  have cs: "cs = take k cs @ cs ! k # drop (Suc k) cs" using assms by (rule id_take_nth_drop)
  have ps: "plains cs = plains (take k cs) @ plains (cs ! k # drop (Suc k) cs)" by (subst cs) simp
  show "cs ! k = Plain s \<Longrightarrow> length (plains (take k cs)) < length (plains cs) \<and> plains cs ! length (plains (take k cs)) = s"
    "cs ! k = Plain s \<Longrightarrow> plains (cs[k := Plain s']) = (plains cs)[length (plains (take k cs)) := s']"
    "cs ! k = Tls m \<Longrightarrow> plains (cs[k := Tls m']) = plains cs"
    using assms by (simp_all add: ps upd_conv_take_nth_drop)
qed

text \<open>Carrying out effects only adds TLS sessions.\<close>

lemma deliver_plains: "plains (nw_conns (deliver ll k es s)) = plains (nw_conns s)"
proof (induction es arbitrary: s)
  case (Cons e es)
  have "deliver ll k (e # es) s = deliver ll k es (deliver1 ll k e s)" by (simp add: deliver_def)
  moreover have "plains (nw_conns (deliver1 ll k e s)) = plains (nw_conns s)" by (cases e) simp_all
  ultimately show ?case using Cons [of "deliver1 ll k e s"] by simp
qed (simp add: deliver_def)

lemma net_io_plains: "plains (nw_conns (net_io ll k t c s)) = plains ((nw_conns s)[k := c])"
  by (simp add: net_io_def deliver_plains Let_def)

section \<open>Both parts run as they do alone\<close>

lemma server_sync [simp]: "plains cs = ps_sessions s \<Longrightarrow> s\<lparr>ps_sessions := plains cs\<rparr> = s"
  by simp

lemma one_server_step: "server_step ll s s' \<Longrightarrow> server_steps ll s s'"
  by (rule server_steps.more [OF _ server_steps.none])

lemma one_network_step: "network_step ll s s' \<Longrightarrow> network_steps ll s s'"
  by (rule network_steps.more [OF _ network_steps.none])

text \<open>A change of connection \<open>k\<close> that a session's own step makes is a step of the server, one of a TLS session none.\<close>

lemma session_change:
  assumes "io_runs s" "ps_sessions s = plains cs" "k < length cs" "cs ! k = Plain u"
    and "op \<in> set (ss_pending u)" "session_run_op ll en op r u = Inr u'"
  shows "server_step ll s (s\<lparr>ps_sessions := plains (cs[k := Plain u'])\<rparr>)"
proof -
  let ?j = "length (plains (take k cs))"
  have j: "?j < length (ps_sessions s)" "ps_sessions s ! ?j = u" using plains_at(1) [OF assms(3,4)] assms(2) by simp_all
  have "server_step ll s (s\<lparr>ps_sessions := (ps_sessions s)[?j := u']\<rparr>)"
    using assms(1,5,6) j by (intro server_step.session [of s ?j op ll en r]) (simp_all add: io_runs_def)
  thus ?thesis using plains_at(2) [OF assms(3,4)] assms(2) by simp
qed

lemma complete_server:
  assumes "io_runs s" "ps_sessions s = plains cs" "k < length cs" "conn_moves ll n t (cs ! k) c"
  shows "server_steps ll s (s\<lparr>ps_sessions := plains (cs[k := c])\<rparr>)"
proof (cases "cs ! k")
  case (Plain u)
  with assms(4) obtain u' where c: "c = Plain u'" "session_moves ll n t u u'" by (cases c) auto
  from c(2) obtain op en r where "op \<in> set (ss_pending u)" "session_run_op ll en op r u = Inr u'" by cases blast
  from session_change [OF assms(1-3) Plain this] c(1) show ?thesis by (simp add: one_server_step)
next
  case (Tls m)
  with assms(4) obtain m' where "c = Tls m'" by (cases c) auto
  hence "plains (cs[k := c]) = ps_sessions s" using plains_at(3) [OF assms(3) Tls] assms(2) by simp
  thus ?thesis by (simp add: server_steps.none)
qed

lemma decide_server:
  assumes "io_runs s" "ps_sessions s = plains cs" "k < length cs" "conn_view (cs ! k) = (i, True, b)"
  shows "server_steps ll s (s\<lparr>ps_sessions := plains (cs[k := conn_decide a r (cs ! k)])\<rparr>)"
proof (cases "cs ! k")
  case (Plain u)
  hence "session_view u = (i, True, b)" using assms(4) by simp
  from session_change [OF assms(1-3) Plain session_decision_runs [OF this]] Plain show ?thesis by (simp add: one_server_step)
next
  case (Tls m)
  hence "plains (cs[k := conn_decide a r (cs ! k)]) = ps_sessions s" using plains_at(3) [OF assms(3) Tls] assms(2) by simp
  thus ?thesis by (simp add: server_steps.none)
qed

definition in_step :: "'p service \<Rightarrow> bool" where
  "in_step s \<longleftrightarrow> ps_sessions (sv_server s) = plains (nw_conns (sv_net s))"

lemma service_io_parts:
  assumes "service_io ll s s'" "in_step s" "network_inv ll (sv_net s)" "ps_certCache (sv_server s)"
  shows "server_steps ll (sv_server s) (sv_server s') \<and> network_steps ll (sv_net s) (sv_net s') \<and> in_step s'"
  using assms
proof (induction rule: service_io.induct)
  case (control s v)
  thus ?case by (simp add: one_server_step network_steps.none in_step_def)
next
  case (accept s)
  hence "server_step ll (sv_server s) (handleAccept ll True (sv_server s))"
    by (intro server_step.accept) (simp_all add: io_runs_def)
  moreover have "network_step ll (sv_net s) (net_accept ll (sv_net s))" by (rule network_step.accept)
  ultimately show ?case using accept
    by (simp add: service_accept_def one_server_step one_network_step in_step_def handleAccept_simps net_accept_def)
next
  case (complete s k t c)
  have "network_step ll (sv_net s) (net_io ll k t c (sv_net s))" using complete by (intro network_step.io)
  moreover have "server_steps ll (sv_server s) (sv_server (with_net (net_io ll k t c (sv_net s)) s))"
    using complete complete_server [of "sv_server s" "nw_conns (sv_net s)"] by (simp add: with_net_def net_io_plains in_step_def)
  ultimately show ?case by (simp add: one_network_step with_net_def in_step_def)
next
  case (decide s x)
  have "network_step ll (sv_net s) (net_decide ll x (sv_net s))" using decide by (intro network_step.decide)
  moreover obtain k b q where "k < length (nw_conns (sv_net s))" "conn_view (nw_conns (sv_net s) ! k) = (it_id (fst x), True, b)"
    "net_decide ll x (sv_net s) = (sv_net s)\<lparr>nw_posted := remove1 x (nw_posted (sv_net s)),
       nw_conns := (nw_conns (sv_net s))[k := conn_decide (snd x) (it_request (fst x)) (nw_conns (sv_net s) ! k)], nw_queue := q\<rparr>"
    using net_decide_result [OF decide(4,2)] by metis
  hence "server_steps ll (sv_server s) (sv_server (with_net (net_decide ll x (sv_net s)) s))"
    using decide_server [of "sv_server s" "nw_conns (sv_net s)" k] decide by (simp add: with_net_def in_step_def)
  ultimately show ?case by (simp add: one_network_step with_net_def in_step_def)
qed

lemma service_step_parts:
  assumes "service_step ll s s'" "in_step s" "network_inv ll (sv_net s)" "ps_certCache (sv_server s)"
  shows "server_steps ll (sv_server s) (sv_server s') \<and> network_steps ll (sv_net s) (sv_net s') \<and> in_step s'"
  using assms
proof (induction rule: service_step.induct)
  case (io s s')
  thus ?case by (rule service_io_parts)
next
  case (user p s)
  thus ?case using network_step.user [of p ll "sv_net s"]
    by (simp add: service_user_def one_network_step server_steps.none in_step_def) (simp add: net_user_def split_beta)
next
  case (edit s r)
  thus ?case using network_step.edit [of ll "sv_net s" r]
    by (simp add: one_network_step server_steps.none in_step_def) (simp add: net_edit_def)
next
  case (drain s)
  thus ?case using network_step.drain [of ll "sv_net s"]
    by (simp add: one_network_step server_steps.none in_step_def) (simp add: net_drain_def split_beta)
qed

lemma service_taken: "service_step ll s s' \<Longrightarrow> nw_taken (sv_net s) \<le> nw_taken (sv_net s')"
  by (induction rule: service_step.induct)
    (auto simp: service_user_def service_accept_def with_net_def net_accept_def net_io_def net_decide_def net_user_def net_edit_def
      net_drain_def deliver_taken split_beta Let_def elim!: service_io.cases split: option.split)

lemma service_steps_taken: "service_steps ll s s' \<Longrightarrow> nw_taken (sv_net s) \<le> nw_taken (sv_net s')"
  by (induction rule: service_steps.induct) (auto dest: service_taken)

definition service_inv :: "'p llhttp \<Rightarrow> 'p service \<Rightarrow> bool" where
  "service_inv ll s \<longleftrightarrow> server_reachable ll (sv_server s) \<and> network_reachable ll (sv_net s) \<and> in_step s"

lemma service_step_inv:
  assumes "service_step ll s s'" "service_inv ll s" "nw_taken (sv_net s') < 2 ^ 31"
  shows "service_inv ll s'"
proof -
  have parts: "server_reachable ll (sv_server s)" "network_reachable ll (sv_net s)" "in_step s"
    using assms(2) by (simp_all add: service_inv_def)
  have "network_inv ll (sv_net s)" using network_reachable_inv [OF parts(2)] service_taken [OF assms(1)] assms(3) by simp
  moreover have "ps_certCache (sv_server s)" using server_reachable_inv [OF parts(1)] by (simp add: sessions_inv_def)
  ultimately show ?thesis
    using service_step_parts [OF assms(1) parts(3)] parts server_reachable_step network_steps_reachable
    unfolding service_inv_def by blast
qed

lemma service_steps_inv: "service_steps ll s s' \<Longrightarrow> service_inv ll s \<Longrightarrow> nw_taken (sv_net s') < 2 ^ 31 \<Longrightarrow> service_inv ll s'"
proof (induction rule: service_steps.induct)
  case (more s s' s'')
  have "nw_taken (sv_net s') < 2 ^ 31" using service_steps_taken [OF more.hyps(2)] more.prems(2) by linarith
  thus ?case using more service_step_inv by blast
qed

lemma service_reachable_inv: "service_reachable ll s \<Longrightarrow> nw_taken (sv_net s) < 2 ^ 31 \<Longrightarrow> service_inv ll s"
proof -
  have "service_inv ll (Service host port given)" for host port given
    unfolding service_inv_def service_reachable_def server_reachable_def
    by (auto simp: Service_def in_step_def ProxyServer_def Network_def network_reachable.init [unfolded Network_def]
      intro!: exI server_steps.none [unfolded ProxyServer_def])
  thus "service_reachable ll s \<Longrightarrow> nw_taken (sv_net s) < 2 ^ 31 \<Longrightarrow> service_inv ll s"
    unfolding service_reachable_def using service_steps_inv by blast
qed

section \<open>Carrying out decisions\<close>

text \<open>While the loop runs, what was posted can be carried out, in order.\<close>

lemma with_net_simps [simp]:
  "sv_net (with_net n s) = n" "with_net m (with_net n s) = with_net m s" "io_runs (sv_server (with_net n s)) = io_runs (sv_server s)"
  "in_step (with_net n s)"
  by (simp_all add: with_net_def io_runs_def in_step_def)

lemma run_posted_steps:
  "\<lbrakk>io_runs (sv_server s); network_inv ll (sv_net s); in_step s; nw_posted (sv_net s) = xs\<rbrakk>
   \<Longrightarrow> service_steps ll s (with_net (fold (net_decide ll) xs (sv_net s)) s)"
proof (induction xs arbitrary: s)
  case Nil
  hence "with_net (sv_net s) s = s" by (simp add: with_net_def in_step_def)
  thus ?case by (simp add: service_steps.none)
next
  case (Cons x xs)
  have x: "x \<in> set (nw_posted (sv_net s))" using Cons.prems(4) by simp
  let ?s = "with_net (net_decide ll x (sv_net s)) s"
  have "service_step ll s ?s" by (rule service_step.io [OF service_io.decide [OF Cons.prems(1) x]])
  moreover have "nw_posted (net_decide ll x (sv_net s)) = xs" using decide_keeps(1) [OF Cons.prems(2) x] Cons.prems(4) by simp
  hence "service_steps ll ?s (with_net (fold (net_decide ll) xs (net_decide ll x (sv_net s))) s)"
    using Cons.IH [of ?s] Cons.prems(1) inv_decide [OF Cons.prems(2) x] by simp
  ultimately show ?case by (simp add: service_steps.more)
qed

text \<open>In a server whose loop runs, switching interception off can always be carried through.\<close>

lemma service_disable_releases:
  assumes "service_reachable ll s" "nw_taken (sv_net s) < 2 ^ 31" "io_runs (sv_server s)"
  shows "service_steps ll s (with_net (run_posted ll (net_user (OpEnable False) (sv_net s))) s)"
proof -
  let ?s = "service_user (OpEnable False) s"
  have inv: "service_inv ll s" using service_reachable_inv [OF assms(1,2)] .
  have "network_inv ll (sv_net ?s)"
    using network_reachable_inv [OF _ assms(2)] inv inv_user [of ll "sv_net s" "OpEnable False"] by (simp add: service_inv_def service_user_def)
  moreover have "in_step ?s" using inv by (simp add: service_inv_def in_step_def service_user_def net_user_def split_beta)
  ultimately have "service_steps ll ?s (with_net (run_posted ll (sv_net ?s)) ?s)"
    unfolding run_posted_def using assms(3) by (intro run_posted_steps) (simp_all add: service_user_def)
  moreover have "with_net n ?s = with_net n s" for n by (simp add: with_net_def service_user_def)
  ultimately show ?thesis using service_steps.more [OF service_step.user [of "OpEnable False" ll s]] by (simp add: service_user_def)
qed

section \<open>After the loop\<close>

text \<open>A server that is dead stays so; then nothing changes the connections, and decisions are only added.\<close>

lemma dead_io: "service_io ll s s' \<Longrightarrow> dead (sv_server s) \<Longrightarrow> dead (sv_server s') \<and> sv_net s' = sv_net s"
proof (induction rule: service_io.induct)
  case (control s v)
  thus ?case using step_dead by simp blast
qed (simp_all add: io_runs_def dead_def)

lemma dead_step:
  assumes "service_step ll s s'" "dead (sv_server s)"
  shows "dead (sv_server s') \<and> nw_conns (sv_net s') = nw_conns (sv_net s) \<and> nw_taken (sv_net s') = nw_taken (sv_net s)
    \<and> (\<exists>xs. nw_posted (sv_net s') = nw_posted (sv_net s) @ xs)"
  using assms
proof (induction rule: service_step.induct)
  case (io s s')
  thus ?case using dead_io by fastforce
qed (auto simp: service_user_def net_user_def net_edit_def net_drain_def split_beta)

lemma dead_steps:
  "service_steps ll s s' \<Longrightarrow> dead (sv_server s) \<Longrightarrow>
     dead (sv_server s') \<and> nw_conns (sv_net s') = nw_conns (sv_net s) \<and> nw_taken (sv_net s') = nw_taken (sv_net s)
     \<and> (\<exists>xs. nw_posted (sv_net s') = nw_posted (sv_net s) @ xs)"
proof (induction rule: service_steps.induct)
  case (more s s' s'')
  from dead_step [OF more.hyps(1) more.prems] more.IH show ?case by auto
qed simp

text \<open>Only the server's own steps end the loop.\<close>

lemma loop_end_control:
  assumes "service_step ll s s'" "ps_loop (sv_server s)" "\<not> ps_loop (sv_server s')"
  shows "server_step ll (sv_server s) (sv_server s')" "sv_net s' = sv_net s"
  using assms
  by (auto simp: service_accept_def with_net_def service_user_def handleAccept_simps elim!: service_step.cases service_io.cases)

lemma loop_end_dead:
  assumes "service_inv ll s" "service_step ll s s'" "ps_loop (sv_server s)" "\<not> ps_loop (sv_server s')"
  shows "dead (sv_server s')"
proof -
  have "accept_inv (sv_server s)" using assms(1) server_reachable_inv by (auto simp: service_inv_def)
  thus ?thesis using loop_ends_dead [OF loop_end_control(1) [OF assms(2-4)] _ assms(3,4)] by blast
qed

section \<open>Properties\<close>

text \<open>
  The server's parts run in the whole as they do alone. In every run of acceptor, loop, stop, connections,
  decisions and the main thread's operations, the state of the server is one that the server
  alone can reach, the connections with what they share are in a state that the network alone can reach,
  and the sessions that the server accepted are the plain ones among the connections; so all that
  is proved of reachable servers and networks holds while they run together.
\<close>
theorem service_runs_its_parts:
  assumes "service_reachable ll s" "nw_taken (sv_net s) < 2 ^ 31"
  shows "server_reachable ll (sv_server s) \<and> network_reachable ll (sv_net s)
    \<and> ps_sessions (sv_server s) = plains (nw_conns (sv_net s))"
  using service_reachable_inv [OF assms] by (simp add: service_inv_def in_step_def)

text \<open>
  C16: When the loop has ended, by a stop or an exception, held requests stay where they are. Whatever the main
  thread does afterwards, no connection changes any more, decisions are posted but none is carried out, and
  the request of every open connection that waits is still in the queue or among the decisions
  that nobody runs: it is neither forwarded nor answered.
\<close>
theorem stop_abandons_held_requests:
  assumes "service_reachable ll s" "nw_taken (sv_net s) < 2 ^ 31"
    and "service_step ll s s'" "ps_loop (sv_server s)" "\<not> ps_loop (sv_server s')" "service_steps ll s' s''"
  shows "\<not> ps_loop (sv_server s'') \<and> nw_conns (sv_net s'') = nw_conns (sv_net s')
    \<and> (\<exists>xs. nw_posted (sv_net s'') = nw_posted (sv_net s') @ xs)
    \<and> (\<forall>k < length (nw_conns (sv_net s')). \<forall>i. conn_view (nw_conns (sv_net s') ! k) = (i, True, True)
         \<longrightarrow> i \<in> set (queue_ids (sv_net s'') @ posted_ids (sv_net s'')))"
proof -
  have inv: "service_inv ll s" using service_reachable_inv [OF assms(1,2)] .
  have net: "sv_net s' = sv_net s" using loop_end_control(2) [OF assms(3-5)] .
  note after = dead_steps [OF assms(6) loop_end_dead [OF inv assms(3-5)]]
  have "service_inv ll s''"
    using service_steps_inv [OF assms(6) service_step_inv [OF assms(3) inv]] after assms(2) net by simp
  hence "network_inv ll (sv_net s'')" using network_reachable_inv [of ll "sv_net s''"] after assms(2) net by (simp add: service_inv_def)
  hence "claimed (views (sv_net s'')) (set (queue_ids (sv_net s'') @ posted_ids (sv_net s'')))"
    by (simp add: network_inv_def claims_inv_def)
  moreover have "views (sv_net s'') = views (sv_net s')" using after by (simp add: views_def)
  ultimately have "\<forall>k < length (nw_conns (sv_net s')). \<forall>i. conn_view (nw_conns (sv_net s') ! k) = (i, True, True)
      \<longrightarrow> i \<in> set (queue_ids (sv_net s'') @ posted_ids (sv_net s''))"
    unfolding claimed_def views_def by (metis length_map nth_map nth_mem)
  thus ?thesis using after by (auto simp: dead_def)
qed

section \<open>Witnesses\<close>

text \<open>A stop is a run of control steps.\<close>

definition service_stopped :: "'p service \<Rightarrow> 'p service" where
  "service_stopped s = s\<lparr>sv_server := stop_io (stop_reset (stop_close (stop_begin (sv_server s))))\<rparr>"

lemma stop_control:
  assumes "ps_running (sv_server s)" "ps_phase (sv_server s) = No_stop"
  shows "service_steps ll s (service_stopped s)"
proof -
  let ?v = "sv_server s"
  have step: "service_step ll (s\<lparr>sv_server := v\<rparr>) (s\<lparr>sv_server := w\<rparr>)" if "server_step ll v w" "ps_sessions w = ps_sessions v" for v w
    using service_control_step [of ll "s\<lparr>sv_server := v\<rparr>" w] that by simp
  have "service_step ll s (s\<lparr>sv_server := stop_begin ?v\<rparr>)"
    using service_control_step [OF server_step.stop [OF assms(2)]] by (simp add: stop_sessions)
  moreover note step [OF server_step.stop2 [of "stop_begin ?v"]] step [OF server_step.stop3 [of "stop_close (stop_begin ?v)"]]
    step [OF server_step.stop4 [of "stop_reset (stop_close (stop_begin ?v))"]]
  ultimately show ?thesis unfolding service_stopped_def
    using assms by (simp add: stop_phases stop_sessions) (blast intro: service_steps.intros)
qed

definition demo_service :: "ll_event list list service" where
  "demo_service = with_net demo_net (service_accept demo_ll
     ((Service ''127.0.0.1'' 8080 False)\<lparr>sv_server := demo_started\<rparr>))"

lemma demo_service_fields:
  "ps_running (sv_server demo_service)" "ps_loop (sv_server demo_service)" "\<not> ps_stopped (sv_server demo_service)"
  "ps_phase (sv_server demo_service) = No_stop" "sv_net demo_service = demo_net"
  by (simp_all add: demo_service_def with_net_def service_accept_def handleAccept_simps demo_server_fields)

lemma demo_service_reachable: "service_reachable demo_ll demo_service"
proof -
  let ?s0 = "Service ''127.0.0.1'' 8080 False :: ll_event list list service"
  let ?s1 = "?s0\<lparr>sv_server := demo_started\<rparr>"
  have sessions: "ps_sessions demo_started = []" by (simp add: demo_started_def start_sessions ProxyServer_def)
  have "server_step demo_ll (sv_server ?s0) demo_started"
    unfolding demo_started_def Service_def by (simp add: server_step.start ProxyServer_def)
  hence "service_step demo_ll ?s0 ?s1" by (rule service_control_step) (simp add: sessions Service_def ProxyServer_def)
  moreover have "service_step demo_ll ?s1 (service_accept demo_ll ?s1)"
    by (rule service_accept_step) (simp_all add: io_runs_def demo_server_fields)
  moreover have "service_step demo_ll (service_accept demo_ll ?s1) demo_service"
  proof -
    have net: "sv_net (service_accept demo_ll ?s1) = net_accept demo_ll Network" by (simp add: service_accept_def Service_def)
    have "io_runs (sv_server (service_accept demo_ll ?s1))" "0 < length (nw_conns (net_accept demo_ll Network))"
      by (simp_all add: io_runs_def service_accept_def handleAccept_simps demo_server_fields net_accept_def)
    thus ?thesis unfolding demo_service_def demo_net_def
      using service_complete_step [of "service_accept demo_ll ?s1" 0, unfolded net, OF _ _ demo_net_moves] by simp
  qed
  ultimately show ?thesis unfolding service_reachable_def by (blast intro: service_steps.intros)
qed

lemma service_runs_its_parts_witness:
  "length (ps_sessions (sv_server demo_service)) = 1 \<and> server_reachable demo_ll (sv_server demo_service)"
proof -
  have "nw_taken (sv_net demo_service) < 2 ^ 31" by (simp add: demo_service_fields demo_net_state)
  from service_runs_its_parts [OF demo_service_reachable this] show ?thesis
    by (simp add: demo_service_fields demo_net_conns)
qed

text \<open>The program ends while a request is held; a late Forward is posted, and the connection goes on waiting.\<close>

lemma stop_abandons_held_requests_witness:
  "let s' = (service_stopped demo_service)\<lparr>sv_server := loop_exit (sv_server (service_stopped demo_service))\<rparr>;
       s'' = service_user OpForward s'
   in posted_ids (sv_net s'') = [1] \<and> views (sv_net s'') = [(1, True, True)] \<and> \<not> ps_loop (sv_server s'')"
proof -
  let ?s = "service_stopped demo_service"
  let ?s' = "?s\<lparr>sv_server := loop_exit (sv_server ?s)\<rparr>"
  have reach: "service_reachable demo_ll ?s"
    using service_reachable_steps [OF demo_service_reachable stop_control] by (simp add: demo_service_fields)
  have fields: "ps_loop (sv_server ?s)" "ps_stopped (sv_server ?s)" "sv_net ?s = demo_net"
    by (simp_all add: service_stopped_def stop_defs demo_service_fields)
  have ended: "service_step demo_ll ?s ?s'"
    using service_control_step [OF server_step.stopped [OF fields(1,2)]] by (simp add: stop_sessions)
  have more: "service_steps demo_ll ?s' (service_user OpForward ?s')"
    by (rule service_steps.more [OF service_step.user service_steps.none]) simp
  have "nw_taken (sv_net ?s) < 2 ^ 31" by (simp add: fields demo_net_state)
  from stop_abandons_held_requests [OF reach this ended fields(1) _ more]
  have "\<not> ps_loop (sv_server (service_user OpForward ?s'))" "nw_conns (sv_net (service_user OpForward ?s')) = nw_conns demo_net"
    by (simp_all add: stop_phases fields)
  moreover have "posted_ids (net_user OpForward demo_net) = [1]" by (rule demo_net_forward)
  ultimately show ?thesis using demo_net_state(3) by (simp add: Let_def views_def) (simp add: service_user_def fields)
qed

end
