(* ===== verification/Program.thy ===== *)
theory Program
  imports Service HistoryTab RepeaterTab TuiApp
begin

text \<open>
  The whole program: the server of theory Service and the interface, with the objects they share. The tabs'
  own theories give each tab what it shares as a part of its state; here there is one of each: the
  intercept manager and the queue of transactions are the network's, the entries (made in
  \<open>src/src/tui/TuiApp.cpp\<close>) the history's, the repeater manager the repeater tab's. What a tab calls of
  the others is carried out.
\<close>

section \<open>State\<close>

record 'p program =
  pg_service :: "'p service"
  pg_proxy :: proxy_tab
  pg_history :: history
  pg_repeater :: repeater_tab
  pg_decoder :: decoder
  pg_ui :: tui

abbreviation pg_net :: "'p program \<Rightarrow> 'p network" where
  "pg_net s \<equiv> sv_net (pg_service s)"

text \<open>The interface: the tabs made on the shared queue and an empty list of entries, the repeater's callbacks set.\<close>

definition make_tabs :: "'p service \<Rightarrow> 'p program" where
  "make_tabs v = \<lparr>pg_service = v, pg_proxy = MakeProxyTab (nw_manager (sv_net v)) [],
     pg_history = MakeHistoryTab (nw_queue (sv_net v)) [],
     pg_repeater = manager_call (RpSwitchCallback True) (manager_call (RpNotifyCallback True) (MakeRepeaterTab rp_start)),
     pg_decoder = MakeDecoderTab, pg_ui = buildLayout\<rparr>"

text \<open>Set-up: the interface first, then the manager's callback; the server is made and not yet started.\<close>

definition Program :: "string \<Rightarrow> 16 word \<Rightarrow> 'p program" where
  "Program host port =
     (let s = make_tabs (Service host port False)
      in s\<lparr>pg_service := service_user (OpNotifyCallback True) (pg_service s)\<rparr>)"

text \<open>The tabs with what they share as it is.\<close>

definition seen_proxy :: "'p program \<Rightarrow> proxy_tab" where
  "seen_proxy s = (pg_proxy s)\<lparr>pt_manager := nw_manager (pg_net s), pt_entries := ht_entries (pg_history s)\<rparr>"

definition seen_history :: "'p program \<Rightarrow> history" where
  "seen_history s = (pg_history s)\<lparr>ht_queue := nw_queue (pg_net s)\<rparr>"

definition on_net :: "('p network \<Rightarrow> 'p network) \<Rightarrow> 'p program \<Rightarrow> 'p program" where
  "on_net f s = s\<lparr>pg_service := (pg_service s)\<lparr>sv_net := f (pg_net s)\<rparr>\<rparr>"

section \<open>Calls between the parts\<close>

text \<open>A request for the repeater: its manager takes it, and its callback turns to the repeater's tab.\<close>

fun switched :: "rp_effect \<Rightarrow> tui \<Rightarrow> tui" where
  "switched (RpSwitchTab i) ui = switch_tab i ui"
| "switched _ ui = ui"

definition to_repeater :: "string \<Rightarrow> string \<Rightarrow> bool \<Rightarrow> string \<Rightarrow> 'p program \<Rightarrow> 'p program" where
  "to_repeater host port isHttps raw s =
     (let (es, y) = rp_step (RpRequest host port isHttps raw) (rt_system (pg_repeater s))
      in s\<lparr>pg_repeater := (pg_repeater s)\<lparr>rt_system := y\<rparr>, pg_ui := fold switched es (pg_ui s)\<rparr>)"

text \<open>What the proxy tab calls: a decision is posted to the io thread, a notification wakes the interface.\<close>

fun carry_out :: "proxy_effect \<Rightarrow> 'p program \<Rightarrow> 'p program" where
  "carry_out (Managed (Decide item a)) s = on_net (\<lambda>n. n\<lparr>nw_posted := nw_posted n @ [(item, a)]\<rparr>) s"
| "carry_out (Managed Notify) s = s"
| "carry_out (ToRepeater host port isHttps raw) s = to_repeater host port isHttps raw s"

text \<open>An event of the proxy tab, of the history, of the repeater tab.\<close>

definition program_proxy :: "proxy_op \<Rightarrow> 'p program \<Rightarrow> 'p program option" where
  "program_proxy p s =
     map_option (\<lambda>(es, t). fold carry_out es (on_net (\<lambda>n. n\<lparr>nw_manager := pt_manager t\<rparr>) (s\<lparr>pg_proxy := t\<rparr>)))
       (proxy_step p (seen_proxy s))"

definition send_history :: "(string \<times> string \<times> bool \<times> string) option \<Rightarrow> 'p program \<Rightarrow> 'p program" where
  "send_history call s = (case call of None \<Rightarrow> s | Some (host, port, isHttps, raw) \<Rightarrow> to_repeater host port isHttps raw s)"

definition program_history :: "history_event \<Rightarrow> 'p program \<Rightarrow> 'p program option" where
  "program_history e s =
     map_option (\<lambda>h. send_history (history_effects e (seen_history s)) (on_net (\<lambda>n. n\<lparr>nw_queue := ht_queue h\<rparr>) (s\<lparr>pg_history := h\<rparr>)))
       (history_step e (seen_history s))"

definition program_repeater :: "repeater_event \<Rightarrow> 'p program \<Rightarrow> 'p program option" where
  "program_repeater e s = map_option (\<lambda>t. s\<lparr>pg_repeater := t\<rparr>) (repeater_step e (pg_repeater s))"

text \<open>The handler at the root: tabs, quitting, and the tabs that are made to look at what has changed.\<close>

definition root_event :: "bool \<Rightarrow> tui_event \<Rightarrow> 'p program \<Rightarrow> 'p program option" where
  "root_event consumed e s =
     (let (r, drains, ui) = tui_OnEvent consumed e (pg_ui s);
          s1 = s\<lparr>pg_ui := ui\<rparr>
      in do { s2 \<leftarrow> if drains then program_history HtCustom s1 else Some s1;
              if e = Custom \<or> e = F3 \<or> e = Typed ''3'' \<and> \<not> consumed then program_repeater RtCustom s2 else Some s2 })"

section \<open>Runs\<close>

text \<open>What the user and the frames do to the tabs, as opposed to what other threads do to their shared parts.\<close>

fun proxy_input :: "proxy_op \<Rightarrow> bool" where
  "proxy_input (PtIntercept i h host port r) \<longleftrightarrow> False"
| "proxy_input (PtRemove i) \<longleftrightarrow> False"
| "proxy_input (PtEntry tx) \<longleftrightarrow> False"
| "proxy_input _ \<longleftrightarrow> True"

fun history_input :: "history_event \<Rightarrow> bool" where
  "history_input (HtPush tx) \<longleftrightarrow> False"
| "history_input _ \<longleftrightarrow> True"

text \<open>The repeater's manager is called by its own tab and by the thread that sends.\<close>

fun repeater_input :: "repeater_event \<Rightarrow> bool" where
  "repeater_input (RtManager (RpFinish i ex)) \<longleftrightarrow> True"
| "repeater_input (RtManager p) \<longleftrightarrow> False"
| "repeater_input _ \<longleftrightarrow> True"

inductive program_step :: "'p llhttp \<Rightarrow> 'p program \<Rightarrow> 'p program \<Rightarrow> bool" for ll where
  service: "service_io ll (pg_service s) v \<Longrightarrow> program_step ll s (s\<lparr>pg_service := v\<rparr>)"
| proxy: "proxy_input p \<Longrightarrow> program_proxy p s = Some s' \<Longrightarrow> program_step ll s s'"
| history: "history_input e \<Longrightarrow> program_history e s = Some s' \<Longrightarrow> program_step ll s s'"
| send: "program_step ll s (send_history (sendToRepeater (seen_history s)) s)"
| repeater: "repeater_input e \<Longrightarrow> program_repeater e s = Some s' \<Longrightarrow> program_step ll s s'"
| decoder: "program_step ll s (s\<lparr>pg_decoder := decoder_run [d] (pg_decoder s)\<rparr>)"
| root: "root_event c e s = Some s' \<Longrightarrow> program_step ll s s'"

inductive program_reachable :: "'p llhttp \<Rightarrow> 'p program \<Rightarrow> bool" for ll where
  start: "program_reachable ll (Program host port)"
| step: "program_reachable ll s \<Longrightarrow> program_step ll s s' \<Longrightarrow> program_reachable ll s'"

section \<open>Runs of a tab\<close>

text \<open>A component that handles events one by one, or fails.\<close>

locale event_machine =
  fixes step :: "'e \<Rightarrow> 's \<Rightarrow> 's option" and run :: "'e list \<Rightarrow> 's \<Rightarrow> 's option"
  assumes run_Nil: "run [] s = Some s" and run_Cons: "run (e # es) s = Option.bind (step e s) (run es)"
begin

definition runs_to :: "'s \<Rightarrow> 's \<Rightarrow> bool" where
  "runs_to s s' \<longleftrightarrow> (\<exists>es. run es s = Some s')"

lemma run_append: "run (es @ fs) s = Option.bind (run es s) (run fs)"
proof (induction es arbitrary: s)
  case (Cons e es)
  thus ?case by (cases "step e s") (simp_all add: run_Cons)
qed (simp add: run_Nil)

lemma runs_refl: "runs_to s s"
  using run_Nil unfolding runs_to_def by blast

lemma runs_step: "step e s = Some s' \<Longrightarrow> runs_to s s'"
  unfolding runs_to_def by (intro exI [of _ "[e]"]) (simp add: run_Nil run_Cons)

lemma runs_trans: "runs_to a b \<Longrightarrow> runs_to b c \<Longrightarrow> runs_to a c"
  unfolding runs_to_def using run_append by (metis Option.bind.bind_lunit)

text \<open>A list of changes each of which is an event is a run.\<close>

lemma runs_fold: "(\<And>x s. step (ev x) s = Some (f x s)) \<Longrightarrow> runs_to s (fold f xs s)"
  by (induction xs arbitrary: s) (auto intro: runs_refl runs_trans [OF runs_step])

end

fun repeater_run :: "repeater_event list \<Rightarrow> repeater_tab \<Rightarrow> repeater_tab option" where
  "repeater_run [] s = Some s"
| "repeater_run (e # es) s = Option.bind (repeater_step e s) (repeater_run es)"

definition proxy_shown :: "proxy_op \<Rightarrow> proxy_tab \<Rightarrow> proxy_tab option" where
  "proxy_shown p s = map_option snd (proxy_step p s)"

definition proxy_runs :: "proxy_op list \<Rightarrow> proxy_tab \<Rightarrow> proxy_tab option" where
  "proxy_runs ps s = map_option snd (proxy_run ps s)"

interpretation history: event_machine history_step history_run
  by unfold_locales simp_all

interpretation repeater: event_machine repeater_step repeater_run
  by unfold_locales simp_all

interpretation proxy: event_machine proxy_shown proxy_runs
proof
  fix p ps and s :: proxy_tab
  show "proxy_runs (p # ps) s = Option.bind (proxy_shown p s) (proxy_runs ps)"
    by (cases "proxy_step p s") (auto simp: proxy_runs_def proxy_shown_def split: Option.bind_split option.split)
qed (simp add: proxy_runs_def)

lemmas tab_runs = history.runs_to_def repeater.runs_to_def proxy.runs_to_def

section \<open>What the parts do to each other\<close>

lemma on_net_simps [simp]:
  "pg_net (on_net f s) = f (pg_net s)" "sv_server (pg_service (on_net f s)) = sv_server (pg_service s)"
  "pg_proxy (on_net f s) = pg_proxy s" "pg_history (on_net f s) = pg_history s"
  "pg_repeater (on_net f s) = pg_repeater s" "pg_decoder (on_net f s) = pg_decoder s" "pg_ui (on_net f s) = pg_ui s"
  "pg_service (on_net f s) = (pg_service s)\<lparr>sv_net := f (pg_net s)\<rparr>"
  by (simp_all add: on_net_def)

lemma to_repeater_simps [simp]:
  "pg_service (to_repeater h p t r s) = pg_service s" "pg_proxy (to_repeater h p t r s) = pg_proxy s"
  "pg_history (to_repeater h p t r s) = pg_history s" "pg_decoder (to_repeater h p t r s) = pg_decoder s"
  "pg_repeater (to_repeater h p t r s) = manager_call (RpRequest h p t r) (pg_repeater s)"
  by (simp_all add: to_repeater_def manager_call_def split_beta del: rp_step.simps)

lemma to_repeater_runs: "repeater.runs_to (pg_repeater s) (pg_repeater (to_repeater h p t r s))"
  by (rule repeater.runs_step [of "RtManager (RpRequest h p t r)"]) simp

lemma decisions_managed: "decisions (map Managed es) = posts es"
  by (induction es rule: posts.induct) simp_all

lemma carry_out_simps:
  "pg_proxy (carry_out e s) = pg_proxy s" "pg_history (carry_out e s) = pg_history s" "pg_decoder (carry_out e s) = pg_decoder s"
  "pg_service (carry_out e s) = (pg_service s)\<lparr>sv_net := (pg_net s)\<lparr>nw_posted := nw_posted (pg_net s) @ decisions [e]\<rparr>\<rparr>"
  by (induction e s rule: carry_out.induct) simp_all

lemma carry_out_runs: "repeater.runs_to (pg_repeater s) (pg_repeater (carry_out e s))"
proof (cases e)
  case (Managed m)
  thus ?thesis using repeater.runs_refl by (cases m) simp_all
next
  case (ToRepeater h p t r)
  thus ?thesis using to_repeater_runs by (simp only: carry_out.simps)
qed

lemma carried:
  "pg_proxy (fold carry_out es s) = pg_proxy s" "pg_history (fold carry_out es s) = pg_history s"
  "pg_decoder (fold carry_out es s) = pg_decoder s"
  "pg_service (fold carry_out es s) = (pg_service s)\<lparr>sv_net := (pg_net s)\<lparr>nw_posted := nw_posted (pg_net s) @ decisions es\<rparr>\<rparr>"
proof (induction es arbitrary: s)
  case (Cons e es)
  have "decisions (e # es) = decisions [e] @ decisions es" using decisions_append [of "[e]" es] by simp
  { case 1 show ?case using Cons(1) [of "carry_out e s"] by (simp add: carry_out_simps)
  next case 2 show ?case using Cons(2) [of "carry_out e s"] by (simp add: carry_out_simps)
  next case 3 show ?case using Cons(3) [of "carry_out e s"] by (simp add: carry_out_simps)
  next case 4 show ?case using Cons(4) [of "carry_out e s"] \<open>decisions (e # es) = _\<close> by (simp add: carry_out_simps) }
qed simp_all

lemma carried_runs: "repeater.runs_to (pg_repeater s) (pg_repeater (fold carry_out es s))"
proof (induction es arbitrary: s)
  case (Cons e es)
  show ?case using repeater.runs_trans [OF carry_out_runs Cons] by simp
qed (simp add: repeater.runs_refl)

text \<open>The operation of the network that an event of the proxy tab is.\<close>

fun proxy_net :: "proxy_op \<Rightarrow> proxy_tab \<Rightarrow> 'p network \<Rightarrow> 'p network" where
  "proxy_net PtToggle t n = net_user (OpEnable (\<not> im_enabled (pt_manager t))) n"
| "proxy_net PtApply t n = net_edit (ParseRawHttpRequest (GetText (pt_editor t))) n"
| "proxy_net PtForward t n = net_user OpForward n"
| "proxy_net PtDrop t n = net_user OpDrop n"
| "proxy_net _ t n = n"

lemma render_keeps: "pt_Render b1 b2 t = Some t' \<Longrightarrow> pt_manager t' = pt_manager t \<and> pt_entries t' = pt_entries t"
proof -
  have "pt_manager (load_latest u) = pt_manager u" for u by (simp add: load_latest_def Let_def)
  moreover have "pt_entries (load_latest u) = pt_entries u" "pt_manager (load_intercepted u) = pt_manager u"
    "pt_entries (load_intercepted u) = pt_entries u" for u
    by (simp_all add: load_latest_def load_intercepted_def Let_def split: option.split)
  ultimately show "pt_Render b1 b2 t = Some t' \<Longrightarrow> ?thesis"
    by (auto simp: pt_Render_def Let_def split: if_splits bind_splits)
qed

lemma proxy_step_net:
  assumes "proxy_step p t = Some (es, t')" "proxy_input p" "pt_manager t = nw_manager n"
  shows "pt_entries t' = pt_entries t"
    "n\<lparr>nw_manager := pt_manager t', nw_posted := nw_posted n @ decisions es\<rparr> = proxy_net p t n"
proof -
  have "pt_entries t' = pt_entries t \<and> n\<lparr>nw_manager := pt_manager t', nw_posted := nw_posted n @ decisions es\<rparr> = proxy_net p t n"
  proof (cases p)
    case (PtRender b1 b2)
    thus ?thesis using assms render_keeps by auto
  next
    case PtToggle
    thus ?thesis using assms
      by (auto simp: press_toggle_def net_user_def decisions_managed isInterceptEnabled_def split_beta Let_def)
  next
    case PtApply
    thus ?thesis using assms
      by (auto simp: apply_edit_def net_edit_def peekCurrent_def replace_current_def split: option.split list.split)
  qed (use assms in \<open>auto simp: press_drop_def decide_button_def net_user_def decisions_managed split_beta Let_def
      press_copy_req_def press_copy_res_def split: if_splits\<close>)
  thus "pt_entries t' = pt_entries t"
    "n\<lparr>nw_manager := pt_manager t', nw_posted := nw_posted n @ decisions es\<rparr> = proxy_net p t n" by blast+
qed

lemma program_proxy_parts:
  assumes "program_proxy p s = Some s'" "proxy_input p"
  shows "\<exists>es. proxy_step p (seen_proxy s) = Some (es, seen_proxy s')"
    "pg_service s' = (pg_service s)\<lparr>sv_net := proxy_net p (seen_proxy s) (pg_net s)\<rparr>"
    "pg_history s' = pg_history s" "repeater.runs_to (pg_repeater s) (pg_repeater s')"
proof -
  from assms(1) obtain es t where t: "proxy_step p (seen_proxy s) = Some (es, t)"
    "s' = fold carry_out es (on_net (\<lambda>n. n\<lparr>nw_manager := pt_manager t\<rparr>) (s\<lparr>pg_proxy := t\<rparr>))"
    by (auto simp: program_proxy_def)
  have "pt_manager (seen_proxy s) = nw_manager (pg_net s)" by (simp add: seen_proxy_def)
  note net = proxy_step_net [OF t(1) assms(2) this]
  have "seen_proxy s' = t" using net(1) by (simp add: t(2) carried seen_proxy_def)
  thus "\<exists>es. proxy_step p (seen_proxy s) = Some (es, seen_proxy s')" using t(1) by blast
  show "pg_service s' = (pg_service s)\<lparr>sv_net := proxy_net p (seen_proxy s) (pg_net s)\<rparr>"
    unfolding net(2) [symmetric] by (simp add: t(2) carried)
  show "pg_history s' = pg_history s" by (simp add: t(2) carried)
  show "repeater.runs_to (pg_repeater s) (pg_repeater s')"
    using carried_runs [of "on_net (\<lambda>n. n\<lparr>nw_manager := pt_manager t\<rparr>) (s\<lparr>pg_proxy := t\<rparr>)" es] by (simp add: t(2))
qed

lemma proxy_net_steps: "service_steps ll v (v\<lparr>sv_net := proxy_net p t (sv_net v)\<rparr>)"
proof -
  have one: "service_step ll v w \<Longrightarrow> service_steps ll v w" for w by (rule service_steps.more [OF _ service_steps.none])
  have "user_op q \<Longrightarrow> service_steps ll v (v\<lparr>sv_net := net_user q (sv_net v)\<rparr>)" for q
    using one [OF service_step.user, of q] by (simp add: service_user_def)
  thus ?thesis using one [OF service_step.edit] service_steps.none by (cases p) simp_all
qed

text \<open>The history takes the queue whole or not at all, and only adds entries.\<close>

lemma history_step_queue:
  assumes "history_step e h = Some h'" "history_input e"
  shows "ht_queue h' = (if e = HtCustom then [] else ht_queue h)" "\<exists>txs. ht_entries h' = ht_entries h @ txs"
proof -
  have update: "ht_queue (updateActiveDetails u) = ht_queue u" "ht_entries (updateActiveDetails u) = ht_entries u" for u
    by (simp_all add: updateActiveDetails_def Let_def)
  show "ht_queue h' = (if e = HtCustom then [] else ht_queue h)" "\<exists>txs. ht_entries h' = ht_entries h @ txs"
    using assms update
    by (cases e; auto simp: drain_def ts_tryPopAll_all on_char_def copy_req_def copy_res_def Let_def split: if_splits bind_splits)+
qed

lemma send_history_simps [simp]:
  "pg_service (send_history c s) = pg_service s" "pg_proxy (send_history c s) = pg_proxy s"
  "pg_history (send_history c s) = pg_history s"
  by (simp_all add: send_history_def split: option.split)

lemma send_history_runs: "repeater.runs_to (pg_repeater s) (pg_repeater (send_history c s))"
  using to_repeater_runs repeater.runs_refl by (cases c) (auto simp: send_history_def simp del: to_repeater_simps)

lemma program_history_parts:
  assumes "program_history e s = Some s'" "history_input e"
  shows "history_step e (seen_history s) = Some (seen_history s')"
    "pg_service s' = (pg_service s)\<lparr>sv_net := if e = HtCustom then snd (net_drain (pg_net s)) else pg_net s\<rparr>"
    "pg_proxy s' = pg_proxy s" "repeater.runs_to (pg_repeater s) (pg_repeater s')"
proof -
  from assms(1) obtain h where h: "history_step e (seen_history s) = Some h"
    "s' = send_history (history_effects e (seen_history s)) (on_net (\<lambda>n. n\<lparr>nw_queue := ht_queue h\<rparr>) (s\<lparr>pg_history := h\<rparr>))"
    by (auto simp: program_history_def)
  have "seen_history s' = h" by (simp add: h(2) seen_history_def)
  thus "history_step e (seen_history s) = Some (seen_history s')" using h(1) by simp
  have "ht_queue h = (if e = HtCustom then [] else nw_queue (pg_net s))"
    using history_step_queue(1) [OF h(1) assms(2)] by (simp add: seen_history_def)
  thus "pg_service s' = (pg_service s)\<lparr>sv_net := if e = HtCustom then snd (net_drain (pg_net s)) else pg_net s\<rparr>"
    by (simp add: h(2) net_drain_def ts_tryPopAll_all)
  show "pg_proxy s' = pg_proxy s" by (simp add: h(2))
  show "repeater.runs_to (pg_repeater s) (pg_repeater s')"
    using send_history_runs [of "on_net (\<lambda>n. n\<lparr>nw_queue := ht_queue h\<rparr>) (s\<lparr>pg_history := h\<rparr>)"] by (simp add: h(2))
qed

lemma drain_steps: "service_steps ll v (v\<lparr>sv_net := if b then snd (net_drain (sv_net v)) else sv_net v\<rparr>)"
  using service_steps.more [OF service_step.drain service_steps.none] service_steps.none by (cases b) simp_all

text \<open>The io thread's operations on the manager and on the queue are events of the tabs that see them.\<close>

lemma deliver_runs:
  "proxy.runs_to (t\<lparr>pt_manager := nw_manager n\<rparr>) (t\<lparr>pt_manager := nw_manager (deliver ll k es n)\<rparr>)"
  "history.runs_to (h\<lparr>ht_queue := nw_queue n\<rparr>) (h\<lparr>ht_queue := nw_queue (deliver ll k es n)\<rparr>)"
proof (induction es arbitrary: n)
  case (Cons e es)
  have more: "deliver ll k (e # es) n = deliver ll k es (deliver1 ll k e n)" for n by (simp add: deliver_def)
  have p: "proxy.runs_to (t\<lparr>pt_manager := nw_manager n\<rparr>) (t\<lparr>pt_manager := nw_manager (deliver1 ll k e n)\<rparr>)" for n
    by (cases e) (auto simp: proxy_shown_def split_beta Let_def intro: proxy.runs_refl
        proxy.runs_step [of "PtRemove _"] proxy.runs_step [of "PtIntercept _ _ _ _ _"])
  have h: "history.runs_to (h\<lparr>ht_queue := nw_queue n\<rparr>) (h\<lparr>ht_queue := nw_queue (deliver1 ll k e n)\<rparr>)" for n
    by (cases e) (auto intro: history.runs_refl history.runs_step [of "HtPush _"])
  { case 1 show ?case unfolding more by (rule proxy.runs_trans [OF p Cons(1)])
  next case 2 show ?case unfolding more by (rule history.runs_trans [OF h Cons(2)]) }
qed (simp_all add: deliver_def proxy.runs_refl history.runs_refl)

lemma net_io_runs:
  "proxy.runs_to (t\<lparr>pt_manager := nw_manager n\<rparr>) (t\<lparr>pt_manager := nw_manager (net_io ll k b c n)\<rparr>)"
  "history.runs_to (h\<lparr>ht_queue := nw_queue n\<rparr>) (h\<lparr>ht_queue := nw_queue (net_io ll k b c n)\<rparr>)"
proof -
  let ?n = "n\<lparr>nw_conns := (nw_conns n)[k := c], nw_nextId := if b then nw_nextId n + 1 else nw_nextId n,
      nw_taken := if b then nw_taken n + 1 else nw_taken n\<rparr>"
  have "net_io ll k b c n = deliver ll k (added (conn_effects (nw_conns n ! k)) (conn_effects c)) ?n"
    by (simp add: net_io_def Let_def)
  thus "proxy.runs_to (t\<lparr>pt_manager := nw_manager n\<rparr>) (t\<lparr>pt_manager := nw_manager (net_io ll k b c n)\<rparr>)"
    "history.runs_to (h\<lparr>ht_queue := nw_queue n\<rparr>) (h\<lparr>ht_queue := nw_queue (net_io ll k b c n)\<rparr>)"
    using deliver_runs(1) [where n = ?n and t = t] deliver_runs(2) [where n = ?n and h = h] by simp_all
qed

lemma service_io_runs:
  assumes "service_io ll v v'"
  shows "proxy.runs_to (t\<lparr>pt_manager := nw_manager (sv_net v)\<rparr>) (t\<lparr>pt_manager := nw_manager (sv_net v')\<rparr>)"
    "history.runs_to (h\<lparr>ht_queue := nw_queue (sv_net v)\<rparr>) (h\<lparr>ht_queue := nw_queue (sv_net v')\<rparr>)"
proof -
  have decide: "proxy.runs_to (t\<lparr>pt_manager := nw_manager n\<rparr>) (t\<lparr>pt_manager := nw_manager (net_decide ll x n)\<rparr>)
      \<and> history.runs_to (h\<lparr>ht_queue := nw_queue n\<rparr>) (h\<lparr>ht_queue := nw_queue (net_decide ll x n)\<rparr>)" for x n
    using net_io_runs(1) [where t = t and n = "n\<lparr>nw_posted := remove1 x (nw_posted n)\<rparr>"]
      net_io_runs(2) [where h = h and n = "n\<lparr>nw_posted := remove1 x (nw_posted n)\<rparr>"]
    by (simp add: net_decide_def proxy.runs_refl history.runs_refl split: option.split)
  show "proxy.runs_to (t\<lparr>pt_manager := nw_manager (sv_net v)\<rparr>) (t\<lparr>pt_manager := nw_manager (sv_net v')\<rparr>)"
    "history.runs_to (h\<lparr>ht_queue := nw_queue (sv_net v)\<rparr>) (h\<lparr>ht_queue := nw_queue (sv_net v')\<rparr>)"
    using assms by (cases, simp_all add: with_net_def service_accept_def net_accept_def decide net_io_runs proxy.runs_refl history.runs_refl)+
qed

section \<open>Steps of the program are runs of its parts\<close>

definition parts_run :: "'p llhttp \<Rightarrow> 'p program \<Rightarrow> 'p program \<Rightarrow> bool" where
  "parts_run ll s s' \<longleftrightarrow> service_steps ll (pg_service s) (pg_service s') \<and> proxy.runs_to (seen_proxy s) (seen_proxy s')
     \<and> history.runs_to (seen_history s) (seen_history s') \<and> repeater.runs_to (pg_repeater s) (pg_repeater s')"

lemma parts_refl: "parts_run ll s s"
  by (simp add: parts_run_def service_steps.none proxy.runs_refl history.runs_refl repeater.runs_refl)

lemma parts_trans: "parts_run ll a b \<Longrightarrow> parts_run ll b c \<Longrightarrow> parts_run ll a c"
  unfolding parts_run_def using service_steps_trans proxy.runs_trans history.runs_trans repeater.runs_trans by blast

lemma entries_run: "proxy.runs_to (t\<lparr>pt_entries := xs\<rparr>) (t\<lparr>pt_entries := xs @ txs\<rparr>)"
proof (induction txs rule: rev_induct)
  case (snoc tx txs)
  have "proxy.runs_to (t\<lparr>pt_entries := xs @ txs\<rparr>) (t\<lparr>pt_entries := xs @ txs @ [tx]\<rparr>)"
    by (rule proxy.runs_step [of "PtEntry tx"]) (simp add: proxy_shown_def)
  with snoc show ?case by (rule proxy.runs_trans)
qed (simp add: proxy.runs_refl)

lemma entries_manager: "(t :: proxy_tab)\<lparr>pt_entries := es, pt_manager := m\<rparr> = t\<lparr>pt_manager := m, pt_entries := es\<rparr>"
  by simp

lemma service_parts: "service_io ll (pg_service s) v \<Longrightarrow> parts_run ll s (s\<lparr>pg_service := v\<rparr>)"
  using service_io_runs(1) [of ll "pg_service s" v "seen_proxy s"] service_io_runs(2) [of ll "pg_service s" v "seen_history s"]
    service_steps.more [OF service_step.io service_steps.none]
  by (simp add: parts_run_def seen_proxy_def seen_history_def repeater.runs_refl entries_manager)

lemma proxy_parts: "program_proxy p s = Some s' \<Longrightarrow> proxy_input p \<Longrightarrow> parts_run ll s s'"
proof -
  assume p: "program_proxy p s = Some s'" "proxy_input p"
  note parts = program_proxy_parts [OF p]
  have "nw_queue (proxy_net p t n) = nw_queue n" for t and n :: "'a network"
    by (cases p) (simp_all add: net_user_def net_edit_def split_beta)
  hence "seen_history s' = seen_history s" using parts(2,3) by (simp add: seen_history_def)
  moreover obtain es where "proxy_step p (seen_proxy s) = Some (es, seen_proxy s')" using parts(1) by blast
  hence "proxy.runs_to (seen_proxy s) (seen_proxy s')" by (intro proxy.runs_step [of p]) (simp add: proxy_shown_def)
  ultimately show ?thesis using parts(2,4) proxy_net_steps [of ll "pg_service s" p] by (simp add: parts_run_def history.runs_refl)
qed

lemma history_parts: "program_history e s = Some s' \<Longrightarrow> history_input e \<Longrightarrow> parts_run ll s s'"
proof -
  assume e: "program_history e s = Some s'" "history_input e"
  note parts = program_history_parts [OF e]
  obtain txs where "ht_entries (seen_history s') = ht_entries (seen_history s) @ txs"
    using history_step_queue(2) [OF parts(1) e(2)] by blast
  hence "seen_proxy s' = (seen_proxy s)\<lparr>pt_entries := pt_entries (seen_proxy s) @ txs\<rparr>"
    using parts(2,3) by (simp add: seen_proxy_def seen_history_def net_drain_def split_beta)
  hence "proxy.runs_to (seen_proxy s) (seen_proxy s')" 
    using entries_run [where t = "seen_proxy s" and xs = "pt_entries (seen_proxy s)" and txs = txs] by simp
  thus ?thesis using parts history.runs_step [OF parts(1)] drain_steps [of ll "pg_service s" "e = HtCustom"] by (simp add: parts_run_def)
qed

lemma repeater_parts: "program_repeater e s = Some s' \<Longrightarrow> parts_run ll s s'"
  using repeater.runs_step [of e "pg_repeater s"]
  by (auto simp: program_repeater_def parts_run_def seen_proxy_def seen_history_def service_steps.none proxy.runs_refl history.runs_refl)

lemma root_parts: "root_event c e s = Some s' \<Longrightarrow> parts_run ll s s'"
proof -
  assume ev: "root_event c e s = Some s'"
  obtain r drains ui where ui: "tui_OnEvent c e (pg_ui s) = (r, drains, ui)" by (cases "tui_OnEvent c e (pg_ui s)")
  let ?s1 = "s\<lparr>pg_ui := ui\<rparr>"
  have first: "parts_run ll s ?s1"
    by (simp add: parts_run_def seen_proxy_def seen_history_def service_steps.none proxy.runs_refl history.runs_refl repeater.runs_refl)
  from ev ui obtain s2 where s2: "(if drains then program_history HtCustom ?s1 else Some ?s1) = Some s2"
    "s2 = s' \<or> program_repeater RtCustom s2 = Some s'"
    by (auto simp: root_event_def bind_eq_Some_conv Let_def split: if_splits)
  have "parts_run ll ?s1 s2" using s2(1) history_parts [of HtCustom ?s1 s2] parts_refl by (auto split: if_splits)
  moreover have "parts_run ll s2 s'" using s2(2) repeater_parts parts_refl by blast
  ultimately show ?thesis using first parts_trans by blast
qed

lemma program_step_parts: "program_step ll s s' \<Longrightarrow> parts_run ll s s'"
proof (induction rule: program_step.induct)
  case (send s)
  thus ?case using send_history_runs
    by (simp add: parts_run_def seen_proxy_def seen_history_def service_steps.none proxy.runs_refl history.runs_refl)
next
  case (decoder s d)
  thus ?case
    by (simp add: parts_run_def seen_proxy_def seen_history_def service_steps.none proxy.runs_refl history.runs_refl repeater.runs_refl)
qed (auto intro: service_parts proxy_parts history_parts repeater_parts root_parts)

text \<open>The parts of a reachable program are reachable alone.\<close>

definition manager_start :: intercept_manager where
  "manager_start = setNotifyCallback True InterceptManager"

lemma program_start_parts:
  "service_reachable ll (pg_service (Program host port))" "seen_proxy (Program host port) = MakeProxyTab manager_start []"
  "seen_history (Program host port) = MakeHistoryTab [] []"
  "repeater.runs_to (MakeRepeaterTab rp_start) (pg_repeater (Program host port))"
proof -
  have "service_steps ll (Service host port False) (service_user (OpNotifyCallback True) (Service host port False))"
    by (rule service_steps.more [OF service_step.user service_steps.none]) simp
  thus "service_reachable ll (pg_service (Program host port))"
    unfolding service_reachable_def Program_def make_tabs_def Let_def by (simp del: service_steps.simps) blast
  show "seen_proxy (Program host port) = MakeProxyTab manager_start []"
    by (simp add: Program_def make_tabs_def seen_proxy_def service_user_def net_user_def Service_def Network_def MakeProxyTab_def MakeHistoryTab_def
        manager_start_def)
  show "seen_history (Program host port) = MakeHistoryTab [] []"
    by (simp add: Program_def make_tabs_def seen_history_def service_user_def net_user_def Service_def Network_def MakeHistoryTab_def)
  show "repeater.runs_to (MakeRepeaterTab rp_start) (pg_repeater (Program host port))"
    unfolding Program_def make_tabs_def Let_def program.simps
    by (rule repeater.runs_trans [OF repeater.runs_step [of "RtManager _"] repeater.runs_step [of "RtManager _"]]) simp_all
qed

lemma program_reachable_parts:
  "program_reachable ll s \<Longrightarrow> service_reachable ll (pg_service s) \<and> proxy.runs_to (MakeProxyTab manager_start []) (seen_proxy s)
     \<and> history.runs_to (MakeHistoryTab [] []) (seen_history s) \<and> repeater.runs_to (MakeRepeaterTab rp_start) (pg_repeater s)"
proof (induction rule: program_reachable.induct)
  case (start host port)
  thus ?case using program_start_parts proxy.runs_refl history.runs_refl by metis
next
  case (step s s')
  from program_step_parts [OF step.hyps(2)] step.IH show ?case
    unfolding parts_run_def using service_reachable_steps proxy.runs_trans history.runs_trans repeater.runs_trans by blast
qed

lemma program_net_inv:
  assumes "program_reachable ll s" "nw_taken (pg_net s) < 2 ^ 31"
  shows "network_inv ll (pg_net s)"
  using program_reachable_parts [OF assms(1)] service_reachable_inv [OF _ assms(2)] network_reachable_inv [OF _ assms(2)]
  unfolding service_inv_def by blast

lemma program_history_inv: "program_reachable ll s \<Longrightarrow> history_inv (seen_history s)"
proof -
  assume "program_reachable ll s"
  then obtain es where "history_run es (MakeHistoryTab [] []) = Some (seen_history s)"
    using program_reachable_parts unfolding tab_runs by blast
  thus ?thesis using history_run_keeps [OF history_inv_init, of es "[]" "[]"] by (auto simp: keeps_def)
qed

lemma program_taken: "program_step ll s s' \<Longrightarrow> nw_taken (pg_net s) \<le> nw_taken (pg_net s')"
  using program_step_parts service_steps_taken unfolding parts_run_def by blast

section \<open>Transactions\<close>

text \<open>The transactions that a connection has reported so far.\<close>

fun reported :: "session_effect list \<Rightarrow> http_transaction list" where
  "reported [] = []"
| "reported (OnTransaction tx # es) = tx # reported es"
| "reported (_ # es) = reported es"

lemma reported_append [simp]: "reported (xs @ ys) = reported xs @ reported ys"
  by (induction xs rule: reported.induct) simp_all

definition all_reported :: "'p conn list \<Rightarrow> http_transaction list \<Rightarrow> bool" where
  "all_reported cs txs \<longleftrightarrow> mset txs = (\<Sum>c\<leftarrow>cs. mset (reported (conn_effects c)))
     \<and> (\<forall>c \<in> set cs. subseq (reported (conn_effects c)) txs)"

lemma reported_change:
  assumes "all_reported cs txs" "k < length cs" "conn_effects c = conn_effects (cs ! k) @ es"
  shows "all_reported (cs[k := c]) (txs @ reported es)"
proof -
  have cs: "cs = take k cs @ cs ! k # drop (Suc k) cs" using assms(2) by (rule id_take_nth_drop)
  have "mset txs = (\<Sum>c\<leftarrow>take k cs @ cs ! k # drop (Suc k) cs. mset (reported (conn_effects c)))"
    using assms(1) cs by (simp add: all_reported_def)
  hence "mset (txs @ reported es) = (\<Sum>c\<leftarrow>cs[k := c]. mset (reported (conn_effects c)))"
    using assms(2,3) by (simp add: upd_conv_take_nth_drop add_ac)
  moreover have "subseq (reported (conn_effects d)) (txs @ reported es)" if "d \<in> set (cs[k := c])" for d
  proof -
    have "d = c \<or> d \<in> set cs" using that set_update_subset_insert [of cs k c] by blast
    thus ?thesis
    proof
      assume "d = c"
      moreover have "subseq (reported (conn_effects (cs ! k))) txs" using assms(1,2) by (simp add: all_reported_def)
      ultimately show ?thesis using assms(3) by (simp add: list_emb_append_mono)
    next
      assume "d \<in> set cs"
      thus ?thesis using assms(1) by (simp add: all_reported_def list_emb_append2 subseq_rev_drop_many)
    qed
  qed
  ultimately show ?thesis by (simp add: all_reported_def)
qed

lemma reported_new: "all_reported cs txs \<Longrightarrow> list_all (\<lambda>c. conn_effects c = []) ds \<Longrightarrow> all_reported (cs @ ds) txs"
proof -
  assume "all_reported cs txs" "list_all (\<lambda>c. conn_effects c = []) ds"
  moreover from this(2) have "(\<Sum>c\<leftarrow>ds. mset (reported (conn_effects c))) = {#}" by (induction ds) simp_all
  ultimately show ?thesis by (auto simp: all_reported_def list_all_iff)
qed

lemma start_effects: "ss_effects (session_start (Session ll b)) = []" "ms_effects (mitm_start (MitmSession ll h p)) = []"
  by (simp_all add: session_start_def start_defs async_start_def Session_def mitm_start_def mitm_connectUpstream_def
      mitm_resetTimer_def mitm_async_def MitmSession_def)

lemma deliver_queue:
  "nw_queue (deliver ll k es n) = nw_queue n @ reported es
   \<and> (\<exists>cs. nw_conns (deliver ll k es n) = nw_conns n @ cs \<and> list_all (\<lambda>c. conn_effects c = []) cs)"
proof (induction es arbitrary: n)
  case (Cons e es)
  have "deliver ll k (e # es) n = deliver ll k es (deliver1 ll k e n)" by (simp add: deliver_def)
  moreover have "nw_queue (deliver1 ll k e n) = nw_queue n @ reported [e]" by (cases e) (simp_all add: ts_push_def)
  moreover have "\<exists>cs. nw_conns (deliver1 ll k e n) = nw_conns n @ cs \<and> list_all (\<lambda>c. conn_effects c = []) cs"
    by (cases e) (simp_all add: start_effects)
  moreover have "reported (e # es) = reported [e] @ reported es" using reported_append [of "[e]" es] by simp
  ultimately show ?case using Cons [of "deliver1 ll k e n"] by auto
qed (simp add: deliver_def)

text \<open>A change of connection \<open>k\<close> reports exactly what it pushes.\<close>

lemma net_io_reported:
  assumes "all_reported (nw_conns n) (xs @ nw_queue n)" "k < length (nw_conns n)" "conn_effects c = conn_effects (nw_conns n ! k) @ es"
  shows "all_reported (nw_conns (net_io ll k t c n)) (xs @ nw_queue (net_io ll k t c n))"
proof -
  let ?n = "n\<lparr>nw_conns := (nw_conns n)[k := c], nw_nextId := if t then nw_nextId n + 1 else nw_nextId n,
      nw_taken := if t then nw_taken n + 1 else nw_taken n\<rparr>"
  have "net_io ll k t c n = deliver ll k es ?n" using assms(3) by (simp add: net_io_def Let_def)
  moreover obtain cs where "nw_queue (deliver ll k es ?n) = nw_queue n @ reported es"
    "nw_conns (deliver ll k es ?n) = (nw_conns n)[k := c] @ cs" "list_all (\<lambda>c. conn_effects c = []) cs"
    using deliver_queue [of ll k es ?n] by auto
  ultimately show ?thesis using reported_new [OF reported_change [OF assms]] by simp
qed

lemma service_io_reported:
  assumes "service_io ll v v'" "network_inv ll (sv_net v)" "all_reported (nw_conns (sv_net v)) (xs @ nw_queue (sv_net v))"
  shows "all_reported (nw_conns (sv_net v')) (xs @ nw_queue (sv_net v'))"
  using assms(1)
proof cases
  case accept
  thus ?thesis using reported_new [OF assms(3)] by (simp add: service_accept_def net_accept_def start_effects)
next
  case (complete k t c)
  have "conn_reachable ll (nw_conns (sv_net v) ! k)" using assms(2) complete(3) by (simp add: network_inv_def)
  from conn.step_contract [OF this complete(4)] obtain es where "conn_effects c = conn_effects (nw_conns (sv_net v) ! k) @ es" by blast
  thus ?thesis using net_io_reported [OF assms(3) complete(3)] complete(1) by (simp add: with_net_def)
next
  case (decide x)
  from posted_owner [OF assms(2) decide(3)] obtain k b where k: "nw_owner (sv_net v) (it_id (fst x)) = Some k"
    "k < length (nw_conns (sv_net v))" "conn_view (nw_conns (sv_net v) ! k) = (it_id (fst x), True, b)" .
  have "conn_reachable ll (nw_conns (sv_net v) ! k)" using assms(2) k(2) by (simp add: network_inv_def)
  from conn.decide_contract [OF this k(3)] obtain es where
    "conn_effects (conn_decide (snd x) (it_request (fst x)) (nw_conns (sv_net v) ! k)) = conn_effects (nw_conns (sv_net v) ! k) @ es" by blast
  thus ?thesis using net_io_reported [of "(sv_net v)\<lparr>nw_posted := remove1 x (nw_posted (sv_net v))\<rparr>" xs k] assms(3) k(1,2) decide(1)
    by (simp add: with_net_def net_decide_def)
qed (use assms(3) in simp)

definition recorded :: "'p program \<Rightarrow> bool" where
  "recorded s \<longleftrightarrow> all_reported (nw_conns (pg_net s)) (captured (seen_history s))"

lemma captured_seen: "captured (seen_history s) = ht_entries (pg_history s) @ nw_queue (pg_net s)"
  by (simp add: captured_def seen_history_def)

lemma history_recorded:
  assumes "program_history e s = Some s'" "history_input e" "recorded s" "history_inv (seen_history s)"
  shows "recorded s'" "history_inv (seen_history s')"
proof -
  note parts = program_history_parts [OF assms(1,2)]
  have "pushed [e] = []" using assms(2) by (cases e) simp_all
  hence "history_inv (seen_history s') \<and> captured (seen_history s') = captured (seen_history s)"
    using history_step_keeps [OF assms(4), of e] parts(1) by (simp add: keeps_def)
  moreover have "nw_conns (pg_net s') = nw_conns (pg_net s)" using parts(2) by (simp add: net_drain_def split_beta)
  ultimately show "recorded s'" "history_inv (seen_history s')" using assms(3) by (simp_all add: recorded_def)
qed

lemma recorded_cong:
  "recorded s \<Longrightarrow> nw_conns (pg_net s') = nw_conns (pg_net s) \<Longrightarrow> nw_queue (pg_net s') = nw_queue (pg_net s) \<Longrightarrow> pg_history s' = pg_history s
     \<Longrightarrow> recorded s'"
  by (simp add: recorded_def captured_seen)

lemma proxy_net_frame: "nw_conns (proxy_net p t n) = nw_conns n" "nw_queue (proxy_net p t n) = nw_queue n"
  by (cases p; simp add: net_user_def net_edit_def split_beta)+

lemma program_repeater_frame: "program_repeater e s = Some s' \<Longrightarrow> pg_service s' = pg_service s \<and> pg_history s' = pg_history s"
  by (auto simp: program_repeater_def)

lemma root_recorded:
  assumes "root_event c e s = Some s'" "recorded s" "history_inv (seen_history s)"
  shows "recorded s'"
proof -
  obtain r drains ui where ui: "tui_OnEvent c e (pg_ui s) = (r, drains, ui)" by (cases "tui_OnEvent c e (pg_ui s)")
  let ?s1 = "s\<lparr>pg_ui := ui\<rparr>"
  have first: "recorded ?s1" "history_inv (seen_history ?s1)"
    using assms(2,3) by (simp_all add: recorded_def seen_history_def)
  from assms(1) ui obtain s2 where s2: "(if drains then program_history HtCustom ?s1 else Some ?s1) = Some s2"
    "s2 = s' \<or> program_repeater RtCustom s2 = Some s'"
    by (auto simp: root_event_def bind_eq_Some_conv Let_def split: if_splits)
  have "recorded s2" using s2(1) first history_recorded(1) [of HtCustom ?s1 s2] by (auto split: if_splits)
  thus ?thesis using s2(2) program_repeater_frame [of RtCustom s2 s'] recorded_cong [of s2 s'] by auto
qed

lemma program_step_recorded:
  assumes "program_step ll s s'" "recorded s" "network_inv ll (pg_net s)" "history_inv (seen_history s)"
  shows "recorded s'"
  using assms
proof (induction rule: program_step.induct)
  case (service s v)
  thus ?case using service_io_reported [of ll "pg_service s" v "ht_entries (pg_history s)"] by (simp add: recorded_def captured_seen)
next
  case (proxy p s s')
  thus ?case using program_proxy_parts(2,3) [OF proxy(2,1)] by (intro recorded_cong [OF proxy(3)]) (simp_all add: proxy_net_frame)
next
  case (history e s s')
  thus ?case using history_recorded(1) [OF history(2,1,3,5)] by simp
next
  case (repeater e s s')
  thus ?case using program_repeater_frame [OF repeater(2)] by (intro recorded_cong [OF repeater(3)]) simp_all
next
  case (root c e s s')
  thus ?case using root_recorded [OF root(1,2,4)] by simp
next
  case (send s)
  thus ?case by (intro recorded_cong [OF send(1)]) simp_all
next
  case (decoder s d)
  thus ?case by (intro recorded_cong [OF decoder(1)]) simp_all
qed

lemma program_recorded: "program_reachable ll s \<Longrightarrow> nw_taken (pg_net s) < 2 ^ 31 \<Longrightarrow> recorded s"
proof (induction rule: program_reachable.induct)
  case (start host port)
  show ?case by (simp add: recorded_def captured_seen all_reported_def Program_def make_tabs_def service_user_def net_user_def Service_def
        Network_def MakeHistoryTab_def)
next
  case (step s s')
  have "nw_taken (pg_net s) < 2 ^ 31" using program_taken [OF step.hyps(2)] step.prems by linarith
  thus ?case using program_step_recorded [OF step.hyps(2)] step.IH program_net_inv [OF step.hyps(1)]
      program_history_inv [OF step.hyps(1)] by blast
qed

text \<open>An update event brings all of them into the history.\<close>

lemma custom_drains:
  obtains s' where "root_event c Custom s = Some s'" "ht_entries (pg_history s') = ht_entries (pg_history s) @ nw_queue (pg_net s)"
proof -
  have entries: "ht_entries (updateActiveDetails (drain (seen_history s))) = ht_entries (pg_history s) @ nw_queue (pg_net s)"
    by (simp add: updateActiveDetails_def drain_def ts_tryPopAll_all seen_history_def Let_def)
  have "tui_OnEvent c Custom (pg_ui s) = (False, True, pg_ui s)" by (simp add: tui_OnEvent_def)
  hence "root_event c Custom s = program_repeater RtCustom (on_net (\<lambda>n. n\<lparr>nw_queue := ht_queue (updateActiveDetails (drain (seen_history s)))\<rparr>)
      (s\<lparr>pg_history := updateActiveDetails (drain (seen_history s))\<rparr>))"
    by (simp add: root_event_def program_history_def send_history_def)
  then obtain s' where "root_event c Custom s = Some s'" "pg_history s' = updateActiveDetails (drain (seen_history s))"
    by (simp add: program_repeater_def)
  thus thesis using that entries by simp
qed

section \<open>Properties\<close>


text \<open>
  C6: The history records every transaction of every connection. In every state of the program, the entries of the
  history followed by what is still queued are, as a multiset, exactly what all connections, plain and TLS,
  open and closed, have reported, each once, and those of one connection are in the order it reported
  them; and the next update event makes them all entries.
\<close>
theorem history_records_all_connections:
  assumes "program_reachable ll s" "nw_taken (pg_net s) < 2 ^ 31"
  shows "mset (ht_entries (pg_history s) @ nw_queue (pg_net s)) = (\<Sum>c\<leftarrow>nw_conns (pg_net s). mset (reported (conn_effects c)))
    \<and> (\<forall>c \<in> set (nw_conns (pg_net s)). subseq (reported (conn_effects c)) (ht_entries (pg_history s) @ nw_queue (pg_net s)))
    \<and> (\<exists>s'. root_event consumed Custom s = Some s'
         \<and> ht_entries (pg_history s') = ht_entries (pg_history s) @ nw_queue (pg_net s))"
  using program_recorded [OF assms] custom_drains [of consumed s] unfolding recorded_def captured_seen all_reported_def by metis

text \<open>
  C2: Forward resumes the connection whose request is first, with the text of the editor, and no other. Pressing
  Forward while a request is first in the queue posts exactly one decision, for this request with the
  editor's text read back as its request; its id is that of a connection that waits; and when the io
  thread carries it out, this connection goes on with that request while all others are as they were.
\<close>
theorem forward_resumes_its_connection:
  assumes "program_reachable ll s" "nw_taken (pg_net s) < 2 ^ 31" "im_queue (nw_manager (pg_net s)) = item # q"
    and "program_proxy PtApply s = Some s1" "program_proxy PtForward s1 = Some s2"
  shows "let r = ParseRawHttpRequest (GetText (pt_editor (pg_proxy s))); x = (item\<lparr>it_request := r\<rparr>, Forward)
    in nw_posted (pg_net s2) = nw_posted (pg_net s) @ [x] \<and> im_queue (nw_manager (pg_net s2)) = q
      \<and> (\<exists>k b. k < length (nw_conns (pg_net s)) \<and> conn_view (nw_conns (pg_net s) ! k) = (it_id item, True, b)
           \<and> nw_conns (net_decide ll x (pg_net s2)) = (nw_conns (pg_net s))[k := conn_decide Forward r (nw_conns (pg_net s) ! k)])"
proof -
  define r where "r = ParseRawHttpRequest (GetText (pt_editor (pg_proxy s)))"
  let ?x = "(item\<lparr>it_request := r\<rparr>, Forward)"
  have s1: "pg_net s1 = net_edit r (pg_net s)"
    using program_proxy_parts(2) [OF assms(4)] by (simp add: seen_proxy_def r_def)
  have s2: "pg_net s2 = net_user OpForward (net_edit r (pg_net s))"
    using program_proxy_parts(2) [OF assms(5)] s1 by simp
  have post: "nw_posted (pg_net s2) = nw_posted (pg_net s) @ [?x]" "im_queue (nw_manager (pg_net s2)) = q"
    "nw_conns (pg_net s2) = nw_conns (pg_net s)" "nw_taken (pg_net s2) = nw_taken (pg_net s)"
    using assms(3) by (simp_all add: s2 net_user_def net_edit_def replace_current_def forwardCurrent_def decideCurrent_def
        notify_effect_def Let_def)
  have "program_reachable ll s2"
    using program_reachable.step [OF program_reachable.step [OF assms(1) program_step.proxy [OF _ assms(4)]]
        program_step.proxy [OF _ assms(5)]] by simp
  hence inv: "network_inv ll (pg_net s2)" using program_net_inv post(4) assms(2) by metis
  have "?x \<in> set (nw_posted (pg_net s2))" by (simp add: post(1))
  obtain k b qs where k: "k < length (nw_conns (pg_net s))"
    "conn_view (nw_conns (pg_net s) ! k) = (it_id item, True, b)"
    "net_decide ll ?x (pg_net s2) = (pg_net s2)\<lparr>nw_posted := remove1 ?x (nw_posted (pg_net s2)),
       nw_conns := (nw_conns (pg_net s))[k := conn_decide Forward r (nw_conns (pg_net s) ! k)], nw_queue := qs\<rparr>"
    by (rule net_decide_result [OF inv \<open>?x \<in> _\<close>, unfolded post(3) fst_conv snd_conv]) simp
  have "nw_conns (net_decide ll ?x (pg_net s2)) = (nw_conns (pg_net s))[k := conn_decide Forward r (nw_conns (pg_net s) ! k)]"
    unfolding k(3) by simp
  thus ?thesis unfolding Let_def r_def [symmetric] using post(1,2) k(1,2) by blast
qed

section \<open>Witnesses\<close>

text \<open>The program has started, and a client's request is held.\<close>

definition demo_program :: "ll_event list list program" where
  "demo_program =
     (let s = Program ''127.0.0.1'' 8080;
          v = service_accept demo_ll ((pg_service s)\<lparr>sv_server := demo_started\<rparr>)
      in s\<lparr>pg_service := with_net (net_io demo_ll 0 True (Plain (demo_reads (session_start (Session demo_ll True)))) (sv_net v)) v\<rparr>)"

lemma demo_program_reachable: "program_reachable demo_ll demo_program"
proof -
  let ?s0 = "Program ''127.0.0.1'' 8080 :: ll_event list list program"
  let ?begun = "(pg_service ?s0)\<lparr>sv_server := demo_started\<rparr>"
  let ?served = "service_accept demo_ll ?begun"
  have start: "sv_server (pg_service ?s0) = ProxyServer ''127.0.0.1'' 8080 False" "ps_sessions demo_started = []"
    "sv_net (pg_service ?s0) = Network\<lparr>nw_manager := manager_start\<rparr>"
    by (simp_all add: Program_def make_tabs_def service_user_def Service_def demo_started_def start_sessions ProxyServer_def net_user_def
        Network_def manager_start_def)
  have "service_io demo_ll (pg_service ?s0) ?begun"
    using start by (intro service_io.control) (simp_all add: demo_started_def server_step.start ProxyServer_def)
  moreover have "service_io demo_ll ?begun ?served"
    by (rule service_io.accept) (simp_all add: io_runs_def demo_server_fields)
  moreover have "service_io demo_ll ?served (with_net (net_io demo_ll 0 True (Plain (demo_reads (session_start (Session demo_ll True)))) (sv_net ?served)) ?served)"
  proof (rule service_io.complete)
    show "io_runs (sv_server ?served)" by (simp add: io_runs_def service_accept_def handleAccept_simps demo_server_fields)
    show "0 < length (nw_conns (sv_net ?served))" by (simp add: service_accept_def net_accept_def)
    show "conn_moves demo_ll (sint (nw_nextId (sv_net ?served))) True (nw_conns (sv_net ?served) ! 0)
        (Plain (demo_reads (session_start (Session demo_ll True))))"
      using demo_net_moves start(3) by (simp add: service_accept_def net_accept_def Network_def del: demo_reads.simps)
  qed
  ultimately have "program_reachable demo_ll (?s0\<lparr>pg_service := with_net (net_io demo_ll 0 True
      (Plain (demo_reads (session_start (Session demo_ll True)))) (sv_net ?served)) ?served\<rparr>)"
    using program_reachable.step [OF program_reachable.step [OF program_reachable.step [OF program_reachable.start program_step.service]
        program_step.service] program_step.service, of demo_ll "''127.0.0.1''" 8080 ?begun ?served] by simp
  thus ?thesis by (simp add: demo_program_def Let_def)
qed

lemma demo_program_state: "queue_ids (pg_net demo_program) = [1]" "nw_taken (pg_net demo_program) = 1"
  "nw_posted (pg_net demo_program) = []" "nw_conns (pg_net demo_program) = [Plain (demo_reads (session_start (Session demo_ll True)))]"
  "pg_proxy demo_program = MakeProxyTab InterceptManager []" "pg_history demo_program = MakeHistoryTab [] []"
  "nw_queue (pg_net demo_program) = []"
proof -
  obtain h p r where e: "ss_effects (demo_reads (session_start (Session demo_ll True))) = [InterceptRequest 1 h p r]"
    by (rule demo_read_effect)
  have net: "pg_net demo_program = deliver demo_ll 0 [InterceptRequest 1 h p r]
     (Network\<lparr>nw_manager := manager_start, nw_conns := [Plain (demo_reads (session_start (Session demo_ll True)))],
       nw_nextId := 2, nw_taken := 1\<rparr>)"
    using e demo_read_state(2) by (simp add: demo_program_def Program_def make_tabs_def service_user_def Service_def net_user_def with_net_def
        service_accept_def net_io_def net_accept_def Network_def manager_start_def Let_def added_def del: demo_reads.simps)
  show "queue_ids (pg_net demo_program) = [1]" "nw_taken (pg_net demo_program) = 1" "nw_posted (pg_net demo_program) = []"
    "nw_conns (pg_net demo_program) = [Plain (demo_reads (session_start (Session demo_ll True)))]" "nw_queue (pg_net demo_program) = []"
    unfolding net by (simp_all add: deliver_def queue_ids_def interceptRequest_def Let_def Network_def manager_start_def
        setNotifyCallback_def InterceptManager_def del: demo_reads.simps)
  show "pg_proxy demo_program = MakeProxyTab InterceptManager []" "pg_history demo_program = MakeHistoryTab [] []"
    by (simp_all add: Service_def Network_def demo_program_def Program_def make_tabs_def Let_def)
qed


lemma demo_first:
  obtains item where "im_queue (nw_manager (pg_net demo_program)) = [item]" "it_id item = 1"
  using demo_program_state(1) by (auto simp: queue_ids_def map_eq_Cons_conv)

lemma forward_resumes_its_connection_witness:
  "\<exists>s1 s2 k b. program_proxy PtApply demo_program = Some s1 \<and> program_proxy PtForward s1 = Some s2
     \<and> posted_ids (pg_net s2) = [1] \<and> conn_view (nw_conns (pg_net demo_program) ! k) = (1, True, b)"
proof -
  obtain item where item: "im_queue (nw_manager (pg_net demo_program)) = [item]" "it_id item = 1" by (rule demo_first)
  obtain s1 where s1: "program_proxy PtApply demo_program = Some s1" by (simp add: program_proxy_def)
  obtain s2 where s2: "program_proxy PtForward s1 = Some s2" by (simp add: program_proxy_def split_beta)
  have "nw_taken (pg_net demo_program) < 2 ^ 31" by (simp add: demo_program_state)
  note result = forward_resumes_its_connection [OF demo_program_reachable this item(1) s1 s2, unfolded Let_def demo_program_state(3)]
  hence "posted_ids (pg_net s2) = [1]" using item(2) by (simp add: posted_ids_def)
  moreover obtain k b where "conn_view (nw_conns (pg_net demo_program) ! k) = (it_id item, True, b)" using result by blast
  ultimately show ?thesis using s1 s2 item(2) by auto
qed

text \<open>The user drops the held request: the client is answered, and the transaction is recorded.\<close>

lemma dropped_reports:
  "ss_clientOpen c \<Longrightarrow> \<exists>tx. ss_effects (session_decide Drop r c) = ss_effects c @ [OnTransaction tx]"
  by (simp add: session_decide_def handleDecision_def sendErrorResponse_def session_simps resetTimer_def Let_def)

lemma history_records_all_connections_witness:
  "\<exists>s tx. program_reachable demo_ll s \<and> ht_entries (pg_history s) @ nw_queue (pg_net s) = [tx]"
proof -
  obtain item where item: "im_queue (nw_manager (pg_net demo_program)) = [item]" "it_id item = 1" by (rule demo_first)
  let ?c = "demo_reads (session_start (Session demo_ll True))" and ?x = "(item, Drop)"
  obtain s1 where s1: "program_proxy PtDrop demo_program = Some s1" by (simp add: program_proxy_def split_beta)
  let ?n = "net_user OpDrop (pg_net demo_program)" and ?s = "s1\<lparr>pg_service := with_net (net_decide demo_ll ?x (pg_net s1)) (pg_service s1)\<rparr>"
  have n: "pg_net s1 = ?n" "sv_server (pg_service s1) = sv_server (pg_service demo_program)"
    using program_proxy_parts(2) [OF s1] by simp_all
  have posted: "nw_posted ?n = [?x]" "nw_conns ?n = [Plain ?c]" "nw_taken ?n = 1"
    using item(1) demo_program_state by (simp_all add: net_user_def dropCurrent_def decideCurrent_def notify_effect_def Let_def del: demo_reads.simps)
  have r1: "program_reachable demo_ll s1"
    using program_reachable.step [OF demo_program_reachable program_step.proxy [OF _ s1]] by simp
  have inv: "network_inv demo_ll ?n" using program_net_inv [OF r1] n(1) posted(3) by simp
  have "service_io demo_ll (pg_service s1) (with_net (net_decide demo_ll ?x (pg_net s1)) (pg_service s1))"
    using n posted(1) by (intro service_io.decide) (simp_all add: io_runs_def demo_program_def with_net_def service_accept_def
      handleAccept_simps demo_server_fields Let_def)
  hence r2: "program_reachable demo_ll ?s" by (intro program_reachable.step [OF r1] program_step.service)
  obtain q where after: "net_decide demo_ll ?x ?n = ?n\<lparr>nw_posted := [], nw_conns := [Plain (session_decide Drop (it_request item) ?c)], nw_queue := q\<rparr>"
  proof (rule net_decide_result [OF inv, of ?x])
    fix k b q
    assume "k < length (nw_conns ?n)" "net_decide demo_ll ?x ?n = ?n\<lparr>nw_posted := remove1 ?x (nw_posted ?n),
       nw_conns := (nw_conns ?n)[k := conn_decide (snd ?x) (it_request (fst ?x)) (nw_conns ?n ! k)], nw_queue := q\<rparr>"
    thus thesis using that [of q] by (simp add: posted del: demo_reads.simps)
  qed (simp add: posted)
  have "ss_clientOpen ?c" using demo_read_state(1) by (simp add: session_view_def del: demo_reads.simps)
  then obtain tx where "ss_effects (session_decide Drop (it_request item) ?c) = ss_effects ?c @ [OnTransaction tx]"
    using dropped_reports by blast
  moreover obtain h p r where "ss_effects ?c = [InterceptRequest 1 h p r]" by (rule demo_read_effect)
  ultimately have "(\<Sum>c\<leftarrow>nw_conns (pg_net ?s). mset (reported (conn_effects c))) = {#tx#}"
    using after n(1) by (simp add: with_net_def del: demo_reads.simps)
  moreover have "nw_taken (pg_net ?s) < 2 ^ 31" using after n(1) posted(3) by (simp add: with_net_def)
  ultimately have "mset (ht_entries (pg_history ?s) @ nw_queue (pg_net ?s)) = {#tx#}"
    using history_records_all_connections [OF r2] by metis
  thus ?thesis using r2 by (metis mset_single_iff)
qed

end
