(* ===== verification/Drawing.thy ===== *)
theory Drawing
  imports ScrollableViewer
begin

text \<open>
  What is drawn: elements of the interface library as terms, built by the calls the sources make, the shared
  widgets of \<open>src/src/tui/Widgets.cpp\<close>, and the drawing parts of \<open>TextEditor::Render\<close> and
  \<open>ScrollableViewer::Render\<close>. What the library makes of an element, its layout and its escape sequences, is
  not modelled; a component of the library is the text it is given.
\<close>

section \<open>Elements\<close>

datatype color = Red | Green | Cyan | White | Black | Yellow | GreenLight | RedLight | CyanLight | YellowLight | GrayDark

datatype decorator =
    Dim | Bold | Color color | Bgcolor color | Flex | XflexShrink | Center | Frame | Yframe | VscrollIndicator
  | Reflect | HeightEqual nat | WidthEqual nat | BorderLight | BorderStyled color

datatype dom =
    Txt string
  | Formatted element
  | Widget string
  | Rule
  | LightRule
  | Filler
  | Hbox "dom list"
  | Column "dom list"
  | Window dom dom
  | Decor dom decorator

text \<open>Decorators applied with \<open>|\<close>, from left to right.\<close>

definition styled :: "dom \<Rightarrow> decorator list \<Rightarrow> dom" where
  "styled e ds = foldl Decor e ds"

text \<open>The texts of an element, in order; those on a given background.\<close>

fun element_texts :: "element \<Rightarrow> string list" where
  "element_texts (Line ts) = ts"
| "element_texts Separator = []"
| "element_texts (Vbox es) = concat (map element_texts es)"

fun shown :: "dom \<Rightarrow> string list" where
  "shown (Txt t) = [t]"
| "shown (Formatted e) = element_texts e"
| "shown (Widget t) = [t]"
| "shown Rule = []"
| "shown LightRule = []"
| "shown Filler = []"
| "shown (Hbox es) = concat (map shown es)"
| "shown (Column es) = concat (map shown es)"
| "shown (Window t e) = shown t @ shown e"
| "shown (Decor e d) = shown e"

definition text_of :: "dom \<Rightarrow> string" where
  "text_of e = concat (shown e)"

fun on_background :: "color \<Rightarrow> dom \<Rightarrow> string list" where
  "on_background c (Hbox es) = concat (map (on_background c) es)"
| "on_background c (Column es) = concat (map (on_background c) es)"
| "on_background c (Window t e) = on_background c t @ on_background c e"
| "on_background c (Decor e d) = (if d = Bgcolor c then shown e else on_background c e)"
| "on_background c _ = []"

lemma styled_simps [simp]: "styled e [] = e" "styled e (d # ds) = styled (Decor e d) ds"
  by (simp_all add: styled_def)

lemma shown_styled [simp]: "shown (styled e ds) = shown e"
  by (induction ds arbitrary: e) simp_all

section \<open>Shared widgets\<close>

definition Panel :: "string \<Rightarrow> dom \<Rightarrow> dom" where
  "Panel title content = Window (Txt ('' '' @ title @ '' '')) content"

definition StatusBar :: "string \<Rightarrow> string \<Rightarrow> dom" where
  "StatusBar left right =
     styled (Hbox [styled (Txt (''  '' @ left)) [Dim], Filler, styled (Txt (right @ ''  '')) [Dim]]) [HeightEqual 1]"

lemma shown_widgets [simp]:
  "shown (Panel t e) = ('' '' @ t @ '' '') # shown e"
  "shown (StatusBar l r) = [''  '' @ l, r @ ''  '']"
  by (simp_all add: Panel_def StatusBar_def)

section \<open>The editor's frame\<close>

text \<open>\<open>std::setw(4)\<close>, and the bar of the gutter in UTF-8.\<close>

definition pad_left :: "nat \<Rightarrow> string \<Rightarrow> string" where
  "pad_left w s = replicate (w - length s) (CHR '' '') @ s"

definition gutter :: "nat \<Rightarrow> string" where
  "gutter i = pad_left 4 (nat_to_string (i + 1)) @ [CHR 0x20, CHR 0xE2, CHR 0x94, CHR 0x82, CHR 0x20]"

definition highlight :: "string \<Rightarrow> string \<Rightarrow> string \<Rightarrow> dom" where
  "highlight before selected after =
     Hbox [Txt before, styled (Txt selected) [Bgcolor CyanLight, Color Black, Bold], Txt after]"

text \<open>The selected part of a line between the ordered ends of a selection, with what is around it.\<close>

definition selection_cut :: "(int \<times> int) \<times> (int \<times> int) \<Rightarrow> int \<Rightarrow> string \<Rightarrow> string \<times> string \<times> string" where
  "selection_cut e i line =
     (let start = (if i = fst (fst e) then clamp (int (length line)) (snd (fst e)) else 0);
          end = (if i = fst (snd e) then clamp (int (length line)) (snd (snd e)) else int (length line))
      in (substr line 0 (nat start),
          if start < end then substr line (nat start) (nat (end - start)) else [],
          if end < int (length line) then drop (nat end) line else []))"

definition cursor_line :: "nat \<Rightarrow> string \<Rightarrow> dom" where
  "cursor_line col line =
     Hbox [Txt (if col \<le> length line then substr line 0 col else line),
           styled (Txt (if col < length line then [line ! col] else '' '')) [Bgcolor White, Color Black, Bold],
           Txt (if col + 1 < length line then drop (col + 1) line else [])]"

definition editor_line :: "bool \<Rightarrow> text_editor \<Rightarrow> nat \<Rightarrow> string \<Rightarrow> dom" where
  "editor_line focused s i line =
     (let e = ordered_ends (te_selStart s) (te_selEnd s)
      in if te_hasSelection s \<and> fst (fst e) \<le> int i \<and> int i \<le> fst (snd e)
         then (case selection_cut e (int i) line of (before, selected, after) \<Rightarrow> highlight before selected after)
         else if focused \<and> i = te_row s then cursor_line (te_col s) line
         else Txt line)"

definition editor_row :: "bool \<Rightarrow> text_editor \<Rightarrow> nat \<Rightarrow> dom option" where
  "editor_row focused s i = do {
     line \<leftarrow> line_at (te_lines s) i;
     Some (Hbox [styled (Txt (gutter i)) [Dim, Color GrayDark], editor_line focused s i line])
   }"

fun editor_rows :: "bool \<Rightarrow> text_editor \<Rightarrow> nat list \<Rightarrow> dom list option" where
  "editor_rows focused s [] = Some []"
| "editor_rows focused s (i # is) = do { r \<leftarrow> editor_row focused s i; rs \<leftarrow> editor_rows focused s is; Some (r # rs) }"

definition editor_pos_info :: "text_editor \<Rightarrow> string" where
  "editor_pos_info s =
     (if te_status s \<noteq> [] then te_status s @ ''  '' else [])
     @ ''[Ln '' @ nat_to_string (te_row s + 1) @ '', Col '' @ nat_to_string (te_col s + 1)
     @ '' | Total '' @ nat_to_string (length (te_lines s)) @ '' lines]''"

definition frame_height :: "text_editor \<Rightarrow> nat" where
  "frame_height s = nat (max 2 (y_max (te_box s) - y_min (te_box s) + 1 - 2))"

definition editor_box :: "bool \<Rightarrow> text_editor \<Rightarrow> dom list \<Rightarrow> dom" where
  "editor_box focused s rows =
     (let content = styled (Column (if rows = [] then [styled (Txt '' (empty) '') [Dim]] else rows)) [Reflect, Frame, Flex];
          footer = Hbox [styled (Txt ('' '' @ (if te_title s = [] then ''Editor'' else te_title s))) [Bold, if focused then Color Cyan else Dim],
                         Filler, styled (Txt (editor_pos_info s @ '' '')) [Dim]]
      in styled (Column [content, LightRule, footer]) [if focused then BorderStyled Cyan else BorderLight])"

text \<open>A frame: the scrolling of \<open>Render\<close>, and the element drawn.\<close>

definition visible_rows :: "text_editor \<Rightarrow> nat list" where
  "visible_rows s = [te_scroll s ..< min (length (te_lines s)) (te_scroll s + frame_height s)]"

definition editor_frame :: "bool \<Rightarrow> box \<Rightarrow> text_editor \<Rightarrow> (text_editor \<times> dom) option" where
  "editor_frame focused b s =
     (let s1 = ensureCursorVisible (frame_height s) s
      in do {
        rows \<leftarrow> editor_rows focused s1 (visible_rows s1);
        Some (s1\<lparr>te_box := b\<rparr>, editor_box focused s1 rows)
      })"

section \<open>The viewer's frame\<close>

definition viewer_box :: "bool \<Rightarrow> viewer \<Rightarrow> dom list \<Rightarrow> string \<Rightarrow> dom" where
  "viewer_box focused s rows posInfo =
     (let content = styled (Column rows) [Reflect, VscrollIndicator, Frame, Flex];
          title = styled (Txt ('' '' @ (if vw_title s = [] then ''Viewer'' else vw_title s))) (if focused then [Bold, Color GreenLight] else [Dim]);
          hint = (if focused then '' ['' @ [CHR 0xE2, CHR 0x9C, CHR 0x93] @ '' Focused: Drag/Right-Click or Arrows to scroll] '' else []);
          boxElem = styled (Column [content, LightRule,
             styled (Hbox [title, styled (Txt hint) [Color YellowLight], Filler,
                         styled (Txt (posInfo @ '' '')) [if focused then Color GreenLight else Dim]]) [HeightEqual 1]]) [Flex]
      in if focused then styled boxElem [BorderStyled GreenLight] else boxElem)"

text \<open>A row in the selection is a \<open>Line\<close> of three texts in theory ScrollableViewer, the second one highlighted.\<close>

definition viewer_row :: "viewer \<Rightarrow> int \<Rightarrow> element \<Rightarrow> dom" where
  "viewer_row s i e =
     (let ends = ordered_ends (vw_selStart s) (vw_selEnd s)
      in if vw_hasSelection s \<and> fst (fst ends) \<le> i \<and> i \<le> fst (snd ends) \<and> i < int (length (vw_rawLines s))
         then (case e of Line [before, selected, after] \<Rightarrow> highlight before selected after | _ \<Rightarrow> Formatted e)
         else Formatted e)"

definition viewer_frame :: "bool \<Rightarrow> box \<Rightarrow> viewer \<Rightarrow> (viewer \<times> dom) option" where
  "viewer_frame focused b s = do {
     (s1, rows, posInfo) \<leftarrow> vw_Render b s;
     let is = [vw_scroll s1 .. vw_scroll s1 + int (length rows) - 1];
     Some (s1, viewer_box focused s1
       (if vw_lines s = [] then [styled (Txt ''(No content)'') [Dim]] else map2 (viewer_row s1) is rows) posInfo)
   }"

section \<open>Rows and their texts\<close>

lemma visible_height_eq: "frame_height s = nat (max 2 (y_max (te_box s) - y_min (te_box s) + 1 - 2))" "2 \<le> frame_height s"
  by (simp_all add: frame_height_def)

lemma Render_frame: "Render b s = (ensureCursorVisible (frame_height s) s)\<lparr>te_box := b\<rparr>"
  by (simp add: Render_def frame_height_def Let_def)

lemma editor_rows_Some:
  "list_all (\<lambda>i. i < length (te_lines s)) is \<Longrightarrow>
   editor_rows f s is = Some (map (\<lambda>i. Hbox [styled (Txt (gutter i)) [Dim, Color GrayDark], editor_line f s i (te_lines s ! i)]) is)"
  by (induction "is") (simp_all add: editor_row_def line_at_def)

lemma editor_frame_eq:
  fixes s :: text_editor and f :: bool
  defines "s1 \<equiv> ensureCursorVisible (frame_height s) s"
  shows "editor_frame f b s = Some (Render b s, editor_box f s1
     (map (\<lambda>i. Hbox [styled (Txt (gutter i)) [Dim, Color GrayDark], editor_line f s1 i (te_lines s ! i)]) (visible_rows s1)))"
proof -
  have "te_lines s1 = te_lines s" by (simp add: s1_def)
  moreover have "list_all (\<lambda>i. i < length (te_lines s1)) (visible_rows s1)" by (simp add: visible_rows_def list_all_iff)
  ultimately show ?thesis
    using editor_rows_Some [of s1 "visible_rows s1" f] by (simp add: editor_frame_def Render_frame Let_def s1_def)
qed

lemma ensure_fields [simp]:
  "te_hasSelection (ensureCursorVisible h s) = te_hasSelection s" "te_selStart (ensureCursorVisible h s) = te_selStart s"
  "te_selEnd (ensureCursorVisible h s) = te_selEnd s" "te_box (ensureCursorVisible h s) = te_box s"
  by (simp_all add: ensureCursorVisible_def Let_def)

text \<open>The row of the cursor is among those drawn.\<close>

lemma cursor_is_drawn:
  assumes "cursor_inv s"
  shows "te_row s \<in> set (visible_rows (ensureCursorVisible (frame_height s) s))"
proof -
  let ?s = "ensureCursorVisible (frame_height s) s"
  have "frame_height ?s = frame_height s" by (simp add: frame_height_def ensureCursorVisible_def Let_def)
  moreover have "te_scroll ?s \<le> te_row s" "te_row s < te_scroll ?s + frame_height s"
    using assms visible_height_eq(2) [of s] by (auto simp: ensureCursorVisible_def cursor_inv_def Let_def)
  ultimately show ?thesis using assms by (simp add: visible_rows_def cursor_inv_def)
qed

lemma ordered_ends_cases: "fst (fst (ordered_ends a b)) < fst (snd (ordered_ends a b))
    \<or> fst (fst (ordered_ends a b)) = fst (snd (ordered_ends a b)) \<and> snd (fst (ordered_ends a b)) \<le> snd (snd (ordered_ends a b))"
  by (auto simp: ordered_ends_def)

lemma cut_parts:
  assumes "fst (fst e) < fst (snd e) \<or> fst (fst e) = fst (snd e) \<and> snd (fst e) \<le> snd (snd e)"
  shows "case selection_cut e i line of (a, m, z) \<Rightarrow> a @ m @ z = line"
proof -
  define start where "start = (if i = fst (fst e) then clamp (int (length line)) (snd (fst e)) else 0)"
  define stop where "stop = (if i = fst (snd e) then clamp (int (length line)) (snd (snd e)) else int (length line))"
  have b: "0 \<le> start" "start \<le> stop" "stop \<le> int (length line)"
    using assms by (auto simp: start_def stop_def clamp_def)
  define m where "m = nat start"
  define k where "k = nat (stop - start)"
  have n: "start = int m" "stop = int (m + k)" using b by (simp_all add: m_def k_def)
  have "m + k \<le> length line" using b n by simp
  hence "take m line @ take k (drop m line) @ drop (m + k) line = line"
    by (metis append.assoc append_take_drop_id take_add)
  thus ?thesis
    using n \<open>m + k \<le> length line\<close> by (auto simp: selection_cut_def Let_def start_def [symmetric] stop_def [symmetric] substr_def nat_int_add)
qed

definition in_selection :: "text_editor \<Rightarrow> nat \<Rightarrow> bool" where
  "in_selection s i \<longleftrightarrow> te_hasSelection s \<and> fst (fst (ordered_ends (te_selStart s) (te_selEnd s))) \<le> int i
     \<and> int i \<le> fst (snd (ordered_ends (te_selStart s) (te_selEnd s)))"

text \<open>Behind the end of its line, the cursor is a blank.\<close>

definition cursor_blank :: "bool \<Rightarrow> text_editor \<Rightarrow> nat \<Rightarrow> bool" where
  "cursor_blank focused s i \<longleftrightarrow>
     focused \<and> i = te_row s \<and> te_col s = length (te_lines s ! i) \<and> \<not> in_selection s i"

lemma editor_line_text:
  assumes "cursor_inv s"
  shows "text_of (editor_line f s i (te_lines s ! i)) = te_lines s ! i @ (if cursor_blank f s i then '' '' else [])"
proof -
  let ?l = "te_lines s ! i" and ?e = "ordered_ends (te_selStart s) (te_selEnd s)"
  show ?thesis
  proof (cases "in_selection s i")
    case True
    obtain a m z where cut: "selection_cut ?e (int i) ?l = (a, m, z)" by (cases "selection_cut ?e (int i) ?l")
    have "a @ m @ z = ?l" using cut_parts [OF ordered_ends_cases, where a1 = "te_selStart s" and b1 = "te_selEnd s" and i = "int i" and line = ?l] cut by simp
    moreover have "editor_line f s i ?l = highlight a m z" using True cut by (simp add: editor_line_def in_selection_def Let_def)
    ultimately show ?thesis using True by (simp add: cursor_blank_def text_of_def highlight_def)
  next
    case False
    hence line: "editor_line f s i ?l = (if f \<and> i = te_row s then cursor_line (te_col s) ?l else Txt ?l)"
      by (auto simp: editor_line_def in_selection_def Let_def)
    show ?thesis
    proof (cases "f \<and> i = te_row s")
      case True
      hence col: "te_col s \<le> length ?l" using assms by (simp add: cursor_inv_def)
      have "take (te_col s) ?l @ ?l ! te_col s # drop (te_col s + 1) ?l = ?l" if "te_col s < length ?l"
        using id_take_nth_drop [OF that] by simp
      thus ?thesis using True False line col
        by (auto simp: cursor_blank_def text_of_def cursor_line_def substr_def le_less)
    qed (use False line in \<open>auto simp: cursor_blank_def text_of_def\<close>)
  qed
qed

section \<open>The selection\<close>

text \<open>A selection's rows exist: whatever changes the lines gives the selection up.\<close>

definition selection_inv :: "text_editor \<Rightarrow> bool" where
  "selection_inv s \<longleftrightarrow> (te_hasSelection s \<longrightarrow>
     0 \<le> fst (te_selStart s) \<and> fst (te_selStart s) < int (length (te_lines s))
     \<and> 0 \<le> fst (te_selEnd s) \<and> fst (te_selEnd s) < int (length (te_lines s)))"

lemma copies_selection [simp]:
  "selection_inv (clipboard_copy t s) = selection_inv s" "selection_inv (snd (CopyToClipboard b s)) = selection_inv s"
  "selection_inv (s\<lparr>te_status := t\<rparr>) = selection_inv s" "selection_inv (s\<lparr>te_box := bx\<rparr>) = selection_inv s"
  "selection_inv (s\<lparr>te_scroll := y\<rparr>) = selection_inv s" "selection_inv (s\<lparr>te_selecting := c\<rparr>) = selection_inv s"
  "selection_inv (ensureCursorVisible h s) = selection_inv s"
  by (simp_all add: selection_inv_def clipboard_copy_def CopyToClipboard_def ensureCursorVisible_def Let_def)

lemma mouse_release_selection:
  assumes "mouse_release row col s = Some s'" "selection_inv s" "row < length (te_lines s)"
  shows "selection_inv s'"
proof -
  have "selection_inv (s\<lparr>te_selecting := False, te_selEnd := (int row, int col)\<rparr>)"
    using assms(2,3) by (simp add: selection_inv_def)
  moreover have "selection_inv (t\<lparr>te_hasSelection := False\<rparr>)" for t by (simp add: selection_inv_def)
  ultimately show ?thesis using assms(1,2)
    by (auto simp: mouse_release_def Let_def split: if_splits Option.bind_splits)
qed

lemma on_mouse_selection:
  assumes "on_mouse copies x y button motion s = Some (r, s')" "cursor_inv s" "selection_inv s"
  shows "selection_inv s'"
proof -
  have row: "target_row s y < length (te_lines s)" using target_bounds(1) [OF assms(2)] .
  have copy: "selection_inv t" if "mouse_copy c rw cl s = Some t" for c rw cl t
    using that assms(3) by (auto simp: mouse_copy_def Let_def split: if_splits Option.bind_splits)
  have set: "selection_inv (s\<lparr>te_row := a, te_col := b, te_selEnd := (int (target_row s y), d)\<rparr>)"
    "selection_inv (s\<lparr>te_row := a, te_col := b, te_selStart := (int (target_row s y), d), te_selEnd := (int (target_row s y), d'),
       te_selecting := g, te_hasSelection := h\<rparr>)" for a b d d' g h
    using row assms(3) by (simp_all add: selection_inv_def)
  show ?thesis
    using assms(1,3) set copy mouse_release_selection [OF _ assms(3) row]
    by (auto simp: on_mouse_def Let_def split: if_splits Option.bind_splits)
qed

lemma editor_step_selection:
  assumes "editor_step p s = Some s'" "editor_inv s" "selection_inv s"
  shows "selection_inv s'"
proof (cases p)
  case (EdEvent f c e)
  then obtain r where ev: "OnEvent f c e s = Some (r, s')" using assms(1) by auto
  have "cursor_inv s" using assms(2) by (simp add: editor_inv_def)
  moreover have "selection_inv (t\<lparr>te_hasSelection := False\<rparr>)" for t by (simp add: selection_inv_def)
  ultimately show ?thesis using ev assms(3) on_mouse_selection
    by (cases e) (auto split: if_splits Option.bind_splits)
next
  case (EdRender b)
  thus ?thesis using assms by (auto simp: Render_frame)
next
  case (EdSetText t)
  thus ?thesis using assms by (auto simp: SetText_def selection_inv_def Let_def)
next
  case EdClear
  thus ?thesis using assms by (auto simp: Clear_def selection_inv_def)
next
  case (EdCopy b)
  thus ?thesis using assms by auto
qed

lemma editor_run_selection:
  "editor_run ps s = Some s' \<Longrightarrow> editor_inv s \<Longrightarrow> selection_inv s \<Longrightarrow> editor_inv s' \<and> selection_inv s'"
proof (induction ps arbitrary: s)
  case (Cons p ps)
  then obtain t where t: "editor_step p s = Some t" "editor_run ps t = Some s'" by (auto split: Option.bind_splits)
  moreover have "editor_inv t" using editor_step_inv [OF Cons.prems(2), of p] t(1) by simp
  ultimately show ?case using Cons.IH editor_step_selection [OF t(1) Cons.prems(2,3)] by blast
qed simp

lemma editor_reached: "\<exists>s. editor_run ps (TextEditor title) = Some s \<and> editor_inv s \<and> selection_inv s"
proof -
  have "selection_inv (TextEditor title)" by (simp add: selection_inv_def TextEditor_def)
  thus ?thesis using editor_run_inv [OF editor_inv_init] editor_run_selection [OF _ editor_inv_init] by blast
qed

text \<open>The selected text, row by row.\<close>

lemma selected_lines_cuts:
  assumes "0 \<le> r" "r \<le> r2" "r2 < int (length ls)"
  shows "selected_lines ls r1 c1 r2 c2 [r..r2] =
    Some (join_crlf (map (\<lambda>i. fst (snd (selection_cut ((r1, c1), (r2, c2)) i (ls ! nat i)))) [r..r2]))"
  using assms
proof (induction "nat (r2 - r)" arbitrary: r)
  case 0
  thus ?case by (simp add: line_at_def nat_less_iff selection_cut_def Let_def)
next
  case (Suc n)
  hence "r < r2" by simp
  hence "[r..r2] = r # [r + 1..r2]" "[r + 1..r2] = (r + 1) # [r + 1 + 1..r2]"
    by (intro upto_rec1; simp)+
  thus ?case using Suc.hyps(1) [of "r + 1"] Suc \<open>r < r2\<close>
    by (simp add: line_at_def nat_less_iff selection_cut_def Let_def)
qed

lemma selection_rows:
  assumes "0 \<le> r1" "r1 \<le> r2" "r2 < int n"
  shows "map nat [r1..r2] = filter (\<lambda>i. r1 \<le> int i \<and> int i \<le> r2) [0..<n]"
proof (rule sorted_distinct_set_unique)
  show "sorted (map nat [r1..r2])" by (simp add: sorted_map sorted_wrt_mono_rel [OF _ sorted_upto])
  show "distinct (map nat [r1..r2])" using assms by (auto simp: distinct_map inj_on_def)
  show "sorted (filter (\<lambda>i. r1 \<le> int i \<and> int i \<le> r2) [0..<n])" by (simp add: sorted_wrt_filter)
  show "set (map nat [r1..r2]) = set (filter (\<lambda>i. r1 \<le> int i \<and> int i \<le> r2) [0..<n])"
    using assms by (auto simp: image_iff intro!: bexI [of _ "int _"])
qed simp

lemma highlighted_line:
  "on_background CyanLight (editor_line f s i line) =
     (if in_selection s i then [fst (snd (selection_cut (ordered_ends (te_selStart s) (te_selEnd s)) (int i) line))] else [])"
  by (simp add: editor_line_def in_selection_def highlight_def cursor_line_def Let_def split_beta)

lemma GetSelectedText_rows:
  assumes "selection_inv s"
  shows "GetSelectedText s = Some (join_crlf (map (\<lambda>i. concat (on_background CyanLight (editor_line f s i (te_lines s ! i))))
     (filter (in_selection s) [0..<length (te_lines s)])))"
proof (cases "te_hasSelection s")
  case False
  hence "in_selection s = (\<lambda>_. False)" by (auto simp: in_selection_def)
  thus ?thesis using False by (simp add: GetSelectedText_def)
next
  case True
  obtain r1 c1 r2 c2 where e: "ordered_ends (te_selStart s) (te_selEnd s) = ((r1, c1), (r2, c2))" by (metis surj_pair)
  have b: "0 \<le> r1" "r1 \<le> r2" "r2 < int (length (te_lines s))"
    using assms True e by (auto simp: selection_inv_def ordered_ends_def split: if_splits)
  have sel: "in_selection s = (\<lambda>i. r1 \<le> int i \<and> int i \<le> r2)" using True e by (auto simp: in_selection_def)
  have "te_lines s \<noteq> []" "clamp (int (length (te_lines s)) - 1) r1 = r1" "clamp (int (length (te_lines s)) - 1) r2 = r2"
    using b by (auto simp: clamp_def)
  hence "GetSelectedText s = selected_lines (te_lines s) r1 c1 r2 c2 [r1..r2]"
    using True e by (auto simp: GetSelectedText_def ordered_ends_def Let_def split: if_splits prod.splits)
  also have "\<dots> = Some (join_crlf (map (\<lambda>i. fst (snd (selection_cut ((r1, c1), (r2, c2)) i (te_lines s ! nat i)))) [r1..r2]))"
    using b by (intro selected_lines_cuts)
  also have "map (\<lambda>i. fst (snd (selection_cut ((r1, c1), (r2, c2)) i (te_lines s ! nat i)))) [r1..r2]
      = map (\<lambda>i. fst (snd (selection_cut ((r1, c1), (r2, c2)) (int i) (te_lines s ! i)))) (map nat [r1..r2])"
    using b by simp
  also have "\<dots> = map (\<lambda>i. concat (on_background CyanLight (editor_line f s i (te_lines s ! i)))) (filter (in_selection s) [0..<length (te_lines s)])"
    unfolding selection_rows [OF b] sel by (simp add: highlighted_line e sel)
  finally show ?thesis .
qed

section \<open>Properties\<close>

text \<open>
  C38: The editor shows its text. In every state the user can bring it to, a frame draws consecutive lines, each
  with its number in front and nothing but the line behind it, save for the blank in which the cursor stands
  at the end of a line; the cursor's line is among them, and drawing changes only scrolling and box.
\<close>
theorem editor_frame_shows_text:
  "case editor_run ps (TextEditor title) of None \<Rightarrow> False
   | Some s \<Rightarrow>
      (let s1 = Render b s; is = [te_scroll s1 ..< min (length (te_lines s)) (te_scroll s1 + frame_height s)]
       in (\<exists>rows. editor_frame f b s = Some (s1, editor_box f s1 rows)
             \<and> map text_of rows = map (\<lambda>i. gutter i @ te_lines s ! i @ (if cursor_blank f s i then '' '' else [])) is)
          \<and> te_row s \<in> set is)"
proof -
  from editor_reached [of ps title] obtain s where s: "editor_run ps (TextEditor title) = Some s" "cursor_inv s"
    by (auto simp: editor_inv_def)
  let ?t = "ensureCursorVisible (frame_height s) s"
  let ?row = "\<lambda>i. Hbox [styled (Txt (gutter i)) [Dim, Color GrayDark], editor_line f ?t i (te_lines s ! i)]"
  have same: "editor_line f ?t i l = editor_line f s i l" for i l
    by (simp add: editor_line_def Let_def)
  have "frame_height ?t = frame_height s" by (simp add: frame_height_def ensureCursorVisible_def Let_def)
  hence vis: "visible_rows ?t = [te_scroll (Render b s) ..< min (length (te_lines s)) (te_scroll (Render b s) + frame_height s)]"
    by (simp add: visible_rows_def Render_frame)
  have "editor_box f (Render b s) rows = editor_box f ?t rows" for rows
    by (simp add: editor_box_def editor_pos_info_def Render_frame)
  hence "editor_frame f b s = Some (Render b s, editor_box f (Render b s) (map ?row (visible_rows ?t)))"
    using editor_frame_eq [of f b s] by simp
  moreover have "map text_of (map ?row (visible_rows ?t))
      = map (\<lambda>i. gutter i @ te_lines s ! i @ (if cursor_blank f s i then '' '' else [])) (visible_rows ?t)"
    using editor_line_text [OF s(2), of f] by (simp add: text_of_def same)
  ultimately show ?thesis
    using cursor_is_drawn [OF s(2)] unfolding s(1) option.case Let_def vis by blast
qed

text \<open>
  C37: What is highlighted is what is copied. In every state, the rows with a highlighted part are those of the
  selection, and the selected text, which releasing the mouse and the right button copy, is made of
  these parts, one line each.
\<close>
theorem selection_drawn_is_copied:
  "case editor_run ps (TextEditor title) of None \<Rightarrow> False
   | Some s \<Rightarrow> GetSelectedText s =
        Some (join_crlf (map (\<lambda>i. concat (on_background CyanLight (editor_line f s i (te_lines s ! i))))
          (filter (in_selection s) [0..<length (te_lines s)])))
      \<and> (\<forall>i. in_selection s i \<or> on_background CyanLight (editor_line f s i (te_lines s ! i)) = [])"
proof -
  from editor_reached [of ps title] obtain s where "editor_run ps (TextEditor title) = Some s" "selection_inv s" by blast
  thus ?thesis using GetSelectedText_rows [of s f] by (simp add: highlighted_line)
qed

text \<open>
  The mouse is one row and one column off: the box recorded is that of the rows alone, yet the handler
  subtracts the border's row; the gutter takes seven cells, yet the handler subtracts six. (Cells are
  counted as bytes that do not continue a character.)
\<close>

definition cells :: "string \<Rightarrow> nat" where
  "cells s = length (filter (\<lambda>c. byte_of c < 128 \<or> 192 \<le> byte_of c) s)"

lemma click_is_off:
  assumes "te_scroll s + k < length (te_lines s)" "0 < k" "j < length line"
  shows "target_row s (y_min (te_box s) + int k) = te_scroll s + k - 1"
    "target_col s line (x_min (te_box s) + 7 + int j) = j + 1"
  using assms by (auto simp: target_row_def target_col_def clamp_def)

lemma gutter_cells: "cells (gutter 0) = 7" "cells (gutter 9) = 7" "cells (gutter 999) = 7"
  by code_simp+

end
