(* ===== verification/Screens.thy ===== *)
theory Screens
  imports Drawing HistoryTab ProxyTab RepeaterTab Application
begin

text \<open>
  The frames of the whole interface: what each tab draws around its components (the renderers at the ends of
  \<open>ProxyTab.cpp\<close>, \<open>HistoryTab.cpp\<close>, \<open>RepeaterTab.cpp\<close> and \<open>DecoderTab.cpp\<close>) and the frame around the active tab
  (\<open>TuiApp.cpp\<close>). A renderer changes the tab's state as well; the state it leaves is the one of the theories
  of the tabs. A frame is one step here; its calls of a shared object, each under the object's lock, see
  one state. Buttons, inputs and menus are drawn by the library from the texts given.
\<close>

section \<open>The proxy tab\<close>

definition repeat_sign :: string where
  "repeat_sign = [CHR 0xE2, CHR 0x86, CHR 0xBB]"

definition plain_url :: "bool \<Rightarrow> string \<Rightarrow> http_request \<Rightarrow> string" where
  "plain_url https host r = (if https then ''https://'' else ''http://'') @ host @ rq_url r"

definition listen_text :: "config \<Rightarrow> string" where
  "listen_text cfg = cfg_listenHost cfg @ '':'' @ nat_to_string (unat (cfg_listenPort cfg))"

definition queued_text :: "nat \<Rightarrow> string" where
  "queued_text n = ''[ '' @ nat_to_string n @ (if n = 1 then '' request queued ]  '' else '' requests queued ]  '')"

definition waiting_panel :: dom where
  "waiting_panel = Column
     [Filler,
      styled (Txt (''  '' @ [CHR 0xE2, CHR 0x97, CHR 0x8F] @ '' Intercept is ON  '')) [Bold, Color RedLight, Center],
      styled (Txt []) [Center],
      styled (Txt ''Waiting for incoming HTTP/HTTPS browser requests...'') [Bold, Color White, Center],
      styled (Txt []) [Center],
      styled (Txt ''Any request sent through the proxy will pause here for editing & inspection.'') [Dim, Center],
      styled (Txt ''Edit request directly, click [ Forward ] to send, or [ Drop ] to reject.'') [Dim, Center],
      styled (Txt (''Click [ '' @ repeat_sign @ '' To Repeater ] to copy the request to Repeater.'')) [Dim, Center],
      Filler]"

definition paused_panel :: "intercepted_request \<Rightarrow> nat \<Rightarrow> dom \<Rightarrow> dom" where
  "paused_panel item n editor = Column
     [Hbox [styled (Txt (''  '' @ [CHR 0xE2, CHR 0x9A, CHR 0xA0] @ '' INTERCEPTED REQUEST PAUSED (Editable): '')) [Bold, Color RedLight],
            styled (Txt (rq_method (it_request item) @ '' '' @ plain_url (it_isHttps item) (it_host item) (it_request item)))
              [Bold, Color White, XflexShrink],
            Filler, styled (Txt (queued_text n)) [Bold, Color Yellow]],
      LightRule, styled editor [Flex]]"

definition intercept_panel :: "bool \<Rightarrow> box \<Rightarrow> proxy_tab \<Rightarrow> (proxy_tab \<times> dom) option" where
  "intercept_panel focused b s =
     (let s1 = load_intercepted s
      in case peekCurrent (pt_manager s1) of
           None \<Rightarrow> Some (s1, waiting_panel)
         | Some item \<Rightarrow> do {
             (e, d) \<leftarrow> editor_frame focused b (pt_editor s1);
             Some (s1\<lparr>pt_editor := e\<rparr>, paused_panel item (pendingCount (pt_manager s1)) d) })"

definition empty_panel :: "config \<Rightarrow> dom" where
  "empty_panel cfg = Column
     [Filler,
      styled (Txt ''No HTTP/HTTPS traffic captured yet.'') [Dim, Center],
      styled (Txt (''Configure your browser proxy to '' @ listen_text cfg)) [Dim, Center],
      styled (Txt (''CA Certificate download: http://burp/cert or http://'' @ listen_text cfg @ ''/cert'')) [Dim, Center],
      Filler]"

definition latest_panel :: "http_transaction \<Rightarrow> dom \<Rightarrow> dom \<Rightarrow> dom" where
  "latest_panel tx req res =
     (let method = (case tx_request tx of Some r \<Rightarrow> rq_method r | None \<Rightarrow> []);
          url = (case tx_request tx of Some r \<Rightarrow> plain_url (tx_is_https tx) (tx_host tx) r | None \<Rightarrow> []);
          status = (case tx_response tx of Some r \<Rightarrow> int_to_string (rs_statusCode r) | None \<Rightarrow> ''-'')
      in Column
        [Hbox [styled (Txt (''  Latest #'' @ int_to_string (tx_id tx) @ ''  '')) [Bold, Color Cyan],
               styled (Txt (method @ '' '' @ url)) [Color White, XflexShrink],
               Filler, styled (Txt (''Status: '' @ status @ ''  '')) [Bold, Color Green]],
         LightRule,
         styled (Hbox [styled req [Flex], LightRule, styled res [Flex]]) [Flex]])"

definition live_panel :: "config \<Rightarrow> bool \<Rightarrow> bool \<Rightarrow> box \<Rightarrow> box \<Rightarrow> proxy_tab \<Rightarrow> (proxy_tab \<times> dom) option" where
  "live_panel cfg f1 f2 b1 b2 s =
     (if pt_entries s = [] then Some (s, empty_panel cfg)
      else let s1 = load_latest s
           in do {
             (v1, d1) \<leftarrow> viewer_frame f1 b1 (pt_req s1);
             (v2, d2) \<leftarrow> viewer_frame f2 b2 (pt_res s1);
             Some (s1\<lparr>pt_req := v1, pt_res := v2\<rparr>, latest_panel (last (pt_entries s1)) d1 d2) })"

definition proxy_status :: "bool \<Rightarrow> bool \<Rightarrow> nat \<Rightarrow> dom" where
  "proxy_status on pending entries =
     StatusBar (if on then ''PROXY INTERCEPTING'' else ''PROXY STREAMING'')
       (if on then (if pending then ''Request awaiting forward/drop decision'' else ''Idle - waiting for browser traffic'')
        else if entries = 0 then ''Listening for traffic'' else ''Captured '' @ nat_to_string entries @ '' requests'')"

definition proxy_buttons :: "config \<Rightarrow> bool \<Rightarrow> bool \<Rightarrow> string \<Rightarrow> dom" where
  "proxy_buttons cfg on pending label =
     (let decide = (\<lambda>t c. styled (Widget t) (if on \<and> pending then [Color c, Bold] else if \<not> on then [Dim] else []))
      in Hbox [styled (Widget label) [Color (if on then Red else Green), Bold], LightRule,
           decide '' Forward '' GreenLight, decide '' Drop '' RedLight, LightRule,
           styled (Widget ('' '' @ repeat_sign @ '' To Repeater '')) [Color Cyan], LightRule,
           Widget '' Copy Req '', Widget '' Copy Res '', Filler,
           styled (Txt (''Proxy: '' @ listen_text cfg @ '' '')) [Dim]])"

definition proxy_screen ::
  "config \<Rightarrow> bool \<Rightarrow> bool \<Rightarrow> bool \<Rightarrow> box \<Rightarrow> box \<Rightarrow> proxy_tab \<Rightarrow> (proxy_tab \<times> dom) option" where
  "proxy_screen cfg fe f1 f2 b1 b2 s =
     (let on = isInterceptEnabled (pt_manager s);
          s1 = s\<lparr>pt_toggleLabel := (if on then '' Intercept: ON  '' else '' Intercept: OFF ''), pt_viewMode := (if on then 0 else 1)\<rparr>;
          pending = hasPending (pt_manager s1)
      in do {
        (s2, panel) \<leftarrow> (if on then intercept_panel fe b1 s1 else live_panel cfg f1 f2 b1 b2 s1);
        Some (s2, Column [proxy_buttons cfg on pending (pt_toggleLabel s1), LightRule, styled panel [Flex],
                          proxy_status on pending (length (pt_entries s2))])
      })"

section \<open>The history, the repeater and the decoder\<close>

definition history_screen :: "bool \<Rightarrow> bool \<Rightarrow> box \<Rightarrow> box \<Rightarrow> history \<Rightarrow> (history \<times> dom) option" where
  "history_screen f1 f2 b1 b2 s =
     (let s1 = updateActiveDetails s;
          selected = (if ht_entries s1 = [] then ''0 / 0''
                      else int_to_string (ht_selected s1 + 1) @ '' / '' @ nat_to_string (length (ht_entries s1)))
      in do {
        (v1, d1) \<leftarrow> viewer_frame f1 b1 (ht_req s1);
        (v2, d2) \<leftarrow> viewer_frame f2 b2 (ht_res s1);
        let left = styled (Column
              [styled (Txt '' Captured Transactions '') [Bold, Color CyanLight], LightRule,
               styled (Column (map Widget (ht_labels s1))) [VscrollIndicator, Frame, Flex]]) [Flex];
        let detail = styled (Column
              [Hbox [Widget ('' '' @ repeat_sign @ '' Send to Repeater [r] ''), LightRule, Widget '' Copy Req [y] '', Widget '' Copy Res [c] '',
                     Filler, styled (Txt (''Selected: '' @ selected @ '' '')) [Dim]],
               LightRule, styled d1 [Flex], LightRule, styled d2 [Flex]]) [Flex];
        Some (s1\<lparr>ht_req := v1, ht_res := v2\<rparr>,
          Column [styled (Hbox [styled left [WidthEqual 58], LightRule, styled detail [Flex]]) [Flex],
                  StatusBar ''History Active'' ''Navigate list: Tab/Arrows | Send to Repeater: [r] | Copy: [y]/[c]''])
      })"

definition target_bar :: "repeater_tab \<Rightarrow> dom" where
  "target_bar s =
     (let m = sy_manager (rt_system s); sending = rp_isSending m
      in Hbox [styled (Txt '' Target: '') [Bold],
           styled (Txt (if rt_isHttps s then ''https://'' else ''http://'')) [Color Cyan],
           styled (Widget (rt_host s)) [WidthEqual 24, BorderLight], styled (Txt '' : '') [Bold],
           styled (Widget (rt_port s)) [WidthEqual 7, BorderLight], LightRule, Widget '' HTTPS'', LightRule,
           styled (Widget '' Send '') [Color (if sending then Yellow else GreenLight), Bold], LightRule,
           Widget '' Copy Req '', Widget '' Copy Res '', Filler,
           styled (Txt (if sending then '' [SENDING...] '' else '' ['' @ rp_statusText m @ ''] ''))
             [Bold, Color (if sending then Yellow else Green)]])"

definition repeater_screen :: "bool \<Rightarrow> bool \<Rightarrow> box \<Rightarrow> box \<Rightarrow> repeater_tab \<Rightarrow> (repeater_tab \<times> dom) option" where
  "repeater_screen f1 f2 b1 b2 s =
     (let s1 = syncWithManager s
      in do {
        (e, d1) \<leftarrow> editor_frame f1 b1 (rt_editor s1);
        (v, d2) \<leftarrow> viewer_frame f2 b2 (rt_viewer s1);
        Some (s1\<lparr>rt_editor := e, rt_viewer := v\<rparr>,
          Column [target_bar s1, LightRule,
            styled (Hbox
              [styled (Column [styled (Txt '' Request Editor (Editable | Tab/Arrows | Type/Edit) '') [Bold, Color Cyan], styled d1 [Flex]]) [Flex],
               LightRule,
               styled (Column [styled (Txt '' Response Viewer (Scrollable | Up/Down/Wheel) '') [Bold, Color Green], styled d2 [Flex]]) [Flex]]) [Flex],
            StatusBar ''Repeater Active'' (rp_statusText (sy_manager (rt_system s1)))])
      })"

definition decoder_modes :: "string list" where
  "decoder_modes = [''Base64 Encode'', ''Base64 Decode'', ''URL Encode'', ''URL Decode'', ''Hex Encode'', ''Hex Decode'']"

definition decoder_screen :: "decoder \<Rightarrow> decoder \<times> dom" where
  "decoder_screen s =
     (let s1 = fst (dc_Render s)
      in (s1, Column
        [styled (Hbox [styled (Panel ''Transform Mode'' (Column (map Widget decoder_modes))) [WidthEqual 24],
                       styled (Panel ''Input Buffer'' (styled (Widget (dc_inputText s1)) [Flex])) [Flex]]) [HeightEqual 10],
         styled (Panel ''Output Result'' (styled (Formatted (snd (dc_Render s))) [VscrollIndicator, Yframe, Flex])) [Flex],
         StatusBar ''Decoder Active'' (''Transform count: '' @ nat_to_string (length (dc_inputText s1)))]))"

section \<open>The application\<close>

text \<open>Construction: whether the screen tracks the mouse, and the layout.\<close>

definition TuiApp :: "config \<Rightarrow> bool \<times> tui" where
  "TuiApp cfg = (cfg_enableMouse cfg, buildLayout)"

definition root_screen :: "config \<Rightarrow> dom list \<Rightarrow> tui \<Rightarrow> dom option" where
  "root_screen cfg tabs s =
     (if 0 \<le> ui_activeTab s \<and> nat (ui_activeTab s) < length tabs
      then Some (Column
        [styled (Txt '' BurpTUI '') [Bold, Center], Rule, Hbox (map Widget tabNames), Rule,
         styled (tabs ! nat (ui_activeTab s)) [Flex], Rule,
         Hbox [styled (Txt ''  q: Quit  |  1-4 / F1-F4: Tabs  |  Click/Tap Buttons Active  |  Drag text to select & copy  |  Right-click: Copy word'') [Dim],
               Filler, styled (Txt (''Proxy: '' @ listen_text cfg @ ''  '')) [Dim]]])
      else None)"

section \<open>Drawing and state\<close>

lemma viewer_frame_Some:
  "\<exists>d. viewer_frame f b v = Some (fst (the (vw_Render b v)), d)" "\<exists>v' r. vw_Render b v = Some (v', r)"
proof -
  obtain v' rows info where "vw_Render b v = Some (v', rows, info)" using vw_Render_rows [of b v] by blast
  thus "\<exists>d. viewer_frame f b v = Some (fst (the (vw_Render b v)), d)" "\<exists>v' r. vw_Render b v = Some (v', r)"
    by (simp_all add: viewer_frame_def)
qed

lemma viewer_frameE:
  obtains v' r d where "vw_Render b v = Some (v', r)" "viewer_frame f b v = Some (v', d)"
  using viewer_frame_Some(1) [of f b v] viewer_frame_Some(2) [of b v] that by auto

lemma editor_frameE:
  obtains d where "editor_frame f b e = Some (Render b e, d)"
  using editor_frame_eq [of f b e] that by blast

lemma load_intercepted_fields [simp]:
  "pt_manager (load_intercepted s) = pt_manager s" "pt_entries (load_intercepted s) = pt_entries s"
  by (simp_all add: load_intercepted_def split: option.split)

lemma load_latest_fields [simp]: "pt_entries (load_latest s) = pt_entries s"
  by (simp add: load_latest_def Let_def)

lemma proxy_screen_on:
  assumes "im_enabled (pt_manager s)" "im_queue (pt_manager s) = item # q"
    and "s1 = load_intercepted (s\<lparr>pt_toggleLabel := '' Intercept: ON  '', pt_viewMode := 0\<rparr>)"
    and "editor_frame fe b1 (pt_editor s1) = Some (e, d)"
  shows "proxy_screen cfg fe f1 f2 b1 b2 s = Some (s1\<lparr>pt_editor := e\<rparr>,
     Column [proxy_buttons cfg True True '' Intercept: ON  '', LightRule, styled (paused_panel item (length q + 1) d) [Flex],
             proxy_status True True (length (pt_entries s))])"
  using assms by (simp add: proxy_screen_def intercept_panel_def isInterceptEnabled_def hasPending_def peekCurrent_def
      pendingCount_def Let_def)

lemma proxy_screen_idle:
  assumes "im_enabled (pt_manager s)" "im_queue (pt_manager s) = []"
  shows "proxy_screen cfg fe f1 f2 b1 b2 s = Some (load_intercepted (s\<lparr>pt_toggleLabel := '' Intercept: ON  '', pt_viewMode := 0\<rparr>),
     Column [proxy_buttons cfg True False '' Intercept: ON  '', LightRule, styled waiting_panel [Flex],
             proxy_status True False (length (pt_entries s))])"
  using assms by (simp add: proxy_screen_def intercept_panel_def isInterceptEnabled_def hasPending_def peekCurrent_def Let_def)

lemma proxy_screen_empty:
  assumes "\<not> im_enabled (pt_manager s)" "pt_entries s = []"
  shows "proxy_screen cfg fe f1 f2 b1 b2 s = Some (s\<lparr>pt_toggleLabel := '' Intercept: OFF '', pt_viewMode := 1\<rparr>,
     Column [proxy_buttons cfg False (im_queue (pt_manager s) \<noteq> []) '' Intercept: OFF '', LightRule, styled (empty_panel cfg) [Flex],
             proxy_status False (im_queue (pt_manager s) \<noteq> []) 0])"
  using assms by (simp add: proxy_screen_def live_panel_def isInterceptEnabled_def hasPending_def Let_def)

lemma proxy_screen_live:
  assumes "\<not> im_enabled (pt_manager s)" "pt_entries s \<noteq> []"
    and "s1 = load_latest (s\<lparr>pt_toggleLabel := '' Intercept: OFF '', pt_viewMode := 1\<rparr>)"
    and "viewer_frame f1 b1 (pt_req s1) = Some (v1, d1)" "viewer_frame f2 b2 (pt_res s1) = Some (v2, d2)"
  shows "proxy_screen cfg fe f1 f2 b1 b2 s = Some (s1\<lparr>pt_req := v1, pt_res := v2\<rparr>,
     Column [proxy_buttons cfg False (im_queue (pt_manager s) \<noteq> []) '' Intercept: OFF '', LightRule,
             styled (latest_panel (last (pt_entries s)) d1 d2) [Flex],
             proxy_status False (im_queue (pt_manager s) \<noteq> []) (length (pt_entries s))])"
  using assms by (simp add: proxy_screen_def live_panel_def isInterceptEnabled_def hasPending_def Let_def)

lemmas proxy_screens = proxy_screen_on proxy_screen_idle proxy_screen_empty proxy_screen_live

lemma proxy_screen_state: "\<exists>s' d. proxy_screen cfg fe f1 f2 b1 b2 s = Some (s', d) \<and> pt_Render b1 b2 s = Some s'"
proof (cases "im_enabled (pt_manager s)")
  case on: True
  show ?thesis
  proof (cases "im_queue (pt_manager s)")
    case Nil
    thus ?thesis using on proxy_screen_idle [of s cfg fe f1 f2 b1 b2]
      by (simp add: pt_Render_def isInterceptEnabled_def hasPending_def Let_def)
  next
    case (Cons item q)
    let ?s = "load_intercepted (s\<lparr>pt_toggleLabel := '' Intercept: ON  '', pt_viewMode := 0\<rparr>)"
    obtain d where "editor_frame fe b1 (pt_editor ?s) = Some (Render b1 (pt_editor ?s), d)" by (rule editor_frameE)
    from proxy_screen_on [OF on Cons refl this, of cfg f1 f2 b2] Cons on show ?thesis
      by (simp add: pt_Render_def isInterceptEnabled_def hasPending_def Let_def)
  qed
next
  case off: False
  show ?thesis
  proof (cases "pt_entries s = []")
    case True
    thus ?thesis using off proxy_screen_empty [OF off True, of cfg fe f1 f2 b1 b2]
      by (simp add: pt_Render_def isInterceptEnabled_def Let_def)
  next
    case False
    let ?s = "load_latest (s\<lparr>pt_toggleLabel := '' Intercept: OFF '', pt_viewMode := 1\<rparr>)"
    obtain v1 r1 d1 where 1: "vw_Render b1 (pt_req ?s) = Some (v1, r1)" "viewer_frame f1 b1 (pt_req ?s) = Some (v1, d1)"
      by (rule viewer_frameE)
    obtain v2 r2 d2 where 2: "vw_Render b2 (pt_res ?s) = Some (v2, r2)" "viewer_frame f2 b2 (pt_res ?s) = Some (v2, d2)"
      by (rule viewer_frameE)
    from proxy_screen_live [OF off False refl 1(2) 2(2), of cfg fe] off False 1(1) 2(1) show ?thesis
      by (simp add: pt_Render_def isInterceptEnabled_def Let_def)
  qed
qed

lemma history_screen_state:
  "\<exists>s' d. history_screen f1 f2 b1 b2 s = Some (s', d) \<and> history_step (HtRender b1 b2) s = Some s'"
proof -
  let ?s = "updateActiveDetails s"
  obtain v1 r1 d1 where 1: "vw_Render b1 (ht_req ?s) = Some (v1, r1)" "viewer_frame f1 b1 (ht_req ?s) = Some (v1, d1)"
    by (rule viewer_frameE)
  obtain v2 r2 d2 where 2: "vw_Render b2 (ht_res ?s) = Some (v2, r2)" "viewer_frame f2 b2 (ht_res ?s) = Some (v2, d2)"
    by (rule viewer_frameE)
  show ?thesis by (simp add: history_screen_def Let_def 1 2)
qed

lemma repeater_screen_state:
  "\<exists>s' d. repeater_screen f1 f2 b1 b2 s = Some (s', d) \<and> repeater_step (RtRender b1 b2) s = Some s'"
proof -
  let ?s = "syncWithManager s"
  obtain d1 where 1: "editor_frame f1 b1 (rt_editor ?s) = Some (Render b1 (rt_editor ?s), d1)" by (rule editor_frameE)
  obtain v2 r2 d2 where 2: "vw_Render b2 (rt_viewer ?s) = Some (v2, r2)" "viewer_frame f2 b2 (rt_viewer ?s) = Some (v2, d2)"
    by (rule viewer_frameE)
  show ?thesis by (simp add: repeater_screen_def Let_def 1 2)
qed

text \<open>The frame around: any tab the hotkeys choose has a screen.\<close>

lemma root_screen_shows:
  assumes "0 \<le> ui_activeTab s" "ui_activeTab s < 4"
  shows "\<exists>d. root_screen cfg [d0, d1, d2, d3] s = Some d \<and> set (shown ([d0, d1, d2, d3] ! nat (ui_activeTab s))) \<subseteq> set (shown d)
    \<and> set tabNames \<subseteq> set (shown d)"
proof -
  have "concat (map shown (map Widget ts)) = ts" for ts by (induction ts) simp_all
  thus ?thesis using assms by (auto simp: root_screen_def nat_less_iff)
qed

section \<open>Properties\<close>

text \<open>
  Every tab can be drawn in every state, and drawing it leaves the state that the tab's own theory
  gives a frame: the elements shown add nothing to it.
\<close>
theorem screens_keep_state:
  "(\<exists>s' d. proxy_screen cfg fe f1 f2 b1 b2 s = Some (s', d) \<and> pt_Render b1 b2 s = Some s')
   \<and> (\<exists>s' d. history_screen f1 f2 b1 b2 h = Some (s', d) \<and> history_step (HtRender b1 b2) h = Some s')
   \<and> (\<exists>s' d. repeater_screen fe f2 b1 b2 r = Some (s', d) \<and> repeater_step (RtRender b1 b2) r = Some s')
   \<and> fst (decoder_screen c) = fst (dc_Render c)"
  using proxy_screen_state history_screen_state repeater_screen_state by (simp add: decoder_screen_def Let_def)

text \<open>
  C36: The proxy tab shows what its buttons act on. With interception on, the method and the address shown are
  those of the first request in the queue, the one that Forward and Drop decide, with the number of requests
  that wait; the editor drawn has this request loaded, and when it was not, holds its text. Without
  one, the tab says that it waits. With interception off it shows the latest transaction, if there is one.
\<close>
theorem proxy_screen_truthful:
  "\<exists>s' d. proxy_screen cfg fe f1 f2 b1 b2 s = Some (s', d) \<and> pt_manager s' = pt_manager s \<and>
     (if im_enabled (pt_manager s)
      then (case im_queue (pt_manager s) of
              [] \<Rightarrow> ''Idle - waiting for browser traffic  '' \<in> set (shown d)
            | item # q \<Rightarrow>
                {rq_method (it_request item) @ '' '' @ plain_url (it_isHttps item) (it_host item) (it_request item),
                 queued_text (length q + 1), ''Request awaiting forward/drop decision  ''} \<subseteq> set (shown d)
                \<and> (\<exists>e de. editor_frame fe b1 e = Some (pt_editor s', de) \<and> set (shown de) \<subseteq> set (shown d) \<and> GetText e = GetText (pt_editor s'))
                \<and> pt_lastInterceptId s' = it_id item
                \<and> (it_id item = pt_lastInterceptId s \<or> GetText (pt_editor s') =
                     normalize_crlf (FormatHttpRequestRaw (it_request item) (it_isHttps item) (it_host item))))
      else if pt_entries s = [] then ''Listening for traffic  '' \<in> set (shown d)
      else {''  Latest #'' @ int_to_string (tx_id (last (pt_entries s))) @ ''  '',
            ''Captured '' @ nat_to_string (length (pt_entries s)) @ '' requests  ''} \<subseteq> set (shown d))"
proof (cases "im_enabled (pt_manager s)")
  case on: True
  show ?thesis
  proof (cases "im_queue (pt_manager s)")
    case Nil
    thus ?thesis using on proxy_screen_idle [of s cfg fe f1 f2 b1 b2] by (simp add: proxy_status_def)
  next
    case (Cons item q)
    let ?s = "load_intercepted (s\<lparr>pt_toggleLabel := '' Intercept: ON  '', pt_viewMode := 0\<rparr>)"
    obtain d where d: "editor_frame fe b1 (pt_editor ?s) = Some (Render b1 (pt_editor ?s), d)" by (rule editor_frameE)
    have "GetText (Render b1 e) = GetText e" for e by (simp add: Render_frame GetText_def)
    moreover have "pt_lastInterceptId ?s = it_id item" "it_id item = pt_lastInterceptId s \<or>
        GetText (pt_editor ?s) = normalize_crlf (FormatHttpRequestRaw (it_request item) (it_isHttps item) (it_host item))"
      using Cons by (simp_all add: load_intercepted_def peekCurrent_def GetText_SetText)
    ultimately show ?thesis
      using proxy_screen_on [OF on Cons refl d, of cfg f1 f2 b2] Cons on d
      by (auto simp: proxy_status_def paused_panel_def)
  qed
next
  case off: False
  show ?thesis
  proof (cases "pt_entries s = []")
    case True
    thus ?thesis using off proxy_screen_empty [OF off True, of cfg fe f1 f2 b1 b2] by (simp add: proxy_status_def)
  next
    case False
    let ?s = "load_latest (s\<lparr>pt_toggleLabel := '' Intercept: OFF '', pt_viewMode := 1\<rparr>)"
    obtain v1 d1 where 1: "viewer_frame f1 b1 (pt_req ?s) = Some (v1, d1)" by (rule viewer_frameE)
    obtain v2 d2 where 2: "viewer_frame f2 b2 (pt_res ?s) = Some (v2, d2)" by (rule viewer_frameE)
    have "pt_manager ?s = pt_manager s" by (simp add: load_latest_def Let_def)
    thus ?thesis using proxy_screen_live [OF off False refl 1 2, of cfg fe] off False
      by (simp add: proxy_status_def latest_panel_def Let_def)
  qed
qed

end
