(* ===== verification/Expectations.thy ===== *)
theory Expectations
  imports Encoding CertCache InterceptManager Stores Utilities Network Screens
begin

text \<open>
  The repository's own expectations: the unit tests of \<open>src/tests\<close> that use no socket, file or thread, as
  lemmas about the models. A name is that of the test. Where a test works on the shared instance, the
  state is that of a new object; the certificates of the cache's tests come from a generator that answers
  with a non-empty pair, as the tests require of the real one.
\<close>

section \<open>\<open>test_encoding.cpp\<close>\<close>

lemma Base64RoundTrip: "base64Decode (base64Encode ''Hello, BurpTUI!'') = ''Hello, BurpTUI!''"
  by (rule b64.decode_encode)

lemma UrlRoundTrip: "urlDecode (urlEncode ''foo bar+baz=qux&x=1'') = ''foo bar+baz=qux&x=1''"
  by (rule url.decode_encode)

lemma HexRoundTrip: "hexDecode (hexEncode ''deadbeef'') = ''deadbeef''"
  by (rule hex.decode_encode)

section \<open>\<open>test_intercept_manager.cpp\<close>\<close>

lemmas im_eval = im_defs InterceptManager_def notify_effect_def Let_def isInterceptEnabled_def hasPending_def pendingCount_def
  peekCurrent_def

lemma InitialStateAndToggle:
  "\<not> isInterceptEnabled (snd (setInterceptEnabled False InterceptManager))
   \<and> isInterceptEnabled (snd (im_run [OpEnable False, OpEnable True] InterceptManager))
   \<and> \<not> isInterceptEnabled (snd (im_run [OpEnable False, OpEnable True, OpEnable False] InterceptManager))"
  by (simp add: im_eval)

lemma InterceptAndForward:
  fixes req :: http_request
  defines "s \<equiv> snd (im_run [OpEnable True, OpIntercept 101 False ''example.com'' 80 req] InterceptManager)"
  shows "hasPending s \<and> pendingCount s = 1
     \<and> map_option (\<lambda>i. (it_id i, it_host i, it_request i)) (peekCurrent s) = Some (101, ''example.com'', req)
     \<and> (case forwardCurrent s of (ok, es, s') \<Rightarrow> ok \<and> map (\<lambda>x. (it_id (fst x), snd x)) (posts es) = [(101, Forward)]
          \<and> \<not> hasPending s' \<and> pendingCount s' = 0)"
  by (simp add: s_def im_eval)

lemma InterceptAndDrop:
  fixes req :: http_request
  defines "s \<equiv> snd (im_run [OpEnable True, OpIntercept 102 True ''secure.example.com'' 443 req] InterceptManager)"
  shows "hasPending s \<and> (case dropCurrent s of (ok, es, s') \<Rightarrow>
     ok \<and> map (\<lambda>x. (it_id (fst x), snd x)) (posts es) = [(102, Drop)] \<and> \<not> hasPending s')"
  by (simp add: s_def im_eval)

lemma DisableAutoForwardsAll:
  fixes r1 r2 r3 :: http_request
  defines "s \<equiv> snd (im_run [OpEnable True, OpIntercept 201 False ''example.com'' 80 r1, OpIntercept 202 False ''example.com'' 80 r2,
     OpIntercept 203 False ''example.com'' 80 r3] InterceptManager)"
  shows "pendingCount s = 3 \<and> (case setInterceptEnabled False s of (es, s') \<Rightarrow>
     map snd (posts es) = [Forward, Forward, Forward] \<and> pendingCount s' = 0)"
  by (simp add: s_def im_eval)

lemma RemoveById:
  fixes req :: http_request
  defines "s \<equiv> snd (im_run [OpEnable True, OpIntercept 301 False ''example.com'' 80 req, OpIntercept 302 False ''example.com'' 80 req] InterceptManager)"
  shows "pendingCount s = 2 \<and> (case removeById 301 s of (es, s') \<Rightarrow>
     pendingCount s' = 1 \<and> map_option it_id (peekCurrent s') = Some 302)"
  by (simp add: s_def im_eval)

lemma NotifyCallbackFires:
  fixes req :: http_request
  shows "fst (im_run [OpEnable False, OpNotifyCallback True, OpEnable True] InterceptManager) = [Notify]
   \<and> length (filter (\<lambda>e. e = Notify) (fst (im_run [OpEnable False, OpNotifyCallback True, OpEnable True,
        OpIntercept 401 False ''example.com'' 80 req] InterceptManager))) = 2
   \<and> length (filter (\<lambda>e. e = Notify) (fst (im_run [OpEnable False, OpNotifyCallback True, OpEnable True,
        OpIntercept 401 False ''example.com'' 80 req, OpForward] InterceptManager))) = 3"
  by (simp add: im_eval)

section \<open>\<open>test_storage.cpp\<close>\<close>

lemma SaveAndList: "length (mem_list (mem_save e MemoryStore)) = 1"
  by (simp add: mem_list_def mem_save_def MemoryStore_def)

lemma Clear: "mem_list (mem_clear (mem_save e MemoryStore)) = []"
  by (simp add: mem_list_def mem_clear_def)

section \<open>\<open>test_cert_cache.cpp\<close>\<close>

lemma CachesCertificateAndSslContext:
  "cache_size (CertCache 10) = 0 \<and> \<not> contains ''example.com'' (CertCache 10)
   \<and> (case getEntry demo_gen demo_ssl ''example.com'' (CertCache 10) of (e1, c1) \<Rightarrow>
        certPem (fst e1) \<noteq> [] \<and> keyPem (fst e1) \<noteq> [] \<and> snd e1 \<noteq> None \<and> cache_size c1 = 1 \<and> contains ''example.com'' c1
        \<and> getEntry demo_gen demo_ssl ''example.com'' c1 = (e1, c1)
        \<and> fst (get_pair demo_gen demo_ssl ''example.com'' c1) = fst e1
        \<and> fst (getContext demo_gen demo_ssl ''example.com'' c1) = snd e1)"
  by code_simp

lemma EvictsOldestWhenMaxCapacityReached:
  "let get = (\<lambda>h c. snd (getEntry demo_gen demo_ssl h c));
       c2 = get ''site-b.com'' (get ''site-a.com'' (CertCache 2)); c3 = get ''site-c.com'' c2
   in cache_size c2 = 2 \<and> contains ''site-a.com'' c2 \<and> contains ''site-b.com'' c2
    \<and> cache_size c3 = 2 \<and> \<not> contains ''site-a.com'' c3 \<and> contains ''site-b.com'' c3 \<and> contains ''site-c.com'' c3"
  by code_simp

lemma LruTouchPromotesEntry:
  "let get = (\<lambda>h c. snd (getEntry demo_gen demo_ssl h c));
       c = get ''site-c.com'' (touch ''site-a.com'' (get ''site-b.com'' (get ''site-a.com'' (CertCache 2))))
   in contains ''site-a.com'' c \<and> \<not> contains ''site-b.com'' c \<and> contains ''site-c.com'' c"
  by code_simp

lemma ClearRemovesAllEntries:
  "let get = (\<lambda>h c. snd (getEntry demo_gen demo_ssl h c)); c = get ''site-2.com'' (get ''site-1.com'' (CertCache 5))
   in cache_size c = 2 \<and> cache_size (cache_clear c) = 0 \<and> \<not> contains ''site-1.com'' (cache_clear c)
    \<and> \<not> contains ''site-2.com'' (cache_clear c)"
  by code_simp

section \<open>\<open>test_repeater.cpp\<close>\<close>

definition quoted :: "string \<Rightarrow> string" where
  "quoted s = CHR 0x22 # s @ [CHR 0x22]"

lemma BasicRequest:
  defines "raw \<equiv> ''POST /api/v1/test HTTP/1.1'' @ crlf @ ''Host: example.com'' @ crlf @ ''Content-Type: application/json'' @ crlf @ crlf
     @ ''{'' @ quoted ''hello'' @ '':'' @ quoted ''world'' @ ''}''"
  shows "(let req = ParseRawHttpRequest raw
      in rq_method req = ''POST'' \<and> rq_url req = ''/api/v1/test'' \<and> rq_version req = ''HTTP/1.1''
       \<and> request_header req ''Host'' = ''example.com'' \<and> request_header req ''Content-Type'' = ''application/json''
       \<and> rq_body req = ''{'' @ quoted ''hello'' @ '':'' @ quoted ''world'' @ ''}'' \<and> serialize_request req = raw)"
  unfolding raw_def by code_simp

definition typed :: "string \<Rightarrow> editor_op list" where
  "typed t = map (\<lambda>c. EdEvent True True (CharacterEvent [c])) t"

lemma BasicEditing:
  "map_option GetText (editor_run [EdSetText ''Hello''] (TextEditor ''Test'')) = Some ''Hello''
   \<and> map_option GetText (editor_run (EdSetText ''Hello'' # EdEvent True True (KeyEvent End) # typed '' World'') (TextEditor ''Test''))
       = Some ''Hello World''
   \<and> map_option (\<lambda>e. (GetText e, length (te_lines e)))
       (editor_run (EdSetText ''Hello'' # EdEvent True True (KeyEvent End) # typed '' World'' @ EdEvent True True (KeyEvent Return) # typed ''Line 2'')
         (TextEditor ''Test'')) = Some (''Hello World'' @ crlf @ ''Line 2'', 2)"
  by code_simp

lemma StateAndTarget:
  "let raw = ''GET /test HTTP/1.1'' @ crlf @ ''Host: example.com'' @ crlf @ crlf;
       m = snd (setRequest ''example.com'' ''8443'' True raw RepeaterManager)
   in rp_host m = ''example.com'' \<and> rp_port m = ''8443'' \<and> rp_isHttps m \<and> rp_rawRequest m = raw"
  by (simp add: setRequest_def Let_def)

lemma SanitizeHostHttpsSuffix:
  "let req = ParseRawHttpRequest (''GET / HTTP/1.1'' @ crlf @ ''Host: duckduckgo.com (HTTPS)'' @ crlf @ ''User-Agent: BurpTUI'' @ crlf @ crlf)
   in request_header req ''Host'' = ''duckduckgo.com'' \<and> str_find (serialize_request req) ''(HTTPS)'' = None
      \<and> ends_with (serialize_request req) (crlf @ crlf)"
  by code_simp

lemma PreserveDoubleCRLF:
  "let t = ''GET / HTTP/1.1'' @ crlf @ ''Host: duckduckgo.com'' @ crlf @ ''User-Agent: BurpTUI'' @ crlf @ crlf;
       e = SetText t (TextEditor ''HTTP Request'')
   in GetText e = t \<and> ends_with (GetText e) (crlf @ crlf)"
  by code_simp

section \<open>\<open>test_event_queue.cpp\<close>, \<open>test_clipboard.cpp\<close>, \<open>test_ui_events.cpp\<close>\<close>

lemma BasicPushPop:
  "0 < n \<Longrightarrow> map_option eq_popped (Option.bind (eq_body (EqPush 42) (EventQueue n)) (eq_body EqPop)) = Some [42 :: int]"
  by (simp add: EventQueue_def)

lemma BasicCopy: "fst (clip_copy en []) = False"
  by (simp add: clip_copy_def)

lemma ProxyTabInstantiation: "\<exists>s d. proxy_screen Config f f1 f2 b1 b2 (MakeProxyTab InterceptManager []) = Some (s, d)"
  using screens_keep_state [of Config f f1 f2 b1 b2 "MakeProxyTab InterceptManager []"] by blast

lemma RepeaterTabInstantiation: "\<exists>s d. repeater_screen f f2 b1 b2 (MakeRepeaterTab rp_start) = Some (s, d)"
  using repeater_screen_state by blast

end
