(* ===== verification/Spec2Isabelle.thy ===== *)
theory Spec2Isabelle
  imports Encoding HttpMessage Queues InterceptManager CertCache HttpParser WriteQueue Session MitmSession TextEditor
    HttpFormatter ScrollableViewer RepeaterManager Stores Utilities HistoryTab ProxyTab RepeaterTab TuiApp Certificates
    ProxyServer Application Network Service Program Drawing Screens Expectations
begin

text \<open>
  A verification development for BurpTUI, a terminal HTTP/HTTPS interception proxy in C++. The sources are
  under \<open>src/src\<close>. The interface runs on the main thread, all sessions on one io thread, each request of
  the repeater on a thread of its own; they meet in mutex-protected queues and singletons.

  \<^bold>\<open>Parts and theories.\<close>
  \<^item> Prelude: the C++ library calls the sources use (string search, \<open>getline\<close>, \<open>stoi\<close>, \<open>to_string\<close>, character
    classes) and the lemma collections.
  \<^item> Encoding (\<open>util/Encoding.cpp\<close>): Base64, percent and hex coding; the 32-bit accumulators are words.
  \<^item> HttpMessage (\<open>http/HttpRequest.cpp\<close>, \<open>HttpResponse.cpp\<close>, \<open>HttpTransaction.hpp\<close>): messages as records,
    parsing of edited text, serialising, header lookup.
  \<^item> HttpParser (\<open>http/HttpParser.cpp\<close>): the callbacks, feed, take and reset around llhttp, which is the
    parameter \<open>llhttp\<close> (a state and a function from bytes to callback events).
  \<^item> Queues (\<open>util/TsQueue.hpp\<close>, \<open>EventQueue.hpp\<close>), Stores (\<open>storage\<close>), Utilities (\<open>StringUtils\<close>, \<open>Logger\<close>,
    \<open>Clipboard\<close>).
  \<^item> InterceptManager (\<open>proxy/InterceptManager.cpp\<close>), CertCache (\<open>proxy/CertCache.cpp\<close>), Certificates
    (\<open>proxy/SslInit.cpp\<close>, \<open>proxy/CertGenerator.cpp\<close>).
  \<^item> WriteQueue, Session (\<open>proxy/Session.cpp\<close>) and MitmSession (\<open>proxy/MitmSession.cpp\<close>): a session is a record
    of the members of the class, the list of its outstanding asynchronous operations and the list of its
    effects on shared objects; each handler is a function, and completing any outstanding operation with any
    result is a step.
  \<^item> ProxyServer (\<open>proxy/ProxyServer.cpp\<close>): accepting, start, stop and the io thread, serving sessions of theory
    Session; Application (\<open>app/App.cpp\<close>, \<open>app/Config.hpp\<close>, \<open>main.cpp\<close>): options, set-up, teardown, exit code.
  \<^item> Network: all connections of a server at once, plain and TLS, with the objects they share: the counter of
    transaction ids, the intercept manager, the decisions posted to the io thread, the transaction queue. The
    effects that Session and MitmSession record are carried out here; the user's operations come in between.
  \<^item> Service: the server and the network as one system on one io thread. Accepting opens a connection, stopping
    the server stops the completions and the decisions still posted with them.
  \<^item> Program: the running program. The tabs, their keys and events, and the service, with the objects they
    share: the intercept manager, the transaction queue and store, the request handed to the repeater. What a tab
    asks of a shared object (\<open>carry_out\<close>) is done to the part that owns it.
  \<^item> TextEditor, ScrollableViewer, HttpFormatter, HistoryTab, ProxyTab, RepeaterTab, RepeaterManager and TuiApp
    (the files of these names in \<open>tui\<close>, DecoderTab with TuiApp): the state behind each component of the
    interface and every event handler as a function on it.
  \<^item> Drawing (\<open>tui/Widgets.cpp\<close> and the \<open>Render\<close> methods of editor and viewer) and Screens (the renderers of the
    tabs and of \<open>TuiApp\<close>): what is drawn, as terms built by the calls of the interface library, together
    with the change of state a frame makes.
  \<^item> Expectations: unit tests of \<open>src/tests\<close> as lemmas about the models.
  \<^item> This theory: the properties across components.

  \<^bold>\<open>How the code is represented.\<close> A class is a record with its members' names, a method a function returning
  the updated record. Calls on other objects are either made (a session owns its parser, a tab its
  editor) or recorded as effects in order where the other object is shared (the intercept manager, the transaction
  callback, the TLS session a CONNECT is handed to). Exceptions are values of a sum, accesses that might be
  out of range values of an option, so that a proof of the result is a proof that they do not happen.
  Concurrency is explicit: each critical section, atomic operation or completion is one step, and inductive
  predicates or lists of operations range over all interleavings. Names of parameters: \<open>llhttp\<close> for the HTTP
  library, \<open>ssl_lib\<close> and \<open>crypto\<close> for OpenSSL, \<open>fs_env\<close> for the file system, \<open>bind_env\<close> for the sockets of the
  server, \<open>io_result\<close> for the outcome of an asynchronous operation.

  \<^bold>\<open>Interfaces.\<close> The locales are: \<open>codec\<close>, a coder with its decoder, interpreted by the three codings;
  \<open>header_callbacks\<close> and \<open>message_callbacks\<close>, what llhttp's client does with the events, by the request and the
  response parser; \<open>drained_channel\<close>, by \<open>TsQueue\<close>; \<open>write_queue\<close>, the serialised writes, by the two queues of
  both sessions; \<open>pending_gate\<close>, between requests and decisions, by the intercept manager; \<open>pausing\<close>, a connection that hands
  over requests and waits for decisions, by the plain session, the TLS session and their sum, from the two; \<open>context_provider\<close> of
  TLS contexts, by the certificate cache; \<open>store_reads\<close> and \<open>store\<close>, by the SQLite and the memory store;
  \<open>event_machine\<close>, what is driven by one event at a time, by the history, the repeater and the proxy tab.

  \<^bold>\<open>What the lemmas show.\<close> Data: the codings equal their reference definitions and are inverted; a request
  survives serialising and parsing; however bytes are cut, the parser hands over the whole message, with
  the one-MiB cap on response bodies characterised exactly. Flow: no intercepted request is lost or decided
  twice; a session carries one exchange at a time and never has two writes outstanding on a socket, and both
  byte streams keep their order; the TLS session reads application data only after both handshakes;
  the server keeps one accept outstanding while it runs, every session it serves is a reachable session,
  and a stop can always be completed; no update of the interface is lost. Certificates: the cache keeps its list
  and its table consistent and refines a bounded list, the root certificate survives restarts, and
  what is offered in a handshake verifies against it. Interface: the editor never leaves its text and edits it as
  one string, the viewer shows every row, the history shows all transactions, and Forward sends what is in
  the editor; a frame of the editor shows consecutive lines with the cursor's among them, what is highlighted
  is what is copied, and the proxy tab shows the request its buttons act on. Across components: an
  intercepted request reaches the server as edited; over all connections, each decision reaches the one
  connection that waits for it, which is held until then, ids are unique, and switching interception off leaves nobody waiting. In the whole program each part
  runs as it does alone, so that what is shown of a part holds there; the history gets every transaction
  that any connection reports, those of each in its order; Forward resumes the connection whose request is shown,
  with the text in the editor; and a request still held when the server stops is answered by nobody.

  \<^bold>\<open>Bounds and fuel.\<close> Nothing runs on fuel: loops of the source are structural recursions or functions with a
  measure, proved terminating. The repeater's reading loop ends only when the peer closes or fails, so the
  peer is a list of read results and the lemma says exactly when the loop returns. Bounds are those of the
  source: 1048576 bytes for bodies and TLS requests, 65536 for plain requests, the maxima of queue, cache and log,
  64-bit ids of the store, 16-bit ports. The 32-bit counter of transaction ids wraps; what is shown of
  it holds while fewer than 2^31 requests were taken.

  \<^bold>\<open>Not modelled.\<close> The layout of elements, their terminal output and the components of the interface library
  (buttons, inputs, menus), which draw and react on their own; the colours of formatted messages; texts
  that are only logged or printed; the release of memory and sockets' handles, and with it the destructors,
  which close once more what is closed; timing, so that a timer may fire at any time; the internals of
  llhttp, OpenSSL, Boost.Asio and FTXUI, which are parameters or outstanding operations with arbitrary
  results; torn or reordered accesses to members shared without a lock (the acceptor during a stop), which
  are taken one at a time. The test programs, build files and Python scripts are no part of the program.
\<close>

section \<open>From the root certificate to the handshake\<close>

text \<open>The generator that the cache calls: that of the started program, with the key and number drawn at the call.\<close>

definition ca_generator ::
  "crypto \<Rightarrow> fs_env \<Rightarrow> ssl_init \<Rightarrow> files \<Rightarrow> cert_generator \<Rightarrow> pkey option \<Rightarrow> 64 word option \<Rightarrow> string \<Rightarrow> cert_key_pair" where
  "ca_generator cr en si fs g k r h = fst (generate (renew_entropy k r cr) en si fs h g)"

text \<open>A pair for a host that a client trusting the root certificate accepts.\<close>

definition genuine :: "crypto \<Rightarrow> certificate \<Rightarrow> string \<Rightarrow> cert_key_pair \<Rightarrow> bool" where
  "genuine cr ca h pair \<longleftrightarrow> (\<exists>c :: certificate. certPem pair = cr_pemCert cr c \<and> keyPem pair = cr_pemKey cr (x_pubkey c)
     \<and> x_issuer c = x_subject ca \<and> x_signedBy c = x_pubkey ca
     \<and> ((''subjectAltName'', c_str (''DNS:'' @ h)) \<in> set (x_extensions c) \<longleftrightarrow>
          cr_extension cr ''subjectAltName'' (c_str (''DNS:'' @ h))))"

definition cached_genuine :: "crypto \<Rightarrow> certificate \<Rightarrow> cert_cache \<Rightarrow> bool" where
  "cached_genuine cr ca c \<longleftrightarrow> (\<forall>e \<in> set (cc_cache c). genuine cr ca (fst e) (ci_keyPair (snd e)))"

fun program_op :: "(pkey option \<Rightarrow> 64 word option \<Rightarrow> string \<Rightarrow> cert_key_pair) \<Rightarrow> cache_op \<Rightarrow> bool" where
  "program_op gen (CcExclusive h g ssl) \<longleftrightarrow> h \<noteq> [] \<and> (\<exists>k r. g = gen k r)"
| "program_op gen _ \<longleftrightarrow> True"

lemma generator_genuine:
  assumes "si_initialized s" "si_caCert s = Some ca" "si_caKey s = Some (x_pubkey ca)" "h \<noteq> []"
    and "certPem (ca_generator cr en s fs g k r h) \<noteq> []"
  shows "genuine cr ca h (ca_generator cr en s fs g k r h)"
proof -
  have "certPem empty_pair = []" by (simp add: empty_pair_def)
  with assms(5) obtain lk where k: "k = Some lk"
      "ca_generator cr en s fs g k r h = \<lparr>certPem = cr_pemCert cr (leaf_certificate (renew_entropy k r cr) ca (x_pubkey ca) lk h),
         keyPem = cr_pemKey cr lk\<rparr>"
    unfolding ca_generator_def generate_initialized [OF assms(1-4)] by (auto simp: Let_def split: option.splits if_splits)
  show ?thesis unfolding genuine_def
    using k by (intro exI [of _ "leaf_certificate (renew_entropy k r cr) ca (x_pubkey ca) lk h"]) (simp add: leaf_extensions_def)
qed

lemma promote_cached: "cached_genuine cr ca (promote h it c) = cached_genuine cr ca c"
  by (auto simp: cached_genuine_def promote_def set_lruIt_def lru_push_front_def lru_erase_def Let_def)

lemma evict_cached: "cached_genuine cr ca c \<Longrightarrow> cached_genuine cr ca (evict_oldest c)"
  by (auto simp: cached_genuine_def evict_oldest_def Let_def)

lemma insert_cached: "cached_genuine cr ca c \<Longrightarrow> genuine cr ca h pair \<Longrightarrow> cached_genuine cr ca (insert_entry h pair ctx c)"
  by (auto simp: cached_genuine_def insert_entry_def lru_push_front_def Let_def)

lemma exclusive_cached:
  assumes "cached_genuine cr ca c" "certPem (gen h) \<noteq> [] \<Longrightarrow> genuine cr ca h (gen h)"
  shows "cached_genuine cr ca (snd (getEntry_exclusive gen ssl h c))"
  using assms by (simp add: getEntry_exclusive_def Let_def promote_cached insert_cached evict_cached split: option.split)

lemma program_step_cached:
  assumes "si_initialized s" "si_caCert s = Some ca" "si_caKey s = Some (x_pubkey ca)"
    and "program_op (ca_generator cr en s fs g) p" "cached_genuine cr ca c"
  shows "cached_genuine cr ca (cc_step p c)"
proof (cases p)
  case (CcExclusive h gen ssl)
  with assms(4) obtain k r where "h \<noteq> []" "gen = ca_generator cr en s fs g k r" by auto
  with CcExclusive show ?thesis
    by (simp add: exclusive_cached [OF assms(5)] generator_genuine [OF assms(1-3)])
next
  case (CcTouch h)
  with assms(5) show ?thesis by (simp add: touch_def promote_cached split: option.split)
next
  case CcClear
  thus ?thesis by (simp add: cache_clear_def cached_genuine_def)
qed

lemma program_run_cached:
  assumes "si_initialized s" "si_caCert s = Some ca" "si_caKey s = Some (x_pubkey ca)"
  shows "\<lbrakk>\<forall>p \<in> set ps. program_op (ca_generator cr en s fs g) p; cached_genuine cr ca c\<rbrakk>
    \<Longrightarrow> cached_genuine cr ca (fold cc_step ps c)"
proof (induction ps arbitrary: c)
  case (Cons p ps)
  have "cached_genuine cr ca (cc_step p c)"
    by (rule program_step_cached [OF assms]) (use Cons.prems in auto)
  thus ?case using Cons by simp
qed simp

lemma getEntry_genuine:
  assumes "cached_genuine cr ca c" "certPem (gen h) \<noteq> [] \<Longrightarrow> genuine cr ca h (gen h)"
    and "getEntry gen ssl h c = ((pair, ctx), c')"
  shows "certPem pair \<noteq> [] \<longrightarrow> genuine cr ca h pair"
proof (cases "map_of (cc_cache c) h")
  case None
  with assms(2,3) show ?thesis
    by (auto simp: getEntry_def getEntry_shared_def getEntry_exclusive_def empty_pair_def Let_def split: if_splits)
next
  case (Some it)
  hence "genuine cr ca h (ci_keyPair it)" using assms(1) map_of_SomeD [OF Some] by (auto simp: cached_genuine_def)
  with Some assms(3) show ?thesis
    by (auto simp: getEntry_def getEntry_shared_def item_entry_def empty_pair_def split: if_splits)
qed


definition demo_ssl_init :: ssl_init where
  "demo_ssl_init = fst (snd (initialize demo_crypto demo_fs_env ''./ca'' SslInit demo_files))"

definition demo_ca_files :: files where
  "demo_ca_files = snd (snd (initialize demo_crypto demo_fs_env ''./ca'' SslInit demo_files))"

definition demo_generator :: "pkey option \<Rightarrow> 64 word option \<Rightarrow> string \<Rightarrow> cert_key_pair" where
  "demo_generator = ca_generator demo_crypto demo_fs_env demo_ssl_init demo_ca_files (CertGenerator [] [])"

lemma fresh_host_minted:
  "fst (fst (getEntry gen ssl ''a.org'' (fold cc_step [CcExclusive ''b.org'' gen' ssl] (CertCache 4)))) = gen ''a.org''"
  by (simp add: getEntry_def getEntry_shared_def getEntry_exclusive_def CertCache_def evict_oldest_def insert_entry_def
      lru_push_front_def Let_def split: option.split)

lemma demo_generator_mints: "certPem (demo_generator (Some 9) None ''a.org'') \<noteq> []"
proof -
  have "initialize demo_crypto demo_fs_env ''./ca'' SslInit demo_files = (True, demo_ssl_init, demo_ca_files)"
    using demo_initialize by (simp only: demo_ssl_init_def demo_ca_files_def)
  from initialized_ca [OF this demo_pem_reads_back] obtain ca where ca: "si_initialized demo_ssl_init"
      "si_caCert demo_ssl_init = Some ca" "si_caKey demo_ssl_init = Some (x_pubkey ca)" .
  show ?thesis
    unfolding demo_generator_def ca_generator_def
    by (subst generate_initialized [OF ca]) (simp_all add: Let_def demo_crypto_def demo_base_def)
qed


section \<open>From the client over the user to the server\<close>

text \<open>What the intercept manager does for a session's effect, and the completions a session then gets.\<close>

fun deliver_effect :: "session_effect \<Rightarrow> intercept_manager \<Rightarrow> intercept_manager" where
  "deliver_effect (InterceptRequest i h p r) im = snd (interceptRequest i False h p r im)"
| "deliver_effect (RemoveById i) im = snd (removeById i im)"
| "deliver_effect _ im = im"

definition posted_decision :: "intercepted_request \<times> intercept_action \<Rightarrow> io_result" where
  "posted_decision d = \<lparr>io_ec = Ec_ok, io_data = [], io_action = snd d, io_request = it_request (fst d)\<rparr>"

fun run_completions ::
  "'p llhttp \<Rightarrow> session_env \<Rightarrow> (async_op \<times> io_result) list \<Rightarrow> 'p session \<Rightarrow> 'p session option" where
  "run_completions ll en [] s = Some s"
| "run_completions ll en ((op, r) # ops) s =
     (if op \<in> set (ss_pending s)
      then case session_run_op ll en op r s of Inl e \<Rightarrow> None | Inr s' \<Rightarrow> run_completions ll en ops s'
      else None)"

text \<open>The one operation that carries an exchange on is there to complete, and gone when it has completed.\<close>

lemma main_pending: "main_ops s = [op] \<Longrightarrow> op \<in> set (ss_pending s)"
proof -
  assume "main_ops s = [op]"
  hence "op \<in> set (main_ops s)" by simp
  thus ?thesis by (simp add: main_ops_def)
qed

lemma main_taken: "main_ops s = [op] \<Longrightarrow> main_ops (s\<lparr>ss_pending := remove1 op (ss_pending s)\<rparr>) = []"
  by (simp add: main_ops_def filter_remove1)

lemma run_main:
  assumes "main_ops s = [op]"
  shows "run_completions ll en ((op, r) # ops) s =
    (case session_complete ll en op r (s\<lparr>ss_pending := remove1 op (ss_pending s)\<rparr>) of
       Inl e \<Rightarrow> None | Inr s' \<Rightarrow> run_completions ll en ops s')"
  using main_pending [OF assms] by (simp add: session_run_op_def)

lemma pending_simps:
  "ss_clientOpen (s\<lparr>ss_pending := q\<rparr>) = ss_clientOpen s" "ss_isConnect (s\<lparr>ss_pending := q\<rparr>) = ss_isConnect s"
  "ss_tx (s\<lparr>ss_pending := q\<rparr>) = ss_tx s" "ss_writeQueue (s\<lparr>ss_pending := q\<rparr>) = ss_writeQueue s"
  by simp_all

lemma forward_resolves:
  assumes "main_ops s = []" "ss_clientOpen s" "\<not> ss_isConnect s"
  shows "let s' = handleDecision Forward r s in main_ops s' = [Resolve] \<and> \<not> ss_isConnect s' \<and> tx_request (ss_tx s') = Some r"
  using assms by (simp add: handleDecision_def forwardRequest_def connectUpstream_def resetTimer_def Let_def session_simps)

lemma resolved_connects:
  assumes "main_ops s = []"
  shows "let s' = handleResolve Ec_ok s in main_ops s' = [Connect] \<and> ss_isConnect s' = ss_isConnect s \<and> ss_tx s' = ss_tx s"
  using assms by (simp add: handleResolve_def handleUpstreamConnect_def Let_def session_simps)

lemma connected_writes:
  assumes "main_ops s = []" "\<not> ss_isConnect s" "tx_request (ss_tx s) = Some r"
  shows "main_ops (handleConnected Ec_ok s) = [UpstreamWrite (serialize_request r)]"
  using assms by (simp add: handleConnected_def writeUpstream_def Let_def session_simps)

lemma forwarded_reaches_upstream:
  assumes "main_ops s = [Decision]" "ss_clientOpen s" "\<not> ss_isConnect s"
    and "io_action r0 = Forward" "io_ec r1 = Ec_ok" "io_ec r2 = Ec_ok"
  shows "\<exists>s'. run_completions ll en [(Decision, r0), (Resolve, r1), (Connect, r2)] s = Some s'
    \<and> main_ops s' = [UpstreamWrite (serialize_request (io_request r0))]"
proof -
  let ?a = "handleDecision Forward (io_request r0) (s\<lparr>ss_pending := remove1 Decision (ss_pending s)\<rparr>)"
  let ?b = "handleResolve Ec_ok (?a\<lparr>ss_pending := remove1 Resolve (ss_pending ?a)\<rparr>)"
  let ?c = "handleConnected Ec_ok (?b\<lparr>ss_pending := remove1 Connect (ss_pending ?b)\<rparr>)"
  have a: "main_ops ?a = [Resolve]" "\<not> ss_isConnect ?a" "tx_request (ss_tx ?a) = Some (io_request r0)"
    using forward_resolves [OF main_taken [OF assms(1)]] assms(2,3) unfolding Let_def pending_simps by blast+
  have b: "main_ops ?b = [Connect]" "ss_isConnect ?b = ss_isConnect ?a" "ss_tx ?b = ss_tx ?a"
    using resolved_connects [OF main_taken [OF a(1)]] unfolding Let_def pending_simps by blast+
  have "main_ops ?c = [UpstreamWrite (serialize_request (io_request r0))]"
    by (rule connected_writes [OF main_taken [OF b(1)]])
      (simp_all only: pending_simps b(2,3) a(2,3) not_False_eq_True)
  moreover have "run_completions ll en [(Decision, r0), (Resolve, r1), (Connect, r2)] s = Some ?c"
    by (simp only: run_main [OF assms(1)] run_main [OF a(1)] run_main [OF b(1)] session_complete.simps assms(4-6)
        sum.case run_completions.simps(1))
  ultimately show ?thesis by blast
qed

lemma dropped_is_answered:
  assumes "main_ops s = [Decision]" "ss_clientOpen s" "io_action r = Drop"
  shows "\<exists>s'. run_completions ll en [(Decision, r)] s = Some s' \<and> main_ops s' = []
    \<and> ss_writeQueue s' = ss_writeQueue s @ [error_response 502 ''Request Dropped by BurpTUI''] \<and> ss_closeAfterWrite s'"
  using assms main_taken [OF assms(1)]
  by (simp add: run_main [OF assms(1)] handleDecision_def resetTimer_def sendErrorResponse_def session_simps del: run_completions.simps(2))

text \<open>The buttons, when the queue holds one request.\<close>

lemma buttons_decide_only:
  assumes "im_queue (pt_manager t) = [item]"
  shows "decisions (fst (press_forward t)) = [(item\<lparr>it_request := ParseRawHttpRequest (GetText (pt_editor t))\<rparr>, Forward)]"
    and "decisions (fst (press_drop t)) = [(item, Drop)]"
  using assms
  by (simp_all add: press_forward_def press_drop_def apply_edit_def peekCurrent_def replace_current_def decide_button_def
      forwardCurrent_def dropCurrent_def decideCurrent_def notify_effect_def Let_def)

text \<open>
  C1: An intercepted request reaches the server as the user edited it. A session that has read a request for a
  host while interception is on hands it to the intercept manager under its transaction's id and waits for
  the decision. When the proxy tab holds it and the user presses Forward, the decision posted back makes
  the session resolve, connect and write upstream exactly the request parsed from the editor's text, and
  nothing else; on Drop the client alone is answered, with a 502 after which the connection closes.
\<close>
theorem intercepted_request_reaches_server:
  assumes "request_target req \<noteq> []" "split_host_port (request_target req) ''80'' = (h, p)" "\<not> is_local_page h (rq_url req)"
    and "stoi (if p = [] then ''80'' else p) = Inr port" "rq_method req \<noteq> ''CONNECT''" "en_intercept en"
    and "main_ops s = []" "ss_clientOpen s" "\<not> ss_isConnect s" "im_queue (pt_manager t) = []"
  shows "\<exists>s1. handle_request en req s = Inr s1 \<and>
    (let t1 = t\<lparr>pt_manager := deliver_effect (last (ss_effects s1)) (pt_manager t), pt_editor := ed\<rparr>;
         edited = ParseRawHttpRequest (GetText ed)
     in \<exists>item. it_id item = en_nextId en \<and> it_request item = req \<and> it_host item = h \<and>
          decisions (fst (press_forward t1)) = [(item\<lparr>it_request := edited\<rparr>, Forward)] \<and>
          decisions (fst (press_drop t1)) = [(item, Drop)] \<and>
          (\<exists>s2. run_completions ll en' [(Decision, posted_decision (item\<lparr>it_request := edited\<rparr>, Forward)),
                 (Resolve, io_ok []), (Connect, io_ok [])] s1 = Some s2 \<and> main_ops s2 = [UpstreamWrite (serialize_request edited)]) \<and>
          (\<exists>s2. run_completions ll en' [(Decision, posted_decision (item, Drop))] s1 = Some s2 \<and> main_ops s2 = [] \<and>
             ss_writeQueue s2 = ss_writeQueue s @ [error_response 502 ''Request Dropped by BurpTUI''] \<and> ss_closeAfterWrite s2))"
proof -
  let ?item = "\<lparr>it_id = en_nextId en, it_isHttps = False, it_host = h, it_port = word_of_int port, it_request = req\<rparr>"
  obtain s1 where s1: "handle_request en req s = Inr s1" "main_ops s1 = [Decision]" "ss_clientOpen s1" "\<not> ss_isConnect s1"
      "last (ss_effects s1) = InterceptRequest (en_nextId en) h (word_of_int port) req" "ss_writeQueue s1 = ss_writeQueue s"
    using assms by (simp add: handle_request_def handle_plain_def Let_def session_simps)
  let ?t = "t\<lparr>pt_manager := deliver_effect (last (ss_effects s1)) (pt_manager t), pt_editor := ed\<rparr>"
  have "im_queue (pt_manager ?t) = [?item]" using assms(10) by (simp add: s1(5) interceptRequest_def Let_def)
  note buttons = buttons_decide_only [OF this]
  have forward: "\<exists>s2. run_completions ll en' [(Decision, posted_decision (?item\<lparr>it_request := r\<rparr>, Forward)),
        (Resolve, io_ok []), (Connect, io_ok [])] s1 = Some s2 \<and> main_ops s2 = [UpstreamWrite (serialize_request r)]" for r
    using forwarded_reaches_upstream [OF s1(2-4), of "posted_decision (?item\<lparr>it_request := r\<rparr>, Forward)" "io_ok []" "io_ok []" ll en']
    by (simp add: posted_decision_def io_ok_def del: run_completions.simps)
  have drop: "\<exists>s2. run_completions ll en' [(Decision, posted_decision (?item, Drop))] s1 = Some s2 \<and> main_ops s2 = [] \<and>
      ss_writeQueue s2 = ss_writeQueue s @ [error_response 502 ''Request Dropped by BurpTUI''] \<and> ss_closeAfterWrite s2"
    using dropped_is_answered [OF s1(2,3), of "posted_decision (?item, Drop)" ll en']
    by (simp add: posted_decision_def s1(6) del: run_completions.simps)
  show ?thesis
    unfolding Let_def
    by (rule exI [of _ s1], rule conjI [OF s1(1)], rule exI [of _ ?item], intro conjI)
      (simp, simp, simp, use buttons in simp, use buttons in simp, rule forward, rule drop)
qed

lemma intercepted_request_reaches_server_witness:
  "\<exists>s1 s2 item. handle_request (demo_env\<lparr>en_intercept := True\<rparr>) demo_request (Session demo_ll True) = Inr s1
     \<and> run_completions demo_ll demo_env [(Decision, posted_decision (item, Drop))] s1 = Some s2 \<and> main_ops s2 = []
     \<and> it_request item = demo_request \<and> it_host item = ''example.com''"
proof -
  let ?t = "MakeProxyTab InterceptManager []"
  have "\<exists>s1. handle_request (demo_env\<lparr>en_intercept := True\<rparr>) demo_request (Session demo_ll True) = Inr s1 \<and>
    (let t1 = ?t\<lparr>pt_manager := deliver_effect (last (ss_effects s1)) (pt_manager ?t), pt_editor := pt_editor ?t\<rparr>;
         edited = ParseRawHttpRequest (GetText (pt_editor ?t))
     in \<exists>item. it_id item = en_nextId (demo_env\<lparr>en_intercept := True\<rparr>) \<and> it_request item = demo_request \<and> it_host item = ''example.com'' \<and>
          decisions (fst (press_forward t1)) = [(item\<lparr>it_request := edited\<rparr>, Forward)] \<and>
          decisions (fst (press_drop t1)) = [(item, Drop)] \<and>
          (\<exists>s2. run_completions demo_ll demo_env [(Decision, posted_decision (item\<lparr>it_request := edited\<rparr>, Forward)),
                 (Resolve, io_ok []), (Connect, io_ok [])] s1 = Some s2 \<and> main_ops s2 = [UpstreamWrite (serialize_request edited)]) \<and>
          (\<exists>s2. run_completions demo_ll demo_env [(Decision, posted_decision (item, Drop))] s1 = Some s2 \<and> main_ops s2 = [] \<and>
             ss_writeQueue s2 = ss_writeQueue (Session demo_ll True) @ [error_response 502 ''Request Dropped by BurpTUI''] \<and> ss_closeAfterWrite s2))"
  proof (rule intercepted_request_reaches_server)
    show "request_target demo_request \<noteq> []" "\<not> is_local_page ''example.com'' (rq_url demo_request)"
      "split_host_port (request_target demo_request) ''80'' = (''example.com'', ''8080'')"
      "rq_method demo_request \<noteq> ''CONNECT''"
      by code_simp+
    show "stoi (if ''8080'' = [] then ''80'' else ''8080'') = Inr 8080"
      by (simp add: stoi_def isspace_def isdigit_def byte_of_def dec_value_def Let_def)
    show "im_queue (pt_manager ?t) = []" by (simp add: MakeProxyTab_def InterceptManager_def)
  qed (simp_all add: Session_def main_ops_def)
  thus ?thesis unfolding Let_def by blast
qed

end
